(* ===== verification/CronPrelude.thy ===== *)
theory CronPrelude
  imports Main "HOL-Library.Word" "HOL-Library.Sublist"
begin

unbundle bit_operations_syntax

text \<open>
  The vocabulary the component theories share.

  \<^item> Characters are C \<open>char\<close>s (8 bits), a C string is the list of its bytes
    before the terminating NUL, and the \<open>int\<close> that \<open>getc\<close> returns is a
    \<open>char option\<close> with \<^const>\<open>None\<close> for \<open>EOF\<close>.
  \<^item> The C library functions the sources call on bytes and strings (\<open>isspace\<close>,
    \<open>isdigit\<close>, \<open>strchr\<close>, \<open>strtol\<close>, \<open>atoi\<close>, \<dots>) in the \<open>C\<close> locale, as glibc
    implements them.
  \<^item> \<open>int\<close> arithmetic that may leave the 32-bit range goes through \<open>s32\<close>,
    two's-complement wrap-around.
  \<^item> \<open>ctx\<close> carries the two effects every part of the daemon shares: whether the
    next allocations succeed (so that each \<open>NULL\<close> check of the sources is a branch)
    and the messages given to \<open>log_it\<close>.
\<close>

named_theorems ctype_simps "the character classes of ctype.h, unfolded"
named_theorems macro_defs "numeric macros of macros.h"

section \<open>Characters and the C library\<close>

abbreviation NUL :: char where "NUL \<equiv> CHR 0x00"
abbreviation NL :: char where "NL \<equiv> CHR 0x0A"
abbreviation TAB :: char where "TAB \<equiv> CHR 0x09"
abbreviation SP :: char where "SP \<equiv> CHR 0x20"
abbreviation BSLASH :: char where "BSLASH \<equiv> CHR 0x5C"

type_synonym chr = "char option"

definition ord_char :: "char \<Rightarrow> nat" where
  "ord_char c = of_char c"

definition c_isdigit :: "char \<Rightarrow> bool" where
  [ctype_simps]: "c_isdigit c \<longleftrightarrow> 48 \<le> ord_char c \<and> ord_char c \<le> 57"

definition c_isupper :: "char \<Rightarrow> bool" where
  [ctype_simps]: "c_isupper c \<longleftrightarrow> 65 \<le> ord_char c \<and> ord_char c \<le> 90"

definition c_islower :: "char \<Rightarrow> bool" where
  [ctype_simps]: "c_islower c \<longleftrightarrow> 97 \<le> ord_char c \<and> ord_char c \<le> 122"

definition c_isalpha :: "char \<Rightarrow> bool" where
  [ctype_simps]: "c_isalpha c \<longleftrightarrow> c_isupper c \<or> c_islower c"

definition c_isalnum :: "char \<Rightarrow> bool" where
  [ctype_simps]: "c_isalnum c \<longleftrightarrow> c_isalpha c \<or> c_isdigit c"

definition c_isspace :: "char \<Rightarrow> bool" where
  [ctype_simps]: "c_isspace c \<longleftrightarrow> ord_char c = 32 \<or> (9 \<le> ord_char c \<and> ord_char c \<le> 13)"

definition c_isprint :: "char \<Rightarrow> bool" where
  [ctype_simps]: "c_isprint c \<longleftrightarrow> 32 \<le> ord_char c \<and> ord_char c \<le> 126"

definition c_isascii :: "char \<Rightarrow> bool" where
  [ctype_simps]: "c_isascii c \<longleftrightarrow> ord_char c \<le> 127"

definition c_tolower :: "char \<Rightarrow> char" where
  "c_tolower c = (if c_isupper c then char_of (ord_char c + 32) else c)"

text \<open>\<open>strchr\<close> on a terminated string also finds the terminator itself.\<close>

definition strchr :: "string \<Rightarrow> char \<Rightarrow> bool" where
  "strchr s c \<longleftrightarrow> c = NUL \<or> c \<in> set s"

definition strcasecmp_eq :: "string \<Rightarrow> string \<Rightarrow> bool" where
  "strcasecmp_eq a b \<longleftrightarrow> map c_tolower a = map c_tolower b"

text \<open>\<open>strncmp a b n = 0\<close> for terminated strings: the terminators take part.\<close>

definition strncmp_eq :: "string \<Rightarrow> string \<Rightarrow> nat \<Rightarrow> bool" where
  "strncmp_eq a b n \<longleftrightarrow> take n (a @ [NUL]) = take n (b @ [NUL])"

text \<open>The string a terminated buffer holds.\<close>

definition cstr :: "string \<Rightarrow> string" where
  "cstr buf = takeWhile (\<lambda>c. c \<noteq> NUL) buf"

definition no_nul :: "string \<Rightarrow> bool" where
  "no_nul s \<longleftrightarrow> NUL \<notin> set s"

section \<open>Machine integers\<close>

definition s32 :: "int \<Rightarrow> int" where
  "s32 x = (x + 2 ^ 31) mod 2 ^ 32 - 2 ^ 31"

definition INT_MAX :: int where [macro_defs]: "INT_MAX = 2 ^ 31 - 1"
definition LONG_MAX :: int where [macro_defs]: "LONG_MAX = 2 ^ 63 - 1"
definition LONG_MIN :: int where [macro_defs]: "LONG_MIN = - (2 ^ 63)"

definition digit_val :: "char \<Rightarrow> int" where
  "digit_val c = int (ord_char c) - 48"

fun digits_val :: "int \<Rightarrow> string \<Rightarrow> int" where
  "digits_val a [] = a"
| "digits_val a (c # cs) = digits_val (10 * a + digit_val c) cs"

text \<open>\<open>strtol (s, NULL, 10)\<close>: the clamped value and whether \<open>errno\<close> becomes \<open>ERANGE\<close>.\<close>

definition strtol10 :: "string \<Rightarrow> int \<times> bool" where
  "strtol10 s =
     (let t = dropWhile c_isspace s;
          neg = (t \<noteq> [] \<and> hd t = CHR ''-'');
          u = (if t \<noteq> [] \<and> (hd t = CHR ''-'' \<or> hd t = CHR ''+'') then tl t else t);
          v = digits_val 0 (takeWhile c_isdigit u);
          w = (if neg then - v else v)
      in if w > LONG_MAX then (LONG_MAX, True)
         else if w < LONG_MIN then (LONG_MIN, True)
         else (w, False))"

text \<open>glibc's \<open>atoi\<close> is \<open>(int) strtol (s, NULL, 10)\<close>.\<close>

definition atoi :: "string \<Rightarrow> int" where
  "atoi s = s32 (fst (strtol10 s))"

text \<open>C division of \<open>int\<close>s truncates towards zero.\<close>

definition c_div :: "int \<Rightarrow> int \<Rightarrow> int" where
  "c_div a b = sgn a * sgn b * (\<bar>a\<bar> div \<bar>b\<bar>)"

section \<open>Allocation and logging\<close>

type_synonym logmsg = "string \<times> string \<times> string"

record ctx =
  allocs :: "bool list"
  logs :: "logmsg list"

text \<open>One \<open>malloc\<close>, \<open>realloc\<close> or \<open>strdup\<close>: the next recorded outcome, success when
  none is recorded.\<close>

definition alloc :: "ctx \<Rightarrow> bool \<times> ctx" where
  "alloc c = (case allocs c of [] \<Rightarrow> (True, c) | b # bs \<Rightarrow> (b, c\<lparr>allocs := bs\<rparr>))"

definition ctx0 :: ctx where
  "ctx0 = \<lparr>allocs = [], logs = []\<rparr>"

lemma alloc_nil [simp]: "allocs c = [] \<Longrightarrow> alloc c = (True, c)"
  by (simp add: alloc_def)

lemma alloc_logs [simp]: "logs (snd (alloc c)) = logs c"
  by (simp add: alloc_def split: list.splits)

lemma alloc_logs_eq: "alloc c = (b, c') \<Longrightarrow> logs c' = logs c"
  by (metis alloc_logs snd_conv)

section \<open>Generic lemmas\<close>

lemma s32_id: "- (2 ^ 31) \<le> x \<Longrightarrow> x < 2 ^ 31 \<Longrightarrow> s32 x = x"
  by (simp add: s32_def)

lemma s32_range: "- (2 ^ 31) \<le> s32 x \<and> s32 x < 2 ^ 31"
proof -
  have "0 \<le> (x + 2 ^ 31) mod 2 ^ 32" and "(x + 2 ^ 31) mod 2 ^ 32 < 2 ^ 32"
    by simp_all
  then show ?thesis by (simp add: s32_def)
qed

lemma s32_period: "s32 (x + 2 ^ 32) = s32 x"
proof -
  have "x + 2 ^ 32 + 2 ^ 31 = (x + 2 ^ 31) + (2 ^ 32 :: int)" by simp
  then show ?thesis unfolding s32_def by (simp only: mod_add_self2)
qed

lemma digits_val_append: "digits_val a (xs @ ys) = digits_val (digits_val a xs) ys"
  by (induction xs arbitrary: a) auto

lemma digit_val_range: "c_isdigit c \<Longrightarrow> 0 \<le> digit_val c \<and> digit_val c \<le> 9"
  by (auto simp: digit_val_def ctype_simps)

lemma digits_val_nonneg:
  "0 \<le> a \<Longrightarrow> list_all c_isdigit s \<Longrightarrow> 0 \<le> digits_val a s"
proof (induction s arbitrary: a)
  case Nil
  then show ?case by simp
next
  case (Cons c s)
  then have "0 \<le> digit_val c" using digit_val_range by simp
  with Cons.prems(1) have "0 \<le> 10 * a + digit_val c" by simp
  with Cons show ?case by simp
qed

lemma digits_val_shift: "digits_val a s = a * 10 ^ length s + digits_val 0 s"
proof (induction s arbitrary: a)
  case Nil
  then show ?case by simp
next
  case (Cons c s)
  have "digits_val a (c # s) = (10 * a + digit_val c) * 10 ^ length s + digits_val 0 s"
    using Cons.IH[of "10 * a + digit_val c"] by simp
  moreover have "digits_val 0 (c # s) = digit_val c * 10 ^ length s + digits_val 0 s"
    using Cons.IH[of "digit_val c"] by simp
  ultimately show ?case by (simp add: algebra_simps)
qed

lemma digits_val_bound: "list_all c_isdigit s \<Longrightarrow> digits_val 0 s < 10 ^ length s"
proof (induction s)
  case Nil
  then show ?case by simp
next
  case (Cons c s)
  then have "digits_val 0 s < 10 ^ length s" and "digit_val c \<le> 9"
    by (auto dest: digit_val_range)
  moreover have "digits_val 0 (c # s) = digit_val c * 10 ^ length s + digits_val 0 s"
    using digits_val_shift[of "digit_val c" s] by simp
  moreover have "digit_val c * 10 ^ length s \<le> 9 * 10 ^ length s"
    using \<open>digit_val c \<le> 9\<close> by (rule mult_right_mono) simp
  moreover have "(10 :: int) ^ length (c # s) = 10 * 10 ^ length s" by simp
  ultimately show ?case by linarith
qed

lemma takeWhile_all: "list_all p s \<Longrightarrow> takeWhile p s = s"
  by (induction s) auto

lemma c_isdigit_not_special:
  assumes "c_isdigit c"
  shows "\<not> c_isspace c" "c \<noteq> CHR ''-''" "c \<noteq> CHR ''+''" "c \<noteq> NUL" "\<not> c_isalpha c"
  using assms by (auto simp: ctype_simps ord_char_def)

lemma atoi_digits:
  assumes "list_all c_isdigit s"
  shows "atoi s = s32 (min (digits_val 0 s) LONG_MAX)"
proof (cases s)
  case Nil
  then show ?thesis
    by (simp add: atoi_def strtol10_def macro_defs s32_def)
next
  case (Cons c cs)
  from assms Cons have c: "c_isdigit c" by simp
  have nn: "0 \<le> digits_val 0 s" using assms by (simp add: digits_val_nonneg)
  have "takeWhile c_isdigit s = s" using assms by (rule takeWhile_all)
  with Cons c_isdigit_not_special[OF c] nn show ?thesis
    by (simp add: atoi_def strtol10_def Let_def min_def macro_defs)
qed

lemma cstr_append_nul: "no_nul s \<Longrightarrow> cstr (s @ NUL # t) = s"
  by (induction s) (auto simp: cstr_def no_nul_def)

lemma cstr_no_nul: "no_nul (cstr buf)"
  by (auto simp: cstr_def no_nul_def dest: set_takeWhileD)

lemma cstr_id: "no_nul s \<Longrightarrow> cstr s = s"
  by (auto simp: cstr_def no_nul_def takeWhile_eq_all_conv)

lemma no_nul_simps [simp]:
  "no_nul []" "no_nul (c # s) \<longleftrightarrow> c \<noteq> NUL \<and> no_nul s"
  "no_nul (s @ t) \<longleftrightarrow> no_nul s \<and> no_nul t"
  by (auto simp: no_nul_def)

end
