(* ===== verification/CronStrings.thy ===== *)
theory CronStrings
  imports CronPrelude
begin

text \<open>
  The string helpers of \<open>cronie-1.4.6/src/misc.c\<close>: \<open>glue_strings\<close>, \<open>strcmp_until\<close>,
  \<open>strdtb\<close>, \<open>first_word\<close>, \<open>mkprint\<close>/\<open>mkprints\<close>, \<open>strlens\<close> and
  \<open>set_debug_flags\<close>, each with the lemma that says what it computes.
\<close>

section \<open>Definitions\<close>

definition MAX_TEMPSTR :: nat where [macro_defs]: "MAX_TEMPSTR = 131072"

text \<open>\<open>*s\<close> on a terminated string.\<close>

definition hd0 :: "string \<Rightarrow> char" where
  "hd0 s = (case s of [] \<Rightarrow> NUL | c # _ \<Rightarrow> c)"

text \<open>The value of a (signed) \<open>char\<close> in an expression.\<close>

definition schar :: "char \<Rightarrow> int" where
  "schar c = (if ord_char c < 128 then int (ord_char c) else int (ord_char c) - 256)"

subsection \<open>glue_strings\<close>

text \<open>The copy loop: \<open>buf\<close> is what has been written, \<open>sz\<close> the room.\<close>

fun glue_copy :: "nat \<Rightarrow> string \<Rightarrow> string \<Rightarrow> string" where
  "glue_copy sz buf [] = buf"
| "glue_copy sz buf (c # cs) =
     (if length buf < sz then glue_copy sz (buf @ [c]) cs else buf)"

definition glue_strings :: "nat \<Rightarrow> string \<Rightarrow> string \<Rightarrow> char \<Rightarrow> string option" where
  "glue_strings bufsz a b separator =
     (if bufsz = 0 then None
      else let buf = glue_copy bufsz [] a in
        if length buf = bufsz then None
        else let buf = (if separator \<noteq> CHR ''/'' \<or> buf = [] \<or> last buf \<noteq> CHR ''/''
                        then buf @ [separator] else buf) in
          if length buf = bufsz then None
          else let buf = glue_copy bufsz buf b in
            if length buf = bufsz then None else Some buf)"

text \<open>What \<open>sprintf (buffer, "%s%c%s", a, separator, b)\<close> would write, with a doubled
  \<open>'/'\<close> squeezed.\<close>

definition glued :: "string \<Rightarrow> string \<Rightarrow> char \<Rightarrow> string" where
  "glued a b separator =
     (if separator = CHR ''/'' \<and> a \<noteq> [] \<and> last a = CHR ''/'' then a @ b
      else a @ separator # b)"

subsection \<open>strcmp_until\<close>

function strcmp_until :: "string \<Rightarrow> string \<Rightarrow> char \<Rightarrow> int" where
  "strcmp_until left right until =
     (if hd0 left \<noteq> NUL \<and> hd0 left \<noteq> until \<and> hd0 left = hd0 right
      then strcmp_until (tl left) (tl right) until
      else if (hd0 left = NUL \<or> hd0 left = until) \<and> (hd0 right = NUL \<or> hd0 right = until)
      then 0
      else schar (hd0 left) - schar (hd0 right))"
  by pat_completeness auto
termination
  by (relation "measure (\<lambda>(left, right, until). length left)")
     (auto simp: hd0_def split: list.splits)

declare strcmp_until.simps [simp del]

subsection \<open>strdtb\<close>

text \<open>The backward scan: \<open>x\<close> is the offset of the pointer, \<open>-1\<close> before the string.\<close>

function strdtb_back :: "string \<Rightarrow> int \<Rightarrow> int" where
  "strdtb_back s x = (if 0 \<le> x \<and> c_isspace (s ! nat x) then strdtb_back s (x - 1) else x)"
  by pat_completeness auto
termination
  by (relation "measure (\<lambda>(s, x). nat (x + 1))") auto

declare strdtb_back.simps [simp del]

definition strdtb :: "string \<Rightarrow> string \<times> int" where
  "strdtb s = (let x = strdtb_back s (int (length s) - 1) + 1 in (take (nat x) s, x))"

subsection \<open>first_word\<close>

text \<open>The state is the static \<open>retsel\<close> and the two static buffers.\<close>

type_synonym word_bufs = "bool \<times> string \<times> string"

fun first_word_copy :: "nat \<Rightarrow> string \<Rightarrow> string \<Rightarrow> string" where
  "first_word_copy room t [] = []"
| "first_word_copy room t (c # cs) =
     (if \<not> strchr t c \<and> 0 < room then c # first_word_copy (room - 1) t cs else [])"

definition first_word :: "word_bufs \<Rightarrow> string \<Rightarrow> string \<Rightarrow> string \<times> word_bufs" where
  "first_word st s t =
     (let (retsel, b0, b1) = st;
          retsel' = (\<not> retsel);
          w = first_word_copy MAX_TEMPSTR t (dropWhile (strchr t) s)
      in (w, if retsel' then (retsel', b0, w) else (retsel', w, b1)))"

subsection \<open>mkprint and mkprints\<close>

definition oct_digit :: "nat \<Rightarrow> char" where
  "oct_digit n = char_of (48 + n mod 8)"

definition mkprint_char :: "char \<Rightarrow> string" where
  "mkprint_char c =
     (if ord_char c < 32 then [CHR ''^'', char_of (ord_char c + 64)]
      else if ord_char c < 127 then [c]
      else if ord_char c = 127 then [CHR ''^'', CHR ''?'']
      else [BSLASH, oct_digit (ord_char c div 64), oct_digit (ord_char c div 8),
            oct_digit (ord_char c)])"

fun mkprint :: "string \<Rightarrow> string" where
  "mkprint [] = []"
| "mkprint (c # cs) = mkprint_char c @ mkprint cs"

definition mkprints :: "ctx \<Rightarrow> string \<Rightarrow> string option \<times> ctx" where
  "mkprints c src =
     (let (ok, c') = alloc c in (if ok then Some (mkprint src) else None, c'))"

subsection \<open>strlens\<close>

fun strlens :: "string list \<Rightarrow> nat" where
  "strlens [] = 0"
| "strlens (s # ss) = length s + strlens ss"

subsection \<open>set_debug_flags\<close>

definition DebugFlagNames :: "string list" where
  "DebugFlagNames =
     [''ext'', ''sch'', ''proc'', ''pars'', ''load'', ''misc'', ''test'', ''bit'']"

text \<open>The inner search: the msk of the first flag name that matches up to a comma.\<close>

fun debug_flag_mask :: "string list \<Rightarrow> nat \<Rightarrow> string \<Rightarrow> nat option" where
  "debug_flag_mask [] msk pc = None"
| "debug_flag_mask (t # ts) msk pc =
     (if strcmp_until t pc CHR '','' \<noteq> 0 then debug_flag_mask ts (2 * msk) pc else Some msk)"

text \<open>\<open>while (*pc && *pc != ',') pc++; if (*pc == ',') pc++;\<close>\<close>

definition next_flag :: "string \<Rightarrow> string" where
  "next_flag pc =
     (case dropWhile (\<lambda>c. c \<noteq> CHR '','') pc of [] \<Rightarrow> [] | _ # rest \<Rightarrow> rest)"

lemma next_flag_shorter: "pc \<noteq> [] \<Longrightarrow> length (next_flag pc) < length pc"
proof -
  assume "pc \<noteq> []"
  have "length (dropWhile (\<lambda>c. c \<noteq> CHR '','') pc) \<le> length pc"
    by (rule length_dropWhile_le)
  then show ?thesis
    using \<open>pc \<noteq> []\<close> by (auto simp: next_flag_def split: list.splits)
qed

function debug_flags_loop :: "nat \<Rightarrow> string \<Rightarrow> nat option" where
  "debug_flags_loop acc pc =
     (if pc = [] then Some acc
      else case debug_flag_mask DebugFlagNames 1 pc of
        None \<Rightarrow> None
      | Some msk \<Rightarrow> debug_flags_loop (acc OR msk) (next_flag pc))"
  by pat_completeness auto
termination
  by (relation "measure (\<lambda>(acc, pc). length pc)") (auto simp: next_flag_shorter)

declare debug_flags_loop.simps [simp del]

text \<open>\<^const>\<open>None\<close> is the \<open>FALSE\<close> return on an unrecognised flag.\<close>

definition set_debug_flags :: "string \<Rightarrow> nat option" where
  "set_debug_flags flags = debug_flags_loop 0 flags"

section \<open>Properties\<close>

lemma glue_copy_take:
  "length buf \<le> sz \<Longrightarrow> glue_copy sz buf s = take sz (buf @ s)"
  by (induction sz buf s rule: glue_copy.induct) auto

lemma glue_strings_spec:
  "glue_strings sz a b sep =
     (if length (glued a b sep) < sz then Some (glued a b sep) else None)"
proof (cases "length a < sz")
  case False
  then show ?thesis
    by (auto simp: glue_strings_def glued_def glue_copy_take Let_def)
next
  case True
  define buf where
    "buf = (if sep \<noteq> CHR ''/'' \<or> a = [] \<or> last a \<noteq> CHR ''/'' then a @ [sep] else a)"
  have g: "glued a b sep = buf @ b"
    by (auto simp: glued_def buf_def)
  have len: "length buf \<le> sz"
    using True by (auto simp: buf_def)
  have "glue_strings sz a b sep =
      (if length buf = sz then None
       else let r = glue_copy sz buf b in if length r = sz then None else Some r)"
    using True by (auto simp: glue_strings_def glue_copy_take buf_def Let_def)
  also have "\<dots> = (if length (buf @ b) < sz then Some (buf @ b) else None)"
    using len by (auto simp: glue_copy_take Let_def)
  finally show ?thesis using g by simp
qed

lemma glue_strings_no_nul:
  "glue_strings sz a b sep = Some r \<Longrightarrow> no_nul a \<Longrightarrow> no_nul b \<Longrightarrow> sep \<noteq> NUL \<Longrightarrow> no_nul r"
  by (auto simp: glue_strings_spec glued_def split: if_splits)

lemma hd0_simps [simp]: "hd0 [] = NUL" "hd0 (c # s) = c"
  by (simp_all add: hd0_def)

lemma schar_inj: "schar c = schar d \<Longrightarrow> c = d"
proof -
  assume "schar c = schar d"
  moreover have "ord_char c < 256" "ord_char d < 256" by (simp_all add: ord_char_def)
  ultimately have "ord_char c = ord_char d"
    by (auto simp: schar_def split: if_splits)
  then show ?thesis by (simp add: ord_char_def)
qed

lemma strcmp_until_eq_0_iff:
  assumes "no_nul l" and "no_nul r" and "u \<noteq> NUL"
  shows "strcmp_until l r u = 0 \<longleftrightarrow>
    takeWhile (\<lambda>c. c \<noteq> u) l = takeWhile (\<lambda>c. c \<noteq> u) r"
  using assms
proof (induction l r u rule: strcmp_until.induct)
  case (1 l r u)
  show ?case
  proof (cases "hd0 l \<noteq> NUL \<and> hd0 l \<noteq> u \<and> hd0 l = hd0 r")
    case True
    then obtain c l' r' where lr: "l = c # l'" "r = c # r'" "c \<noteq> u"
      by (auto simp: hd0_def split: list.splits)
    have "strcmp_until l r u = strcmp_until (tl l) (tl r) u"
      using True unfolding lr
      by (simp add: strcmp_until.simps[of "c # l'" "c # r'" u])
    then show ?thesis using "1.IH"[OF True] "1.prems" lr by simp
  next
    case False
    have eq: "strcmp_until l r u =
        (if (hd0 l = NUL \<or> hd0 l = u) \<and> (hd0 r = NUL \<or> hd0 r = u) then 0
         else schar (hd0 l) - schar (hd0 r))"
      using False by (subst strcmp_until.simps) auto
    show ?thesis
      using False "1.prems" unfolding eq
      by (cases l; cases r) (auto dest: schar_inj)
  qed
qed

lemma take_nat_Suc:
  assumes "0 \<le> x" and "x < int (length s)"
  shows "take (nat (x + 1)) s = take (nat x) s @ [s ! nat x]"
proof -
  have "nat (x + 1) = Suc (nat x)" and "nat x < length s" using assms by auto
  then show ?thesis by (simp add: take_Suc_conv_app_nth)
qed

lemma strdtb_back_spec:
  "x < int (length s) \<Longrightarrow> - 1 \<le> x \<Longrightarrow>
     take (nat (strdtb_back s x + 1)) s =
       rev (dropWhile c_isspace (rev (take (nat (x + 1)) s)))
     \<and> - 1 \<le> strdtb_back s x \<and> strdtb_back s x \<le> x"
proof (induction s x rule: strdtb_back.induct)
  case (1 s x)
  show ?case
  proof (cases "0 \<le> x \<and> c_isspace (s ! nat x)")
    case True
    have "take (nat (x + 1)) s = take (nat x) s @ [s ! nat x]"
      using True "1.prems" by (intro take_nat_Suc) auto
    then show ?thesis using True "1.IH"[OF True] "1.prems"
      by (simp add: strdtb_back.simps[of s x])
  next
    case False
    have "rev (dropWhile c_isspace (rev (take (nat (x + 1)) s))) = take (nat (x + 1)) s"
    proof (cases "0 \<le> x")
      case True
      then have "take (nat (x + 1)) s = take (nat x) s @ [s ! nat x]"
        using "1.prems" by (intro take_nat_Suc)
      then show ?thesis using False True by simp
    next
      case False
      with "1.prems" have "x = - 1" by simp
      then show ?thesis by simp
    qed
    with False "1.prems" show ?thesis by (auto simp: strdtb_back.simps[of s x])
  qed
qed

lemma strdtb_spec:
  "strdtb s = (let t = rev (dropWhile c_isspace (rev s)) in (t, int (length t)))"
proof -
  let ?x = "strdtb_back s (int (length s) - 1)"
  have *: "take (nat (?x + 1)) s = rev (dropWhile c_isspace (rev s))"
    and b: "- 1 \<le> ?x" "?x \<le> int (length s) - 1"
    using strdtb_back_spec[of "int (length s) - 1" s] by auto
  have "length (take (nat (?x + 1)) s) = nat (?x + 1)" using b by simp
  then have "int (length (rev (dropWhile c_isspace (rev s)))) = ?x + 1"
    using * b by simp
  then show ?thesis using * by (simp add: strdtb_def Let_def)
qed

lemma first_word_copy_take:
  "first_word_copy room t s = take room (takeWhile (\<lambda>c. \<not> strchr t c) s)"
proof (induction room t s rule: first_word_copy.induct)
  case (2 room t c cs)
  then show ?case by (cases room) auto
qed simp

text \<open>The word returned last survives exactly one more call: the buffers alternate.\<close>

lemma first_word_previous:
  assumes "first_word st s t = (w, st')" and "first_word st' s2 t2 = (w2, st'')"
  shows "w \<in> {fst (snd st''), snd (snd st'')} \<and> w2 \<in> {fst (snd st''), snd (snd st'')}
     \<and> fst st'' \<noteq> fst st'"
  using assms by (auto simp: first_word_def Let_def split: prod.splits if_splits)

lemma oct_digit_ord: "ord_char (oct_digit n) = 48 + n mod 8"
proof -
  have "n mod 8 < 8" by simp
  then have "48 + n mod 8 < 256" by linarith
  then show ?thesis by (simp add: oct_digit_def ord_char_def)
qed

lemma oct_digit_printable [simp]: "c_isprint (oct_digit n)"
proof -
  have "n mod 8 < 8" by simp
  then show ?thesis by (simp add: c_isprint_def oct_digit_ord)
qed

lemma mkprint_char_printable: "\<forall>d \<in> set (mkprint_char c). c_isprint d"
proof -
  have "c_isprint BSLASH" "c_isprint CHR ''^''" "c_isprint CHR ''?''"
    by (simp_all add: c_isprint_def ord_char_def)
  moreover have "ord_char c < 32 \<Longrightarrow> c_isprint (char_of (ord_char c + 64))"
    by (simp add: c_isprint_def ord_char_def)
  moreover have "\<not> ord_char c < 32 \<Longrightarrow> ord_char c < 127 \<Longrightarrow> c_isprint c"
    by (simp add: c_isprint_def)
  ultimately show ?thesis by (simp add: mkprint_char_def)
qed

lemma mkprint_printable: "\<forall>d \<in> set (mkprint s). c_isprint d"
  by (induction s) (auto simp: mkprint_char_printable)

lemma mkprint_char_length: "1 \<le> length (mkprint_char c) \<and> length (mkprint_char c) \<le> 4"
  by (simp add: mkprint_char_def)

lemma mkprint_length: "length (mkprint s) \<le> 4 * length s"
proof (induction s)
  case (Cons c s)
  then show ?case using mkprint_char_length[of c] by simp
qed simp

lemma strlens_concat: "strlens ss = length (concat ss)"
  by (induction ss) auto

end
