(* ===== verification/CronStream.thy ===== *)
theory CronStream
  imports CronStrings
begin

text \<open>
  Reading a crontab character by character: the \<open>FILE\<close> and the global \<open>LineNumber\<close>
  as one state, and \<open>get_char\<close>, \<open>unget_char\<close>, \<open>get_string\<close> and \<open>skip_comments\<close> of
  \<open>misc.c\<close> with the macros \<open>Skip_Blanks\<close> and \<open>Skip_Nonblanks\<close> of \<open>macros.h\<close>.

  The contract every reader of the daemon keeps is the locale \<open>reader\<close>: it leaves a
  suffix of the input and \<open>LineNumber\<close> stays exact (the line number plus the newlines
  still to come is constant).
\<close>

section \<open>Definitions\<close>

text \<open>
  \<open>rest\<close> is the input from the file position on (a pushed back character included),
  \<open>at_eof\<close> the end-of-file indicator that \<open>feof\<close> reads, \<open>LineNumber\<close> the global.
\<close>

record istream =
  rest :: string
  at_eof :: bool
  LineNumber :: int

definition open_stream :: "string \<Rightarrow> istream" where
  "open_stream s = \<lparr>rest = s, at_eof = False, LineNumber = 1\<rparr>"

definition get_char :: "istream \<Rightarrow> chr \<times> istream" where
  "get_char f =
     (case rest f of
        [] \<Rightarrow> (None, f\<lparr>at_eof := True\<rparr>)
      | c # cs \<Rightarrow>
          (Some c, f\<lparr>rest := cs,
             LineNumber := (if c = NL then LineNumber f + 1 else LineNumber f)\<rparr>))"

text \<open>\<open>ungetc (EOF, file)\<close> does nothing; any other push-back clears the indicator.\<close>

definition unget_char :: "chr \<Rightarrow> istream \<Rightarrow> istream" where
  "unget_char ch f =
     (case ch of
        None \<Rightarrow> f
      | Some c \<Rightarrow>
          f\<lparr>rest := c # rest f, at_eof := False,
            LineNumber := (if c = NL then LineNumber f - 1 else LineNumber f)\<rparr>)"

lemma get_char_shorter: "get_char f = (Some c, g) \<Longrightarrow> length (rest g) < length (rest f)"
  by (auto simp: get_char_def split: list.splits)

function get_string :: "nat \<Rightarrow> istream \<Rightarrow> string \<Rightarrow> chr \<times> string \<times> istream" where
  "get_string sz f terms =
     (case get_char f of
        (None, g) \<Rightarrow> (None, [], g)
      | (Some c, g) \<Rightarrow>
          if strchr terms c then (Some c, [], g)
          else if 1 < sz then
            (case get_string (sz - 1) g terms of (r, s, h) \<Rightarrow> (r, c # s, h))
          else get_string sz g terms)"
  by pat_completeness auto
termination
  by (relation "measure (\<lambda>(sz, f, terms). length (rest f))")
     (auto dest: get_char_shorter sym)

declare get_string.simps [simp del]

text \<open>The three skipping loops, \<open>while (<test on c>) c = get_char (f);\<close> with a test that fails
  on \<open>EOF\<close>.\<close>

function skip_while :: "(char \<Rightarrow> bool) \<Rightarrow> chr \<Rightarrow> istream \<Rightarrow> chr \<times> istream" where
  "skip_while p ch f =
     (case ch of
        None \<Rightarrow> (None, f)
      | Some c \<Rightarrow>
          if p c then (case get_char f of (ch', g) \<Rightarrow> skip_while p ch' g) else (Some c, f))"
  by pat_completeness auto
termination
  by (relation "measure (\<lambda>(p, ch, f). length (rest f) + (case ch of None \<Rightarrow> 0 | Some _ \<Rightarrow> 1))")
     (auto simp: get_char_def split: list.splits)

declare skip_while.simps [simp del]

lemma skip_while_None [simp]: "skip_while p None f = (None, f)"
  by (simp add: skip_while.simps)

lemma skip_while_Some:
  "skip_while p (Some c) f =
     (if p c then (case get_char f of (ch', g) \<Rightarrow> skip_while p ch' g) else (Some c, f))"
  by (simp add: skip_while.simps)

definition skip_blanks :: "chr \<Rightarrow> istream \<Rightarrow> chr \<times> istream" where
  "skip_blanks = skip_while (\<lambda>c. c = TAB \<or> c = SP)"

definition skip_nonblanks :: "chr \<Rightarrow> istream \<Rightarrow> chr \<times> istream" where
  "skip_nonblanks = skip_while (\<lambda>c. c \<noteq> TAB \<and> c \<noteq> SP \<and> c \<noteq> NL)"

definition skip_line :: "chr \<Rightarrow> istream \<Rightarrow> chr \<times> istream" where
  "skip_line = skip_while (\<lambda>c. c \<noteq> NL)"

lemma skip_while_le: "length (rest (snd (skip_while p ch f))) \<le> length (rest f)"
proof (induction p ch f rule: skip_while.induct)
  case (1 p ch f)
  obtain ch' g where g: "get_char f = (ch', g)" by fastforce
  then have "length (rest g) \<le> length (rest f)"
    by (auto simp: get_char_def split: list.splits)
  with "1.IH"[OF _ _ g[symmetric]] g show ?case
    by (cases ch) (auto simp: skip_while_Some intro: order_trans)
qed

lemma skip_comments_dec:
  assumes "get_char f = (Some c, g)" and "skip_blanks (Some c) g = (ch, h)"
  shows "length (rest (snd (skip_line ch h))) < length (rest f)"
proof -
  have "length (rest (snd (skip_line ch h))) \<le> length (rest h)"
    by (simp add: skip_line_def skip_while_le)
  also have "\<dots> \<le> length (rest g)"
    using skip_while_le[of "\<lambda>c. c = TAB \<or> c = SP" "Some c" g] assms(2)
    by (simp add: skip_blanks_def)
  also have "\<dots> < length (rest f)" using assms(1) by (rule get_char_shorter)
  finally show ?thesis .
qed

function skip_comments :: "istream \<Rightarrow> istream" where
  "skip_comments f =
     (case get_char f of
        (None, g) \<Rightarrow> g
      | (Some c, g) \<Rightarrow>
          let (ch, h) = skip_blanks (Some c) g in
            if ch = None then h
            else if ch \<noteq> Some NL \<and> ch \<noteq> Some CHR ''#'' then unget_char ch h
            else skip_comments (snd (skip_line ch h)))"
  by pat_completeness auto
termination
  by (relation "measure (\<lambda>f. length (rest f))") (auto intro: skip_comments_dec[OF sym sym])

declare skip_comments.simps [simp del]

section \<open>The reader contract\<close>

fun newlines :: "string \<Rightarrow> int" where
  "newlines [] = 0"
| "newlines (c # s) = (if c = NL then 1 else 0) + newlines s"

text \<open>The number of the line after the last newline of the whole input.\<close>

definition last_line :: "istream \<Rightarrow> int" where
  "last_line f = LineNumber f + newlines (rest f)"

text \<open>\<open>reads f g\<close>: \<open>g\<close> is \<open>f\<close> after reading some prefix of its input, line count kept.\<close>

definition reads :: "istream \<Rightarrow> istream \<Rightarrow> bool" where
  "reads f g \<longleftrightarrow> suffix (rest g) (rest f) \<and> last_line g = last_line f"

lemma newlines_append: "newlines (a @ b) = newlines a + newlines b"
  by (induction a) auto

lemma newlines_nonneg: "0 \<le> newlines s"
  by (induction s) auto

lemma reads_refl [simp, intro]: "reads f f"
  by (simp add: reads_def)

lemma reads_trans [trans]: "reads f g \<Longrightarrow> reads g h \<Longrightarrow> reads f h"
  by (auto simp: reads_def intro: suffix_order.trans)

lemma reads_length: "reads f g \<Longrightarrow> length (rest g) \<le> length (rest f)"
  by (simp add: reads_def suffix_length_le)

lemma reads_prefix: "reads f g \<longleftrightarrow>
    (\<exists>p. rest f = p @ rest g \<and> LineNumber g = LineNumber f + newlines p)"
  by (auto simp: reads_def suffix_def last_line_def newlines_append)

locale reader =
  fixes op :: "istream \<Rightarrow> 'r \<times> istream"
  assumes op_reads: "reads f (snd (op f))"
begin

lemma op_line_exact:
  assumes "op f = (r, g)"
  shows "\<exists>p. rest f = p @ rest g \<and> LineNumber g = LineNumber f + newlines p"
  using op_reads[of f] assms by (simp add: reads_prefix)

lemma op_shrinks: "op f = (r, g) \<Longrightarrow> length (rest g) \<le> length (rest f)"
  using op_reads[of f] reads_length by force

text \<open>Any number of calls: the contract is closed under iteration.\<close>

lemma op_iterate: "reads f (((\<lambda>f. snd (op f)) ^^ n) f)"
  by (induction n) (auto intro: op_reads reads_trans)

lemma op_iterate_line_exact:
  "rest (((\<lambda>f. snd (op f)) ^^ n) f) = [] \<Longrightarrow>
     LineNumber (((\<lambda>f. snd (op f)) ^^ n) f) = LineNumber f + newlines (rest f)"
  using op_iterate[of f n] by (auto simp: reads_prefix)

end

section \<open>Properties\<close>

lemma get_char_reads: "reads f (snd (get_char f))"
  by (auto simp: get_char_def reads_def last_line_def suffix_Cons split: list.splits)

lemma get_char_reads_eq: "get_char f = (ch, g) \<Longrightarrow> reads f g"
  using get_char_reads[of f] by simp

text \<open>\<open>holding ch f\<close> is the stream before \<open>ch\<close> was read; a reader that got \<open>ch\<close> from its
  caller is judged from there.\<close>

definition holding :: "chr \<Rightarrow> istream \<Rightarrow> istream" where
  "holding ch f = unget_char ch f"

lemma holding_None [simp]: "holding None f = f"
  by (simp add: holding_def unget_char_def)

lemma rest_holding_Some [simp]: "rest (holding (Some c) f) = c # rest f"
  by (simp add: holding_def unget_char_def)

lemma holding_reads: "reads (holding ch f) f"
  by (cases ch) (auto simp: holding_def unget_char_def reads_def last_line_def suffix_Cons)

lemma get_char_holding:
  assumes "get_char f = (ch, g)"
  shows "reads f (holding ch g)"
  using assms
  by (auto simp: get_char_def holding_def unget_char_def reads_def last_line_def
      split: list.splits)

lemma unget_char_reads: "reads f (holding ch g) \<Longrightarrow> reads f (unget_char ch g)"
  by (simp add: holding_def)

lemma get_string_reads: "reads f (snd (snd (get_string sz f terms)))"
proof (induction sz f terms rule: get_string.induct)
  case (1 sz f terms)
  show ?case
  proof (cases "get_char f")
    case (Pair ch g)
    then have g: "reads f g" by (rule get_char_reads_eq)
    show ?thesis
    proof (cases ch)
      case None
      with Pair g show ?thesis by (simp add: get_string.simps[of sz f terms])
    next
      case (Some c)
      show ?thesis
        using Pair Some g "1.IH"(1)[OF Pair[symmetric] Some] "1.IH"(2)[OF Pair[symmetric] Some]
        by (auto simp: get_string.simps[of sz f terms] split: prod.splits
            intro: reads_trans)
    qed
  qed
qed

interpretation gs: reader "\<lambda>f. (\<lambda>(r, s, g). ((r, s), g)) (get_string sz f terms)"
  by unfold_locales (simp add: get_string_reads split_beta)

interpretation gc: reader get_char
  by unfold_locales (rule get_char_reads)

lemma get_string_length: "get_string sz f terms = (r, s, g) \<Longrightarrow> length s \<le> sz - 1"
proof (induction sz f terms arbitrary: r s g rule: get_string.induct)
  case (1 sz f terms)
  show ?case
  proof (cases "get_char f")
    case (Pair ch h)
    show ?thesis
    proof (cases ch)
      case None
      with Pair "1.prems" show ?thesis by (simp add: get_string.simps[of sz f terms])
    next
      case (Some c)
      show ?thesis
        using Pair Some "1.prems" "1.IH"(1)[OF Pair[symmetric] Some]
          "1.IH"(2)[OF Pair[symmetric] Some]
        by (fastforce simp: get_string.simps[of sz f terms] split: if_splits prod.splits)
    qed
  qed
qed

text \<open>What \<open>get_string\<close> returns: the input up to the first terminator, cut to the room.\<close>

lemma get_string_spec:
  assumes "get_string sz f terms = (r, s, g)"
  shows "s = take (sz - 1) (takeWhile (\<lambda>c. \<not> strchr terms c) (rest f))
     \<and> (case dropWhile (\<lambda>c. \<not> strchr terms c) (rest f) of
          [] \<Rightarrow> r = None \<and> rest g = [] \<and> at_eof g
        | c # cs \<Rightarrow> r = Some c \<and> rest g = cs)"
  using assms
proof (induction sz f terms arbitrary: r s g rule: get_string.induct)
  case (1 sz f terms)
  show ?case
  proof (cases "rest f")
    case Nil
    with "1.prems" show ?thesis
      by (auto simp: get_string.simps[of sz f terms] get_char_def)
  next
    case (Cons c cs)
    then obtain h where h: "get_char f = (Some c, h)" "rest h = cs"
      by (simp add: get_char_def)
    show ?thesis
    proof (cases "strchr terms c")
      case True
      with h Cons "1.prems" show ?thesis
        by (simp add: get_string.simps[of sz f terms])
    next
      case False
      show ?thesis
      proof (cases "1 < sz")
        case True
        then obtain s' where s': "get_string (sz - 1) h terms = (r, s', g)" "s = c # s'"
          using h False "1.prems"
          by (auto simp: get_string.simps[of sz f terms] split: prod.splits)
        obtain k where "sz - 1 = Suc k" using True by (cases "sz - 1") auto
        then show ?thesis
          using "1.IH"(1)[OF h(1)[symmetric] refl False True s'(1)] s'(2) h(2) Cons False
          by simp
      next
        case sz: False
        then have "get_string sz h terms = (r, s, g)"
          using h False "1.prems" by (simp add: get_string.simps[of sz f terms])
        then show ?thesis
          using "1.IH"(2)[OF h(1)[symmetric] refl False sz] h(2) Cons False sz by simp
      qed
    qed
  qed
qed

lemma get_string_no_nul: "get_string sz f terms = (r, s, g) \<Longrightarrow> no_nul s"
  by (drule get_string_spec)
     (auto simp: no_nul_def strchr_def dest!: in_set_takeD set_takeWhileD)

lemma skip_while_reads:
  "reads (holding ch f) (case skip_while p ch f of (ch', g) \<Rightarrow> holding ch' g)"
proof (induction p ch f rule: skip_while.induct)
  case (1 p ch f)
  obtain ch' g where g: "get_char f = (ch', g)" by fastforce
  then have r: "reads (holding ch f) (holding ch' g)"
    using get_char_holding holding_reads reads_trans by blast
  show ?case
    using "1.IH"[OF _ _ g[symmetric]] g r
    by (cases ch) (auto simp: skip_while_Some intro: reads_trans)
qed

lemma skip_while_reads_eq:
  "skip_while p ch f = (ch', g) \<Longrightarrow> reads (holding ch f) (holding ch' g)"
  using skip_while_reads[of ch f p] by simp

lemma skip_while_spec:
  assumes "skip_while p (Some c) f = (ch, g)"
  shows "rest (holding ch g) = dropWhile p (c # rest f)
     \<and> (ch = None \<longrightarrow> rest g = [] \<and> at_eof g)"
  using assms
proof (induction p "Some c" f arbitrary: c ch g rule: skip_while.induct)
  case (1 p f)
  obtain ch' h where h: "get_char f = (ch', h)" by fastforce
  show ?case
  proof (cases "p c")
    case False
    with "1.prems" show ?thesis by (auto simp: skip_while_Some[of p c f])
  next
    case True
    with h "1.prems" have nx: "skip_while p ch' h = (ch, g)"
      by (simp add: skip_while_Some[of p c f])
    show ?thesis
    proof (cases ch')
      case None
      with nx True h show ?thesis
        by (auto simp: get_char_def split: list.splits)
    next
      case (Some d)
      with h have "rest f = d # rest h" by (auto simp: get_char_def split: list.splits)
      with "1.hyps"[OF refl True, of d h] h nx Some True show ?thesis by simp
    qed
  qed
qed

text \<open>\<open>skip_comments\<close> drops blank lines, comment lines and leading blanks, and stops at the
  first character of an entry.\<close>

lemma skip_comments_reads: "reads f (skip_comments f)"
proof (induction f rule: skip_comments.induct)
  case (1 f)
  obtain ch g where g: "get_char f = (ch, g)" by fastforce
  show ?case
  proof (cases ch)
    case None
    with g show ?thesis
      using get_char_reads_eq[OF g] by (simp add: skip_comments.simps[of f])
  next
    case (Some c)
    obtain ch' h where h: "skip_blanks (Some c) g = (ch', h)" by fastforce
    have r: "reads f (holding ch' h)"
      using get_char_holding[OF g] skip_while_reads_eq[OF h[unfolded skip_blanks_def]] Some
      by (auto intro: reads_trans)
    have l: "reads (holding ch' h) (snd (skip_line ch' h))"
      using skip_while_reads[of ch' h "\<lambda>c. c \<noteq> NL"] holding_reads
      by (auto simp: skip_line_def split: prod.splits intro: reads_trans)
    note IH = "1.IH"[OF g[symmetric] Some h[symmetric]]
    show ?thesis
    proof (cases "ch' = None \<or> ch' \<noteq> Some NL \<and> ch' \<noteq> Some CHR ''#''")
      case True
      then show ?thesis
        using r g h Some unget_char_reads[OF r]
        by (auto simp: skip_comments.simps[of f])
    next
      case False
      then have "reads (snd (skip_line ch' h)) (skip_comments (snd (skip_line ch' h)))"
        using IH by blast
      then show ?thesis using False r l g h Some
        by (auto simp: skip_comments.simps[of f] intro: reads_trans)
    qed
  qed
qed

interpretation sc: reader "\<lambda>f. ((), skip_comments f)"
  by unfold_locales (simp add: skip_comments_reads)

lemma hd_dropWhile_notin:
  "(\<And>x. x \<in> A \<Longrightarrow> p x) \<Longrightarrow> dropWhile p xs = [] \<or> hd (dropWhile p xs) \<notin> A"
  using hd_dropWhile[of p xs] by blast

definition starts_entry :: "string \<Rightarrow> bool" where
  "starts_entry s \<longleftrightarrow> s = [] \<or> hd s \<notin> {SP, TAB, NL, CHR ''#''}"

lemma skip_comments_starts_entry: "starts_entry (rest (skip_comments f))"
proof (induction f rule: skip_comments.induct)
  case (1 f)
  obtain ch g where g: "get_char f = (ch, g)" by fastforce
  show ?case
  proof (cases ch)
    case None
    with g show ?thesis
      by (auto simp: skip_comments.simps[of f] starts_entry_def get_char_def split: list.splits)
  next
    case (Some c)
    obtain ch' h where h: "skip_blanks (Some c) g = (ch', h)" by fastforce
    have hold: "rest (holding ch' h) = dropWhile (\<lambda>c. c = TAB \<or> c = SP) (c # rest g)"
      using skip_while_spec[OF h[unfolded skip_blanks_def]] by blast
    have hnone: "ch' = None \<Longrightarrow> rest h = []"
      using skip_while_spec[OF h[unfolded skip_blanks_def]] by blast
    note IH = "1.IH"[OF g[symmetric] Some h[symmetric]]
    show ?thesis
    proof (cases "ch' = Some NL \<or> ch' = Some CHR ''#''")
      case True
      with g h Some have "skip_comments f = skip_comments (snd (skip_line ch' h))"
        by (auto simp: skip_comments.simps[of f])
      moreover have "starts_entry (rest (skip_comments (snd (skip_line ch' h))))"
        using IH True by blast
      ultimately show ?thesis by simp
    next
      case False
      with g h Some have eq: "skip_comments f = holding ch' h"
        by (auto simp: skip_comments.simps[of f] holding_def unget_char_def)
      have "rest (holding ch' h) = [] \<or> hd (rest (holding ch' h)) \<notin> {SP, TAB}"
        unfolding hold by (rule hd_dropWhile_notin) auto
      moreover have "rest (holding ch' h) = [] \<or> hd (rest (holding ch' h)) \<notin> {NL, CHR ''#''}"
        using False hnone by (cases ch') simp_all
      ultimately show ?thesis unfolding eq starts_entry_def by auto
    qed
  qed
qed

section \<open>Only the rest of the input matters\<close>

lemma get_char_cong:
  "rest f = rest g \<Longrightarrow> fst (get_char f) = fst (get_char g) \<and> rest (snd (get_char f)) = rest (snd (get_char g))"
  by (auto simp: get_char_def split: list.splits)

lemma skip_while_cong:
  "rest f = rest g \<Longrightarrow> fst (skip_while p ch f) = fst (skip_while p ch g)
     \<and> rest (snd (skip_while p ch f)) = rest (snd (skip_while p ch g))"
proof (induction p ch f arbitrary: g rule: skip_while.induct)
  case (1 p ch f)
  show ?case
  proof (cases "\<exists>c. ch = Some c \<and> p c")
    case False
    with "1.prems" show ?thesis by (cases ch) (auto simp: skip_while.simps)
  next
    case True
    then obtain c where c: "ch = Some c" "p c" by blast
    obtain a f1 where f1: "get_char f = (a, f1)" by fastforce
    obtain b g1 where g1: "get_char g = (b, g1)" by fastforce
    have "a = b" "rest f1 = rest g1" using get_char_cong[OF "1.prems"] f1 g1 by auto
    with "1.IH"[OF c f1[symmetric]] c f1 g1 show ?thesis by (simp add: skip_while_Some)
  qed
qed

lemma skip_comments_cong: "rest f = rest g \<Longrightarrow> rest (skip_comments f) = rest (skip_comments g)"
proof (induction f arbitrary: g rule: skip_comments.induct)
  case (1 f)
  obtain a f1 where f1: "get_char f = (a, f1)" by fastforce
  obtain b g1 where g1: "get_char g = (b, g1)" by fastforce
  have ab: "b = a" "rest f1 = rest g1" using get_char_cong[OF "1.prems"] f1 g1 by auto
  show ?case
  proof (cases a)
    case None
    with f1 g1 ab show ?thesis by (simp add: skip_comments.simps)
  next
    case (Some c)
    obtain x f2 where f2: "skip_blanks a f1 = (x, f2)" by fastforce
    obtain y g2 where g2: "skip_blanks a g1 = (y, g2)" by fastforce
    have xy: "y = x" "rest f2 = rest g2"
      using skip_while_cong[OF ab(2), of _ a] f2 g2 unfolding skip_blanks_def by (metis fst_conv snd_conv)+
    have l: "rest (snd (skip_line x f2)) = rest (snd (skip_line x g2))"
      using skip_while_cong[OF xy(2)] unfolding skip_line_def by blast
    show ?thesis
      using 1 Some f1 g1 f2 g2 ab xy l
      by (subst skip_comments.simps, subst (2) skip_comments.simps)
         (auto simp: unget_char_def split: option.splits)
  qed
qed

end
