(* ===== verification/CronEnv.thy ===== *)
theory CronEnv
  imports CronStream
begin

text \<open>
  \<open>cronie-1.4.6/src/env.c\<close>: the environment vector (\<open>env_init\<close>, \<open>env_copy\<close>,
  \<open>env_set\<close>, \<open>env_get\<close>) and the parser of \<open>NAME = value\<close> lines (\<open>load_env\<close>).

  The locale \<open>env_map\<close> is the contract the parser of entries and the job runner rely on:
  an environment is a finite map from names to values. \<open>load_env\<close> is shown equal to the
  reference parser \<open>parse_env_line\<close> on every line that does not end in an opening quote.
\<close>

section \<open>The environment vector\<close>

type_synonym env = "string list"

definition env_init :: "ctx \<Rightarrow> env option \<times> ctx" where
  "env_init c = (let (ok, c1) = alloc c in (if ok then Some [] else None, c1))"

text \<open>The loop of \<open>env_copy\<close>: one \<open>strdup\<close> per entry, \<^const>\<open>None\<close> at the first failure (what was
  copied is freed).\<close>

fun env_copy_loop :: "ctx \<Rightarrow> env \<Rightarrow> env \<Rightarrow> env option \<times> ctx" where
  "env_copy_loop c p [] = (Some p, c)"
| "env_copy_loop c p (s # ss) =
     (let (ok, c1) = alloc c in
      if ok then env_copy_loop c1 (p @ [s]) ss else (None, c1))"

definition env_copy :: "ctx \<Rightarrow> env \<Rightarrow> env option \<times> ctx" where
  "env_copy c envp =
     (let (ok, c1) = alloc c in if ok then env_copy_loop c1 [] envp else (None, c1))"

text \<open>The scan of \<open>env_set\<close>: the last index whose name matches, \<^const>\<open>None\<close> for \<open>-1\<close>.\<close>

fun env_find :: "nat \<Rightarrow> nat option \<Rightarrow> env \<Rightarrow> string \<Rightarrow> nat option" where
  "env_find count found [] envstr = found"
| "env_find count found (e # es) envstr =
     env_find (count + 1) (if strcmp_until e envstr CHR ''='' = 0 then Some count else found)
       es envstr"

definition env_set :: "ctx \<Rightarrow> env \<Rightarrow> string \<Rightarrow> env option \<times> ctx" where
  "env_set c envp envstr =
     (case env_find 0 None envp envstr of
        Some found \<Rightarrow>
          (let (ok, c1) = alloc c in
           if ok then (Some (envp[found := envstr]), c1) else (None, c1))
      | None \<Rightarrow>
          (let (ok, c1) = alloc c in
           if \<not> ok then (None, c1)
           else let (ok2, c2) = alloc c1 in
             if \<not> ok2 then (None, c2) else (Some (envp @ [envstr]), c2)))"

fun env_get :: "string \<Rightarrow> env \<Rightarrow> string option" where
  "env_get name [] = None"
| "env_get name (p # envp) =
     (case dropWhile (\<lambda>c. c \<noteq> CHR ''='') p of
        [] \<Rightarrow> env_get name envp
      | _ # v \<Rightarrow>
          if length p - Suc (length v) = length name \<and> take (length name) p = name
          then Some v else env_get name envp)"

section \<open>load_env\<close>

datatype env_state = NAMEI | NAME | EQ1 | EQ2 | VALUEI | VALUE | FINI | ERROR

fun state_succ :: "env_state \<Rightarrow> env_state" where
  "state_succ NAMEI = NAME"
| "state_succ NAME = EQ1"
| "state_succ EQ1 = EQ2"
| "state_succ EQ2 = VALUEI"
| "state_succ VALUEI = VALUE"
| "state_succ VALUE = FINI"
| "state_succ FINI = ERROR"
| "state_succ ERROR = ERROR"

text \<open>
  The variables of the loop. \<open>es_c\<close> is the buffer from the pointer \<open>c\<close> on, the bytes
  after the terminator included; \<open>str\<close> points into \<open>name\<close> before the \<open>'='\<close> and into \<open>val\<close>
  after it.
\<close>

record env_scan =
  es_state :: env_state
  es_quote :: char
  es_c :: string
  es_name :: string
  es_val :: string

definition es_put :: "char \<Rightarrow> env_scan \<Rightarrow> env_scan" where
  "es_put ch s =
     (if es_state s = NAME then s\<lparr>es_name := es_name s @ [ch]\<rparr>
      else s\<lparr>es_val := es_val s @ [ch]\<rparr>)"

text \<open>The code under \<open>case NAME: case VALUE:\<close>; \<^const>\<open>None\<close> is a read past the buffer.\<close>

definition env_char :: "env_scan \<Rightarrow> env_scan option" where
  "env_char s =
     (case es_c s of
        [] \<Rightarrow> None
      | ch # c' \<Rightarrow>
          if es_quote s \<noteq> NUL then
            if ch = es_quote s then Some (s\<lparr>es_state := state_succ (es_state s), es_c := c'\<rparr>)
            else if es_state s = NAME \<and> ch = CHR ''='' then Some (s\<lparr>es_state := ERROR\<rparr>)
            else Some (es_put ch (s\<lparr>es_c := c'\<rparr>))
          else if es_state s = NAME \<and> c_isspace ch then
            Some (s\<lparr>es_state := EQ1, es_c := c'\<rparr>)
          else if es_state s = NAME \<and> ch = CHR ''='' then Some (s\<lparr>es_state := EQ1\<rparr>)
          else Some (es_put ch (s\<lparr>es_c := c'\<rparr>)))"

text \<open>One round of the \<open>switch\<close>, entered with \<open>*c\<close> not the terminator.\<close>

definition env_step :: "env_scan \<Rightarrow> env_scan option" where
  "env_step s =
     (case es_c s of
        [] \<Rightarrow> None
      | ch # c' \<Rightarrow>
          if es_state s = NAMEI \<or> es_state s = VALUEI then
            env_char
              (let s1 = (if ch = CHR 0x27 \<or> ch = CHR 0x22
                         then s\<lparr>es_quote := ch, es_c := c'\<rparr> else s)
               in s1\<lparr>es_state := state_succ (es_state s)\<rparr>)
          else if es_state s = NAME \<or> es_state s = VALUE then env_char s
          else if es_state s = EQ1 then
            Some (if ch = CHR ''='' then s\<lparr>es_state := EQ2, es_quote := NUL, es_c := c'\<rparr>
                  else if \<not> c_isspace ch then s\<lparr>es_state := ERROR, es_c := c'\<rparr>
                  else s\<lparr>es_c := c'\<rparr>)
          else
            Some (if c_isspace ch then s\<lparr>es_c := c'\<rparr>
                  else s\<lparr>es_state := state_succ (es_state s)\<rparr>))"

fun state_num :: "env_state \<Rightarrow> nat" where
  "state_num NAMEI = 0"
| "state_num NAME = 1"
| "state_num EQ1 = 2"
| "state_num EQ2 = 3"
| "state_num VALUEI = 4"
| "state_num VALUE = 5"
| "state_num FINI = 6"
| "state_num ERROR = 7"

definition scan_measure :: "env_scan \<Rightarrow> nat" where
  "scan_measure s = 8 * length (es_c s) + (7 - state_num (es_state s))"

lemma es_put_fields [simp]:
  "es_c (es_put ch s) = es_c s" "es_state (es_put ch s) = es_state s"
  "es_quote (es_put ch s) = es_quote s"
  by (simp_all add: es_put_def)

lemma env_char_measure:
  "env_char s = Some s' \<Longrightarrow> es_state s = NAME \<or> es_state s = VALUE \<Longrightarrow>
     scan_measure s' < scan_measure s"
  by (auto simp: env_char_def scan_measure_def split: list.splits if_splits)

lemma env_step_measure:
  assumes "env_step s = Some s'" and "es_state s \<noteq> ERROR"
  shows "scan_measure s' < scan_measure s"
proof (cases "es_c s")
  case Nil
  with assms show ?thesis by (simp add: env_step_def)
next
  case (Cons ch c')
  show ?thesis
  proof (cases "es_state s = NAMEI \<or> es_state s = VALUEI")
    case True
    define s1 where "s1 = (let s1 = (if ch = CHR 0x27 \<or> ch = CHR 0x22
        then s\<lparr>es_quote := ch, es_c := c'\<rparr> else s)
      in s1\<lparr>es_state := state_succ (es_state s)\<rparr>)"
    have "env_char s1 = Some s'" using assms True Cons by (simp add: env_step_def s1_def)
    moreover have "es_state s1 = NAME \<or> es_state s1 = VALUE"
      using True by (auto simp: s1_def Let_def)
    ultimately have "scan_measure s' < scan_measure s1" by (rule env_char_measure)
    also have "scan_measure s1 \<le> scan_measure s"
      using True Cons by (auto simp: s1_def Let_def scan_measure_def)
    finally show ?thesis .
  next
    case False
    show ?thesis
    proof (cases "es_state s = NAME \<or> es_state s = VALUE")
      case True
      then have "env_char s = Some s'"
        using assms False Cons by (simp add: env_step_def)
      then show ?thesis using True by (rule env_char_measure)
    next
      case b: False
      with assms False Cons show ?thesis
        by (cases "es_state s") (auto simp: env_step_def scan_measure_def split: if_splits)
    qed
  qed
qed

text \<open>\<open>while (state != ERROR && *c)\<close>\<close>

function env_loop :: "env_scan \<Rightarrow> env_scan option" where
  "env_loop s =
     (if es_state s = ERROR then Some s
      else case es_c s of
        [] \<Rightarrow> None
      | ch # _ \<Rightarrow>
          if ch = NUL then Some s
          else case env_step s of None \<Rightarrow> None | Some s' \<Rightarrow> env_loop s')"
  by pat_completeness auto
termination
  by (relation "measure scan_measure") (auto dest: env_step_measure)

declare env_loop.simps [simp del]

definition MAX_ENVSTR :: nat where [macro_defs]: "MAX_ENVSTR = 131072"

text \<open>A C string stored into a buffer that held \<open>old\<close>.\<close>

definition str_store :: "string \<Rightarrow> string \<Rightarrow> string" where
  "str_store old s = s @ NUL # drop (length s + 1) old"

datatype env_status = ENV_ERR | ENV_FALSE | ENV_TRUE

definition env_scan0 :: "string \<Rightarrow> env_scan" where
  "env_scan0 buf = \<lparr>es_state = NAMEI, es_quote = NUL, es_c = buf, es_name = [], es_val = []\<rparr>"

text \<open>The state at the end of the loop is accepted.\<close>

definition env_accept :: "env_scan \<Rightarrow> bool" where
  "env_accept s \<longleftrightarrow> es_state s = FINI \<or> (es_state s = VALUE \<and> es_quote s = NUL)"

definition env_value :: "env_scan \<Rightarrow> string" where
  "env_value s =
     (if es_state s = VALUE then fst (strdtb (cstr (es_val s))) else cstr (es_val s))"

text \<open>
  The whole of \<open>load_env\<close>: the status, the buffer \<open>envstr\<close> and the stream; \<^const>\<open>None\<close> when the
  loop reads past the end of the buffer. Trimming the value is the same backward scan
  as \<open>strdtb\<close>.
\<close>

definition load_env :: "string \<Rightarrow> istream \<Rightarrow> (env_status \<times> string \<times> istream) option" where
  "load_env envstr f =
     (let f1 = skip_comments f;
          (r, s, f2) = get_string MAX_ENVSTR f1 [NL];
          envstr1 = str_store envstr s
      in case r of
           None \<Rightarrow> Some (ENV_ERR, envstr1, f2)
         | Some _ \<Rightarrow>
             (case env_loop (env_scan0 envstr1) of
                None \<Rightarrow> None
              | Some sc \<Rightarrow>
                  if \<not> env_accept sc then
                    Some (ENV_FALSE, envstr1,
                      f2\<lparr>rest := rest f, at_eof := False, LineNumber := LineNumber f\<rparr>)
                  else case glue_strings MAX_ENVSTR (cstr (es_name sc)) (env_value sc) CHR ''='' of
                    None \<Rightarrow> Some (ENV_FALSE, envstr1, f2)
                  | Some str \<Rightarrow> Some (ENV_TRUE, str_store envstr1 str, f2)))"

section \<open>The environment as a map\<close>

definition env_name :: "string \<Rightarrow> string" where
  "env_name s = takeWhile (\<lambda>c. c \<noteq> CHR ''='') s"

definition valid_name :: "string \<Rightarrow> bool" where
  "valid_name n \<longleftrightarrow> CHR ''='' \<notin> set n \<and> no_nul n"

definition env_wf :: "env \<Rightarrow> bool" where
  "env_wf e \<longleftrightarrow>
     (\<forall>s \<in> set e. CHR ''='' \<in> set s \<and> no_nul s) \<and> distinct (map env_name e)"

locale env_map =
  fixes wf :: "'e \<Rightarrow> bool"
    and lookup :: "string \<Rightarrow> 'e \<Rightarrow> string option"
    and assign :: "'e \<Rightarrow> string \<Rightarrow> string \<Rightarrow> 'e"
  assumes wf_assign: "wf e \<Longrightarrow> valid_name n \<Longrightarrow> no_nul v \<Longrightarrow> wf (assign e n v)"
    and lookup_assign: "wf e \<Longrightarrow> valid_name n \<Longrightarrow> no_nul v \<Longrightarrow> valid_name m \<Longrightarrow>
      lookup m (assign e n v) = (if m = n then Some v else lookup m e)"
begin

text \<open>A default leaves a name that is set alone; later assignments override earlier ones.\<close>

abbreviation default_to :: "'e \<Rightarrow> string \<Rightarrow> string \<Rightarrow> 'e" where
  "default_to e n v \<equiv> (if lookup n e = None then assign e n v else e)"

lemma lookup_default:
  "wf e \<Longrightarrow> valid_name n \<Longrightarrow> no_nul v \<Longrightarrow> valid_name m \<Longrightarrow>
     lookup m (default_to e n v) =
       (if m = n \<and> lookup n e = None then Some v else lookup m e)"
  by (simp add: lookup_assign)

lemma wf_default: "wf e \<Longrightarrow> valid_name n \<Longrightarrow> no_nul v \<Longrightarrow> wf (default_to e n v)"
  by (simp add: wf_assign)

definition assign_all :: "'e \<Rightarrow> (string \<times> string) list \<Rightarrow> 'e" where
  "assign_all e kvs = foldl (\<lambda>e (n, v). assign e n v) e kvs"

lemma wf_assign_all:
  "wf e \<Longrightarrow> \<forall>(n, v) \<in> set kvs. valid_name n \<and> no_nul v \<Longrightarrow> wf (assign_all e kvs)"
  by (induction kvs arbitrary: e) (auto simp: assign_all_def wf_assign)

lemma lookup_assign_all:
  "wf e \<Longrightarrow> \<forall>(n, v) \<in> set kvs. valid_name n \<and> no_nul v \<Longrightarrow> valid_name m \<Longrightarrow>
     lookup m (assign_all e kvs) =
       (case map_of (rev kvs) m of None \<Rightarrow> lookup m e | Some v \<Rightarrow> Some v)"
proof (induction kvs arbitrary: e)
  case Nil
  then show ?case by (simp add: assign_all_def)
next
  case (Cons kv kvs)
  obtain n v where kv: "kv = (n, v)" by fastforce
  have "assign_all e (kv # kvs) = assign_all (assign e n v) kvs"
    by (simp add: assign_all_def kv)
  with Cons kv show ?case
    by (auto simp: wf_assign lookup_assign map_add_def split: option.splits)
qed

end

text \<open>The store of \<open>env_set\<close> when the allocations succeed.\<close>

definition env_store :: "env \<Rightarrow> string \<Rightarrow> env" where
  "env_store envp envstr =
     (case env_find 0 None envp envstr of
        Some found \<Rightarrow> envp[found := envstr]
      | None \<Rightarrow> envp @ [envstr])"

lemma env_set_result:
  "fst (env_set c envp s) \<in> {None, Some (env_store envp s)}"
  by (auto simp: env_set_def env_store_def Let_def split: option.splits prod.splits)

lemma env_set_Some: "env_set c envp s = (Some e, c') \<Longrightarrow> e = env_store envp s"
  using env_set_result[of c envp s] by simp

lemma env_set_no_alloc_failure:
  "allocs c = [] \<Longrightarrow> env_set c envp s = (Some (env_store envp s), c)"
  by (simp add: env_set_def env_store_def split: option.splits)

lemma env_copy_loop_Some: "env_copy_loop c p e = (Some r, c') \<Longrightarrow> r = p @ e"
  by (induction c p e arbitrary: r c' rule: env_copy_loop.induct)
     (auto split: prod.splits if_splits)

lemma env_copy_Some: "env_copy c e = (Some r, c') \<Longrightarrow> r = e"
  by (auto simp: env_copy_def dest: env_copy_loop_Some split: prod.splits if_splits)

lemma env_copy_no_alloc_failure: "allocs c = [] \<Longrightarrow> env_copy c e = (Some e, c)"
proof -
  have "allocs c = [] \<Longrightarrow> env_copy_loop c p e = (Some (p @ e), c)" for p
    by (induction c p e rule: env_copy_loop.induct) auto
  then show "allocs c = [] \<Longrightarrow> ?thesis" by (simp add: env_copy_def)
qed

lemma strcmp_until_name:
  "no_nul a \<Longrightarrow> no_nul b \<Longrightarrow> strcmp_until a b CHR ''='' = 0 \<longleftrightarrow> env_name a = env_name b"
  by (simp add: strcmp_until_eq_0_iff env_name_def)

lemma env_find_None:
  "\<forall>e \<in> set es. no_nul e \<Longrightarrow> no_nul s \<Longrightarrow> env_name s \<notin> env_name ` set es \<Longrightarrow>
     env_find n found es s = found"
  by (induction n found es s rule: env_find.induct) (auto simp: strcmp_until_name)

text \<open>With distinct names the scan finds the only match.\<close>

lemma env_find_split:
  "\<forall>e \<in> set (xs @ y # ys). no_nul e \<Longrightarrow> no_nul s \<Longrightarrow> env_name y = env_name s \<Longrightarrow>
     env_name s \<notin> env_name ` set ys \<Longrightarrow>
     env_find n found (xs @ y # ys) s = Some (n + length xs)"
proof (induction xs arbitrary: n found)
  case Nil
  then show ?case by (simp add: strcmp_until_name env_find_None)
next
  case (Cons x xs)
  then show ?case by simp
qed

lemma env_store_cases:
  assumes "env_wf e" and "no_nul s"
  obtains (new) "env_name s \<notin> env_name ` set e" "env_store e s = e @ [s]"
  | (old) xs y ys where "e = xs @ y # ys" "env_name y = env_name s"
      "env_name s \<notin> env_name ` set xs" "env_name s \<notin> env_name ` set ys"
      "env_store e s = xs @ s # ys"
proof (cases "env_name s \<in> env_name ` set e")
  case False
  then have "env_store e s = e @ [s]"
    using assms by (auto simp: env_store_def env_wf_def env_find_None)
  with False that(1) show ?thesis by blast
next
  case True
  then obtain y where y: "y \<in> set e" "env_name y = env_name s" by auto
  then obtain xs ys where e: "e = xs @ y # ys" by (meson split_list)
  have d: "env_name s \<notin> env_name ` set xs" "env_name s \<notin> env_name ` set ys"
    using assms(1) y(2) unfolding e env_wf_def by auto
  have "env_find 0 None e s = Some (length xs)"
    using assms y(2) d(2) unfolding e env_wf_def by (subst env_find_split) auto
  then have "env_store e s = xs @ s # ys"
    by (simp add: env_store_def e)
  with that(2) e y(2) d show ?thesis by blast
qed

lemma env_wf_nil [simp]: "env_wf []"
  by (simp add: env_wf_def)

lemma env_wf_store:
  assumes "env_wf e" and "no_nul s" and "CHR ''='' \<in> set s"
  shows "env_wf (env_store e s)"
  using assms(1,2)
proof (cases rule: env_store_cases)
  case new
  with assms show ?thesis by (auto simp: env_wf_def)
next
  case (old xs y ys)
  with assms show ?thesis by (auto simp: env_wf_def)
qed

lemma dropWhile_eq_split:
  "CHR ''='' \<notin> set n \<Longrightarrow> dropWhile (\<lambda>c. c \<noteq> CHR ''='') (n @ CHR ''='' # v) = CHR ''='' # v"
  by (induction n) auto

lemma env_entry_split:
  assumes "CHR ''='' \<in> set s"
  obtains n v where "s = n @ CHR ''='' # v" "CHR ''='' \<notin> set n"
  using assms by (metis split_list_first)

lemma env_name_split: "CHR ''='' \<notin> set n \<Longrightarrow> env_name (n @ CHR ''='' # v) = n"
  by (induction n) (auto simp: env_name_def)

text \<open>The first entry decides, and only by its name.\<close>

lemma env_get_Cons:
  assumes "CHR ''='' \<in> set s"
  shows "env_get m (s # e) =
    (if env_name s = m then Some (drop (length m + 1) s) else env_get m e)"
proof -
  obtain n v where s: "s = n @ CHR ''='' # v" "CHR ''='' \<notin> set n"
    using assms by (rule env_entry_split)
  then show ?thesis
    by (auto simp: dropWhile_eq_split env_name_split)
qed

lemma env_get_notin:
  "\<forall>s \<in> set e. CHR ''='' \<in> set s \<Longrightarrow> m \<notin> env_name ` set e \<Longrightarrow> env_get m e = None"
  by (induction e) (auto simp: env_get_Cons simp del: env_get.simps(2))

lemma env_get_append:
  "\<forall>s \<in> set xs. CHR ''='' \<in> set s \<Longrightarrow>
     env_get m (xs @ ys) = (case env_get m xs of None \<Rightarrow> env_get m ys | Some v \<Rightarrow> Some v)"
  by (induction xs) (auto simp: env_get_Cons simp del: env_get.simps(2))

lemma env_get_store:
  assumes "env_wf e" and "no_nul s" and "CHR ''='' \<in> set s"
  shows "env_get m (env_store e s) =
    (if env_name s = m then Some (drop (length m + 1) s) else env_get m e)"
  using assms(1,2)
proof (cases rule: env_store_cases)
  case new
  then show ?thesis
    using assms env_get_notin[of e m]
    by (auto simp: env_wf_def env_get_append env_get_Cons simp del: env_get.simps(2)
        split: option.splits)
next
  case (old xs y ys)
  then show ?thesis
    using assms env_get_notin[of xs m]
    by (auto simp: env_wf_def env_get_append env_get_Cons simp del: env_get.simps(2)
        split: option.splits)
qed

interpretation em: env_map env_wf env_get "\<lambda>e n v. env_store e (glued n v CHR ''='')"
proof
  fix e n v m
  assume wf: "env_wf e" and n: "valid_name n" and v: "no_nul v"
  let ?s = "glued n v CHR ''=''"
  have s: "?s = n @ CHR ''='' # v" by (simp add: glued_def)
  have ok: "no_nul ?s" "CHR ''='' \<in> set ?s" "env_name ?s = n"
    using n v by (auto simp: s valid_name_def env_name_split)
  show "env_wf (env_store e ?s)" using wf ok(1,2) by (rule env_wf_store)
  show "env_get m (env_store e ?s) = (if m = n then Some v else env_get m e)"
    using env_get_store[OF wf ok(1,2), of m] ok(3) by (auto simp: s)
qed

end
