(* ===== verification/CronEnvParse.thy ===== *)
theory CronEnvParse
  imports CronEnv
begin

text \<open>
  What \<open>load_env\<close> accepts. \<open>parse_env_line\<close> reads a line the way the manual page
  describes it (name and value, each optionally quoted, blanks around the \<open>'='\<close>); the
  state machine of \<open>load_env\<close> computes the same on every \<open>settled\<close> line, and on the
  other lines (an opening quote is the last character) it reads the bytes behind the
  terminator.
\<close>

declare dropWhile_eq_Nil_conv [simp del]

section \<open>The reference parser\<close>

definition is_quote :: "char \<Rightarrow> bool" where
  "is_quote c \<longleftrightarrow> c = CHR 0x27 \<or> c = CHR 0x22"

definition parse_quoted :: "string \<Rightarrow> (string \<times> string) option" where
  "parse_quoted s =
     (case s of
        [] \<Rightarrow> None
      | q # t \<Rightarrow>
          (case dropWhile (\<lambda>c. c \<noteq> q) t of
             [] \<Rightarrow> None
           | _ # r \<Rightarrow> Some (takeWhile (\<lambda>c. c \<noteq> q) t, r)))"

definition name_char :: "char \<Rightarrow> bool" where
  "name_char c \<longleftrightarrow> \<not> c_isspace c \<and> c \<noteq> CHR ''=''"

definition parse_name :: "string \<Rightarrow> (string \<times> string) option" where
  "parse_name s =
     (if s \<noteq> [] \<and> is_quote (hd s) then
        (case parse_quoted s of
           None \<Rightarrow> None
         | Some (n, r) \<Rightarrow> if CHR ''='' \<in> set n then None else Some (n, r))
      else Some (takeWhile name_char s, dropWhile name_char s))"

definition parse_eq :: "string \<Rightarrow> string option" where
  "parse_eq s =
     (case dropWhile c_isspace s of
        [] \<Rightarrow> None
      | c # r \<Rightarrow> if c = CHR ''='' then Some (dropWhile c_isspace r) else None)"

definition parse_value :: "string \<Rightarrow> string option" where
  "parse_value s =
     (if s = [] then None
      else if is_quote (hd s) then
        (case parse_quoted s of
           None \<Rightarrow> None
         | Some (v, r) \<Rightarrow> if list_all c_isspace r then Some v else None)
      else Some (rev (dropWhile c_isspace (rev s))))"

definition parse_env_line :: "string \<Rightarrow> (string \<times> string) option" where
  "parse_env_line s =
     (case parse_name s of
        None \<Rightarrow> None
      | Some (n, r) \<Rightarrow>
          (case parse_eq r of
             None \<Rightarrow> None
           | Some w \<Rightarrow> (case parse_value w of None \<Rightarrow> None | Some v \<Rightarrow> Some (n, v))))"

text \<open>The line does not end in an opening quote.\<close>

definition settled :: "string \<Rightarrow> bool" where
  "settled s \<longleftrightarrow>
     \<not> (length s = 1 \<and> is_quote (hd s)) \<and>
     (case parse_name s of
        None \<Rightarrow> True
      | Some (n, r) \<Rightarrow>
          (case parse_eq r of
             None \<Rightarrow> True
           | Some w \<Rightarrow> \<not> (length w = 1 \<and> is_quote (hd w))))"

section \<open>The state machine, phase by phase\<close>

abbreviation scan :: "env_state \<Rightarrow> char \<Rightarrow> string \<Rightarrow> string \<Rightarrow> string \<Rightarrow> env_scan" where
  "scan st q c n v \<equiv>
     \<lparr>es_state = st, es_quote = q, es_c = c, es_name = n, es_val = v\<rparr>"

lemma env_loop_NUL [simp]: "env_loop (scan st q (NUL # j) n v) = Some (scan st q (NUL # j) n v)"
  by (simp add: env_loop.simps)

lemma env_loop_ERROR [simp]: "env_loop (scan ERROR q c n v) = Some (scan ERROR q c n v)"
  by (simp add: env_loop.simps)

lemma env_loop_step:
  "st \<noteq> ERROR \<Longrightarrow> ch \<noteq> NUL \<Longrightarrow>
     env_loop (scan st q (ch # c) n v) =
       (case env_step (scan st q (ch # c) n v) of None \<Rightarrow> None | Some s \<Rightarrow> env_loop s)"
  by (simp add: env_loop.simps[of "scan st q (ch # c) n v"])

lemma env_step_NAME:
  "env_step (scan NAME q c n v) = env_char (scan NAME q c n v)"
  "env_step (scan VALUE q c n v) = env_char (scan VALUE q c n v)"
  by (auto simp: env_step_def env_char_def split: list.splits)

lemma loop_fini:
  "no_nul s \<Longrightarrow>
     env_loop (scan FINI q (s @ NUL # j) n v) =
       Some (if list_all c_isspace s then scan FINI q (NUL # j) n v
             else scan ERROR q (dropWhile c_isspace s @ NUL # j) n v)"
proof (induction s)
  case (Cons ch s)
  then show ?case by (simp add: env_loop_step env_step_def)
qed simp

lemma loop_value_quoted:
  assumes "no_nul s" and "q \<noteq> NUL"
  shows "env_loop (scan VALUE q (s @ NUL # j) n v) =
    (case dropWhile (\<lambda>c. c \<noteq> q) s of
       [] \<Rightarrow> Some (scan VALUE q (NUL # j) n (v @ s))
     | _ # r \<Rightarrow> env_loop (scan FINI q (r @ NUL # j) n (v @ takeWhile (\<lambda>c. c \<noteq> q) s)))"
  using assms
proof (induction s arbitrary: v)
  case (Cons ch s)
  then show ?case
    by (auto simp: env_loop_step env_step_NAME env_char_def es_put_def split: list.splits)
qed simp

lemma loop_value_plain:
  "no_nul s \<Longrightarrow>
     env_loop (scan VALUE NUL (s @ NUL # j) n v) = Some (scan VALUE NUL (NUL # j) n (v @ s))"
proof (induction s arbitrary: v)
  case (Cons ch s)
  then show ?case
    by (simp add: env_loop_step env_step_NAME env_char_def es_put_def)
qed simp

lemma loop_name_quoted:
  assumes "no_nul s" and "q \<noteq> NUL" and "q \<noteq> CHR ''=''"
  shows "env_loop (scan NAME q (s @ NUL # j) n v) =
    (let a = takeWhile (\<lambda>c. c \<noteq> q) s in
     if CHR ''='' \<in> set a
     then Some (scan ERROR q (dropWhile (\<lambda>c. c \<noteq> CHR ''='') s @ NUL # j)
                  (n @ takeWhile (\<lambda>c. c \<noteq> CHR ''='') s) v)
     else case dropWhile (\<lambda>c. c \<noteq> q) s of
       [] \<Rightarrow> Some (scan NAME q (NUL # j) (n @ s) v)
     | _ # r \<Rightarrow> env_loop (scan EQ1 q (r @ NUL # j) (n @ a) v))"
  using assms
proof (induction s arbitrary: n)
  case (Cons ch s)
  then show ?case
    by (auto simp: env_loop_step env_step_NAME env_char_def es_put_def Let_def
        split: list.splits)
qed simp

lemma loop_eq1:
  assumes "no_nul s"
  shows "env_loop (scan EQ1 q (s @ NUL # j) n v) =
    (case dropWhile c_isspace s of
       [] \<Rightarrow> Some (scan EQ1 q (NUL # j) n v)
     | c # r \<Rightarrow>
         if c = CHR ''='' then env_loop (scan EQ2 NUL (r @ NUL # j) n v)
         else Some (scan ERROR q (r @ NUL # j) n v))"
  using assms
proof (induction s)
  case (Cons ch s)
  have "\<not> c_isspace CHR ''=''" by (simp add: ctype_simps ord_char_def)
  with Cons show ?case by (auto simp: env_loop_step env_step_def)
qed simp

lemma loop_eq2:
  assumes "no_nul s"
  shows "env_loop (scan EQ2 q (s @ NUL # j) n v) =
    (case dropWhile c_isspace s of
       [] \<Rightarrow> Some (scan EQ2 q (NUL # j) n v)
     | c # r \<Rightarrow> env_loop (scan VALUEI q (c # r @ NUL # j) n v))"
  using assms
proof (induction s)
  case (Cons ch s)
  then show ?case by (auto simp: env_loop_step env_step_def)
qed simp

lemma ctype_eq: "\<not> c_isspace CHR ''=''"
  by (simp add: ctype_simps ord_char_def)

text \<open>An unquoted name: up to the first blank or \<open>'='\<close>; then the \<open>EQ1\<close> phase.\<close>

lemma loop_name_plain:
  assumes "no_nul s"
  shows "env_loop (scan NAME NUL (s @ NUL # j) n v) =
    (if dropWhile name_char s = []
     then Some (scan NAME NUL (NUL # j) (n @ s) v)
     else env_loop (scan EQ1 NUL (dropWhile name_char s @ NUL # j)
            (n @ takeWhile name_char s) v))"
  using assms
proof (induction s arbitrary: n)
  case (Cons ch s)
  show ?case
  proof (cases "c_isspace ch")
    case True
    have "env_loop (scan NAME NUL ((ch # s) @ NUL # j) n v) =
        env_loop (scan EQ1 NUL (s @ NUL # j) n v)"
      using True Cons.prems by (simp add: env_loop_step env_step_NAME env_char_def)
    also have "\<dots> = env_loop (scan EQ1 NUL ((ch # s) @ NUL # j) n v)"
      using True Cons.prems ctype_eq by (auto simp: env_loop_step env_step_def)
    finally show ?thesis using True by (simp add: name_char_def[of ch])
  next
    case False
    with Cons show ?thesis
      by (auto simp: env_loop_step env_step_NAME env_char_def es_put_def name_char_def[of ch])
  qed
qed simp

lemma quote_chars: "is_quote q \<Longrightarrow> q \<noteq> NUL \<and> q \<noteq> CHR ''=''"
  by (auto simp: is_quote_def)

text \<open>From \<open>VALUEI\<close>: a first character that is a quote is consumed, and the next one is
  processed in the same round.\<close>

lemma loop_valuei_quoted:
  assumes "is_quote q" and "no_nul (c # s)"
  shows "env_loop (scan VALUEI Q (q # c # s @ NUL # j) n v) =
    env_loop (scan VALUE q (c # s @ NUL # j) n v)"
proof -
  have "env_step (scan VALUEI Q (q # c # s @ NUL # j) n v) =
      env_char (scan VALUE q (c # s @ NUL # j) n v)"
    using assms(1) by (simp add: env_step_def is_quote_def)
  moreover have "env_step (scan VALUE q (c # s @ NUL # j) n v) =
      env_char (scan VALUE q (c # s @ NUL # j) n v)"
    by (simp add: env_step_NAME)
  ultimately show ?thesis
    using assms quote_chars[OF assms(1)] by (simp add: env_loop_step)
qed

lemma loop_valuei_plain:
  assumes "\<not> is_quote c" and "no_nul (c # s)"
  shows "env_loop (scan VALUEI Q (c # s @ NUL # j) n v) =
    env_loop (scan VALUE Q (c # s @ NUL # j) n v)"
proof -
  have "env_step (scan VALUEI Q (c # s @ NUL # j) n v) =
      env_step (scan VALUE Q (c # s @ NUL # j) n v)"
    using assms(1) by (simp add: env_step_def is_quote_def)
  then show ?thesis using assms by (simp add: env_loop_step)
qed

lemma loop_namei_quoted:
  assumes "is_quote q" and "no_nul (c # s)"
  shows "env_loop (scan NAMEI Q (q # c # s @ NUL # j) n v) =
    env_loop (scan NAME q (c # s @ NUL # j) n v)"
proof -
  have "env_step (scan NAMEI Q (q # c # s @ NUL # j) n v) =
      env_step (scan NAME q (c # s @ NUL # j) n v)"
    using assms(1) by (simp add: env_step_def is_quote_def)
  then show ?thesis
    using assms quote_chars[OF assms(1)] by (simp add: env_loop_step)
qed

lemma loop_namei_plain:
  assumes "\<not> is_quote c" and "no_nul (c # s)"
  shows "env_loop (scan NAMEI Q (c # s @ NUL # j) n v) =
    env_loop (scan NAME Q (c # s @ NUL # j) n v)"
proof -
  have "env_step (scan NAMEI Q (c # s @ NUL # j) n v) =
      env_step (scan NAME Q (c # s @ NUL # j) n v)"
    using assms(1) by (simp add: env_step_def is_quote_def)
  then show ?thesis using assms by (simp add: env_loop_step)
qed

section \<open>Equivalence with the reference parser\<close>

text \<open>The outcome of the loop from a state against an expected result.\<close>

definition scans_to :: "env_scan \<Rightarrow> (string \<times> string) option \<Rightarrow> bool" where
  "scans_to s0 r \<longleftrightarrow>
     (\<exists>sc. env_loop s0 = Some sc \<and>
        (case r of
           None \<Rightarrow> \<not> env_accept sc
         | Some (n, v) \<Rightarrow> env_accept sc \<and> cstr (es_name sc) = n \<and> env_value sc = v))"

lemma no_nul_take_drop:
  "no_nul s \<Longrightarrow> no_nul (takeWhile p s)" "no_nul s \<Longrightarrow> no_nul (dropWhile p s)"
  by (auto simp: no_nul_def dest: set_takeWhileD set_dropWhileD)

lemma value_phase:
  assumes "no_nul w" and "w \<noteq> []" and "\<not> (length w = 1 \<and> is_quote (hd w))" and "no_nul n"
  shows "scans_to (scan VALUEI NUL (w @ NUL # j) n [])
    (map_option (\<lambda>v. (n, v)) (parse_value w))"
proof -
  obtain c t where w: "w = c # t" using assms(2) by (cases w) auto
  show ?thesis
  proof (cases "is_quote c")
    case True
    with assms(3) w obtain d u where t: "t = d # u" by (cases t) auto
    have nn: "no_nul t" using assms(1) w by simp
    have loop: "env_loop (scan VALUEI NUL (w @ NUL # j) n []) =
        env_loop (scan VALUE c (t @ NUL # j) n [])"
      using loop_valuei_quoted[OF True, of d u NUL j n "[]"] nn by (simp add: w t)
    show ?thesis
    proof (cases "dropWhile (\<lambda>x. x \<noteq> c) t")
      case Nil
      then show ?thesis
        using loop loop_value_quoted[OF nn, of c j n "[]"] quote_chars[OF True] True
        by (simp add: scans_to_def env_accept_def parse_value_def parse_quoted_def w)
    next
      case (Cons x r)
      have "no_nul r"
        using no_nul_take_drop(2)[OF nn, of "\<lambda>x. x \<noteq> c"] Cons by simp
      then show ?thesis
        using Cons loop loop_value_quoted[OF nn, of c j n "[]"] quote_chars[OF True] True
          no_nul_take_drop(1)[OF nn, of "\<lambda>x. x \<noteq> c"] assms(4)
        by (simp add: scans_to_def env_accept_def env_value_def parse_value_def
            parse_quoted_def w loop_fini cstr_id)
    qed
  next
    case False
    have "env_loop (scan VALUEI NUL (w @ NUL # j) n []) = Some (scan VALUE NUL (NUL # j) n w)"
      using loop_valuei_plain[OF False, of t NUL j n "[]"]
        loop_value_plain[OF assms(1), of j n "[]"] assms(1)
      by (simp add: w)
    then show ?thesis
      using False assms(1,4)
      by (simp add: scans_to_def env_accept_def env_value_def parse_value_def w cstr_id
          strdtb_spec Let_def del: dropWhile.simps rev.simps)
  qed
qed

lemma eq_phase:
  assumes "no_nul r" and "no_nul n"
    and "\<And>w. parse_eq r = Some w \<Longrightarrow> \<not> (length w = 1 \<and> is_quote (hd w))"
  shows "scans_to (scan EQ1 q (r @ NUL # j) n [])
    (case parse_eq r of
       None \<Rightarrow> None
     | Some w \<Rightarrow> map_option (\<lambda>v. (n, v)) (parse_value w))"
proof (cases "dropWhile c_isspace r")
  case Nil
  then show ?thesis
    using loop_eq1[OF assms(1), of q j n "[]"]
    by (simp add: scans_to_def parse_eq_def env_accept_def)
next
  case (Cons c u)
  have u: "no_nul u" using no_nul_take_drop(2)[OF assms(1), of c_isspace] Cons by simp
  show ?thesis
  proof (cases "c = CHR ''=''")
    case False
    with Cons show ?thesis
      using loop_eq1[OF assms(1), of q j n "[]"]
      by (simp add: scans_to_def parse_eq_def env_accept_def)
  next
    case True
    let ?w = "dropWhile c_isspace u"
    have eq: "parse_eq r = Some ?w" using Cons True by (simp add: parse_eq_def)
    show ?thesis
    proof (cases "?w = []")
      case w: True
      with Cons True u show ?thesis
        using loop_eq1[OF assms(1), of q j n "[]"] loop_eq2[OF u, of NUL j n "[]"]
        by (simp add: scans_to_def eq parse_value_def env_accept_def)
    next
      case w: False
      have "env_loop (scan EQ1 q (r @ NUL # j) n []) =
          env_loop (scan VALUEI NUL (?w @ NUL # j) n [])"
        using Cons True w loop_eq1[OF assms(1), of q j n "[]"] loop_eq2[OF u, of NUL j n "[]"]
        by (auto split: list.splits)
      moreover have "scans_to (scan VALUEI NUL (?w @ NUL # j) n [])
          (map_option (\<lambda>v. (n, v)) (parse_value ?w))"
        using value_phase[of ?w n j] no_nul_take_drop(2)[OF u] w assms(2) assms(3)[OF eq]
        by blast
      ultimately show ?thesis by (simp add: scans_to_def eq)
    qed
  qed
qed

lemma parse_env_line_alt:
  "parse_env_line s =
     (case parse_name s of
        None \<Rightarrow> None
      | Some (n, r) \<Rightarrow>
          (case parse_eq r of
             None \<Rightarrow> None
           | Some w \<Rightarrow> map_option (\<lambda>v. (n, v)) (parse_value w)))"
  by (simp add: parse_env_line_def map_option_case split: option.splits)

text \<open>A line whose name is quoted, and one whose name is not.\<close>

lemma env_quoted_parses:
  assumes nn: "no_nul (c # t)" and t: "t \<noteq> []" and q: "is_quote c"
    and eqok: "\<And>n r w. parse_name (c # t) = Some (n, r) \<Longrightarrow> parse_eq r = Some w \<Longrightarrow> \<not> (length w = 1 \<and> is_quote (hd w))"
  shows "scans_to (env_scan0 ((c # t) @ NUL # j)) (parse_env_line (c # t))"
proof -
  have nt: "no_nul t" using nn by simp
  have loop: "env_loop (env_scan0 ((c # t) @ NUL # j)) = env_loop (scan NAME c (t @ NUL # j) [] [])"
    using loop_namei_quoted[OF q, of "hd t" "tl t" NUL j "[]" "[]"] nt t by (cases t) (simp_all add: env_scan0_def)
  note lq = loop_name_quoted[OF nt, of c j "[]" "[]"] quote_chars[OF q]
  let ?a = "takeWhile (\<lambda>x. x \<noteq> c) t"
  show ?thesis
  proof (cases "dropWhile (\<lambda>x. x \<noteq> c) t = [] \<or> CHR ''='' \<in> set ?a")
    case True
    then show ?thesis
      using loop lq q
      by (auto simp: scans_to_def env_accept_def parse_env_line_def parse_name_def parse_quoted_def Let_def split: list.splits)
  next
    case False
    then obtain x r where r: "dropWhile (\<lambda>x. x \<noteq> c) t = x # r" by (meson neq_Nil_conv)
    have pn: "parse_name (c # t) = Some (?a, r)" using q False r by (simp add: parse_name_def parse_quoted_def)
    have "env_loop (env_scan0 ((c # t) @ NUL # j)) = env_loop (scan EQ1 c (r @ NUL # j) ?a [])"
      using loop lq False r by (simp add: Let_def)
    moreover have "no_nul r" using no_nul_take_drop(2)[OF nt, of "\<lambda>x. x \<noteq> c"] r by simp
    ultimately show ?thesis
      using eq_phase[of r ?a c j] no_nul_take_drop(1)[OF nt] eqok[OF pn] by (simp add: scans_to_def parse_env_line_alt pn)
  qed
qed

lemma env_plain_parses:
  assumes nn: "no_nul s" and s: "s \<noteq> []" and q: "\<not> is_quote (hd s)"
    and eqok: "\<And>n r w. parse_name s = Some (n, r) \<Longrightarrow> parse_eq r = Some w \<Longrightarrow> \<not> (length w = 1 \<and> is_quote (hd w))"
  shows "scans_to (env_scan0 (s @ NUL # j)) (parse_env_line s)"
proof -
  obtain c t where ct: "s = c # t" using s by (cases s) auto
  have loop: "env_loop (env_scan0 (s @ NUL # j)) = env_loop (scan NAME NUL (s @ NUL # j) [] [])"
    using loop_namei_plain[of c t NUL j "[]" "[]"] q nn by (simp add: ct env_scan0_def)
  have pn: "parse_name s = Some (takeWhile name_char s, dropWhile name_char s)"
    using q by (simp add: parse_name_def ct del: takeWhile.simps dropWhile.simps)
  note lp = loop_name_plain[OF nn, of j "[]" "[]"]
  show ?thesis
  proof (cases "dropWhile name_char s = []")
    case True
    then show ?thesis
      using loop lp by (simp add: scans_to_def parse_env_line_alt pn parse_eq_def env_accept_def del: dropWhile_eq_Nil_conv)
  next
    case False
    then have "env_loop (env_scan0 (s @ NUL # j)) =
        env_loop (scan EQ1 NUL (dropWhile name_char s @ NUL # j) (takeWhile name_char s) [])"
      using loop lp by simp
    then show ?thesis
      using eq_phase[of "dropWhile name_char s" "takeWhile name_char s" NUL j] no_nul_take_drop[OF nn] eqok[OF pn]
      by (simp add: scans_to_def parse_env_line_alt pn)
  qed
qed

lemma env_loop_parses:
  assumes "no_nul s" and "settled s" and "s \<noteq> []"
  shows "scans_to (env_scan0 (s @ NUL # j)) (parse_env_line s)"
proof -
  obtain c t where s: "s = c # t" using assms(3) by (cases s) auto
  have eqok: "parse_name s = Some (n, r) \<Longrightarrow> parse_eq r = Some w \<Longrightarrow> \<not> (length w = 1 \<and> is_quote (hd w))" for n r w
    using assms(2) by (simp add: settled_def)
  show ?thesis
  proof (cases "is_quote c")
    case True
    then have "t \<noteq> []" using assms(2) s by (auto simp: settled_def)
    with env_quoted_parses[of c t j] True assms(1) eqok s show ?thesis by simp
  next
    case False
    with env_plain_parses[of s j] assms(1,3) eqok s show ?thesis by simp
  qed
qed

section \<open>The whole of load_env\<close>

lemma scan_nil: "env_loop (env_scan0 (NUL # j)) = Some (env_scan0 (NUL # j))"
  by (simp add: env_scan0_def)

lemma parse_value_shorter: "parse_value w = Some v \<Longrightarrow> no_nul w \<Longrightarrow> length v \<le> length w \<and> no_nul v"
  by (auto simp: parse_value_def parse_quoted_def no_nul_def
      split: if_splits list.splits option.splits dest: set_takeWhileD set_dropWhileD
      intro: le_SucI length_takeWhile_le)
     (metis length_dropWhile_le length_rev, metis set_dropWhileD set_rev)

lemma parse_eq_shorter: "parse_eq r = Some w \<Longrightarrow> no_nul r \<Longrightarrow> length w < length r \<and> no_nul w"
proof -
  assume w: "parse_eq r = Some w" and n: "no_nul r"
  obtain u where u: "dropWhile c_isspace r = CHR ''='' # u" "w = dropWhile c_isspace u"
    using w by (auto simp: parse_eq_def split: list.splits if_splits)
  have "length w \<le> length u" by (simp add: u(2) length_dropWhile_le)
  moreover have "Suc (length u) \<le> length r" using length_dropWhile_le[of c_isspace r] u(1) by simp
  moreover have "no_nul u" using no_nul_take_drop(2)[OF n, of c_isspace] u(1) by simp
  ultimately show ?thesis using no_nul_take_drop(2)[of u c_isspace] u(2) by simp
qed

lemma parse_name_shorter:
  assumes "parse_name s = Some (n, r)" and "no_nul s"
  shows "length n + length r \<le> length s \<and> valid_name n \<and> no_nul r"
proof (cases "s \<noteq> [] \<and> is_quote (hd s)")
  case False
  then have nr: "n = takeWhile name_char s" "r = dropWhile name_char s"
    using assms(1) by (auto simp: parse_name_def)
  have "length n + length r = length s" using nr by (metis length_append takeWhile_dropWhile_id)
  moreover have "CHR ''='' \<notin> set n" by (auto simp: nr(1) name_char_def dest: set_takeWhileD)
  ultimately show ?thesis
    using no_nul_take_drop[OF assms(2), of name_char] by (simp add: nr valid_name_def)
next
  case True
  then obtain q t where s: "s = q # t" by (cases s) auto
  obtain x where r: "dropWhile (\<lambda>c. c \<noteq> q) t = x # r" and n: "n = takeWhile (\<lambda>c. c \<noteq> q) t"
      and eq: "CHR ''='' \<notin> set n"
    using assms(1) True
    by (auto simp: parse_name_def parse_quoted_def s split: list.splits option.splits if_splits)
  have "length t = length n + Suc (length r)"
    using takeWhile_dropWhile_id[of "\<lambda>c. c \<noteq> q" t] r n by (metis length_append length_Cons)
  then show ?thesis
    using no_nul_take_drop[of t "\<lambda>c. c \<noteq> q"] assms(2) eq r n by (simp add: s valid_name_def)
qed

text \<open>The comment in \<open>load_env\<close> says that gluing cannot fail: name, \<open>'='\<close> and value come from
  one line that fits the buffer.\<close>

lemma parse_env_line_fits:
  assumes "parse_env_line s = Some (n, v)" and "no_nul s"
  shows "length n + 1 + length v \<le> length s \<and> valid_name n \<and> no_nul v"
proof -
  obtain r w where r: "parse_name s = Some (n, r)" and w: "parse_eq r = Some w"
    and v: "parse_value w = Some v"
    using assms(1) by (auto simp: parse_env_line_def split: option.splits prod.splits)
  from parse_name_shorter[OF r assms(2)] parse_eq_shorter[OF w] parse_value_shorter[OF v]
  show ?thesis by linarith
qed

definition env_line :: "istream \<Rightarrow> chr \<times> string \<times> istream" where
  "env_line f = get_string MAX_ENVSTR (skip_comments f) [NL]"

lemma env_line_no_nul: "env_line f = (r, s, g) \<Longrightarrow> no_nul s \<and> length s < MAX_ENVSTR"
  using get_string_no_nul get_string_length
  by (fastforce simp: env_line_def macro_defs)

lemma env_line_reads: "env_line f = (r, s, g) \<Longrightarrow> reads f g"
  using skip_comments_reads[of f] get_string_reads[of "skip_comments f" MAX_ENVSTR "[NL]"]
  by (auto simp: env_line_def intro: reads_trans)

lemma load_env_parses:
  assumes line: "env_line f = (Some ch, s, g)" and "settled s"
  shows "load_env envstr f =
    Some (case parse_env_line s of
            None \<Rightarrow> (ENV_FALSE, str_store envstr s, g\<lparr>rest := rest f, at_eof := False, LineNumber := LineNumber f\<rparr>)
          | Some (n, v) \<Rightarrow>
              (ENV_TRUE, str_store (str_store envstr s) (glued n v CHR ''=''), g))"
proof -
  let ?buf = "str_store envstr s"
  note nn = env_line_no_nul[OF line]
  have buf: "?buf = s @ NUL # drop (length s + 1) envstr" by (simp add: str_store_def)
  have sc: "scans_to (env_scan0 ?buf) (parse_env_line s)"
  proof (cases "s = []")
    case True
    then show ?thesis
      unfolding buf
      by (simp add: scans_to_def scan_nil parse_env_line_def parse_name_def parse_eq_def)
         (simp add: env_scan0_def env_accept_def)
  next
    case False
    with nn assms(2) show ?thesis unfolding buf by (intro env_loop_parses) auto
  qed
  show ?thesis
  proof (cases "parse_env_line s")
    case None
    with sc line show ?thesis
      by (auto simp: load_env_def scans_to_def env_line_def)
  next
    case (Some nv)
    obtain n v where nv: "nv = (n, v)" by fastforce
    have fits: "length n + 1 + length v \<le> length s" "valid_name n" "no_nul v"
      using parse_env_line_fits[of s n v] Some nv nn by auto
    have "glue_strings MAX_ENVSTR n v CHR ''='' = Some (glued n v CHR ''='')"
      using fits nn by (subst glue_strings_spec) (auto simp: valid_name_def glued_def)
    with sc Some nv line show ?thesis
      by (auto simp: load_env_def scans_to_def env_line_def)
  qed
qed

end
