(* ===== verification/BitString.thy ===== *)
theory BitString
  imports CronPrelude
begin

text \<open>
  The bit-string macros of \<open>bitstring.h\<close> on the bytes of a structure. A bit string is
  an array inside a larger object, so an operation takes the bytes of the whole object
  and the offset of the array: a bit index past the end of the array reaches the bytes
  of the next member, exactly as in C.

  \<open>abit\<close> reads the object as one bit sequence; every macro is characterised by what it
  does to that sequence. The locale \<open>bit_array\<close> is the interface the parser uses.
\<close>

section \<open>The macros\<close>

type_synonym bytes = "8 word list"

definition bit_byte :: "nat \<Rightarrow> nat" where
  "bit_byte b = b div 8"

definition bit_mask :: "nat \<Rightarrow> 8 word" where
  "bit_mask b = push_bit (b mod 8) 1"

definition bitstr_size :: "nat \<Rightarrow> nat" where
  "bitstr_size nbits = (nbits - 1) div 8 + 1"

definition bit_test :: "bytes \<Rightarrow> nat \<Rightarrow> nat \<Rightarrow> bool" where
  "bit_test m name b \<longleftrightarrow> m ! (name + bit_byte b) AND bit_mask b \<noteq> 0"

definition bit_set :: "bytes \<Rightarrow> nat \<Rightarrow> nat \<Rightarrow> bytes" where
  "bit_set m name b =
     m[name + bit_byte b := m ! (name + bit_byte b) OR bit_mask b]"

definition bit_clear :: "bytes \<Rightarrow> nat \<Rightarrow> nat \<Rightarrow> bytes" where
  "bit_clear m name b =
     m[name + bit_byte b := m ! (name + bit_byte b) AND NOT (bit_mask b)]"

text \<open>\<open>while (++_startbyte < _stopbyte) _name[_startbyte] = v;\<close> from the first byte on.\<close>

function byte_fill :: "bytes \<Rightarrow> nat \<Rightarrow> nat \<Rightarrow> 8 word \<Rightarrow> bytes" where
  "byte_fill m i stop v = (if i < stop then byte_fill (m[i := v]) (i + 1) stop v else m)"
  by pat_completeness auto
termination
  by (relation "measure (\<lambda>(m, i, stop, v). stop - i)") auto

declare byte_fill.simps [simp del]

text \<open>The shifts are on \<open>int\<close> and the result is cut to the byte it is stored in.\<close>

definition int_ff :: "32 word" where
  "int_ff = 0xff"

definition bit_nclear :: "bytes \<Rightarrow> nat \<Rightarrow> nat \<Rightarrow> nat \<Rightarrow> bytes" where
  "bit_nclear m name start stop =
     (let sb = bit_byte start; eb = bit_byte stop in
      if sb = eb then
        m[name + sb := m ! (name + sb) AND
            ucast (drop_bit (8 - start mod 8) int_ff OR push_bit (stop mod 8 + 1) int_ff)]
      else
        let m1 = m[name + sb := m ! (name + sb) AND ucast (drop_bit (8 - start mod 8) int_ff)];
            m2 = byte_fill m1 (name + sb + 1) (name + eb) 0
        in m2[name + eb := m2 ! (name + eb) AND ucast (push_bit (stop mod 8 + 1) int_ff)])"

definition bit_nset :: "bytes \<Rightarrow> nat \<Rightarrow> nat \<Rightarrow> nat \<Rightarrow> bytes" where
  "bit_nset m name start stop =
     (let sb = bit_byte start; eb = bit_byte stop in
      if sb = eb then
        m[name + sb := m ! (name + sb) OR
            ucast (push_bit (start mod 8) int_ff AND drop_bit (7 - stop mod 8) int_ff)]
      else
        let m1 = m[name + sb := m ! (name + sb) OR ucast (push_bit (start mod 8) int_ff)];
            m2 = byte_fill m1 (name + sb + 1) (name + eb) 0xff
        in m2[name + eb := m2 ! (name + eb) OR ucast (drop_bit (7 - stop mod 8) int_ff)])"

section \<open>The object as a bit sequence\<close>

definition abit :: "bytes \<Rightarrow> nat \<Rightarrow> bool" where
  "abit m k \<longleftrightarrow> bit (m ! (k div 8)) (k mod 8)"

lemma bit_mask_bit: "n < 8 \<Longrightarrow> bit (bit_mask b) n \<longleftrightarrow> n = b mod 8"
  by (auto simp: bit_mask_def bit_simps)

lemma and_bit_mask: "w AND bit_mask b \<noteq> 0 \<longleftrightarrow> bit w (b mod 8)"
proof
  assume "bit w (b mod 8)"
  then have "bit (w AND bit_mask b) (b mod 8)"
    by (simp add: bit_and_iff bit_mask_bit)
  then show "w AND bit_mask b \<noteq> 0" by (metis bit_0_eq bot_apply bot_bool_def)
next
  assume nz: "w AND bit_mask b \<noteq> 0"
  show "bit w (b mod 8)"
  proof (rule ccontr)
    assume "\<not> bit w (b mod 8)"
    then have "w AND bit_mask b = 0"
      by (intro bit_word_eqI) (auto simp: bit_and_iff bit_mask_bit)
    with nz show False by simp
  qed
qed

lemma bit_test_abit: "bit_test m name b \<longleftrightarrow> abit m (8 * name + b)"
  by (simp add: bit_test_def and_bit_mask abit_def bit_byte_def)

lemma length_bit_ops [simp]:
  "length (bit_set m name b) = length m"
  "length (bit_clear m name b) = length m"
  by (simp_all add: bit_set_def bit_clear_def)

lemma abit_update:
  assumes "i < length m"
  shows "abit (m[i := w]) k \<longleftrightarrow> (if k div 8 = i then bit w (k mod 8) else abit m k)"
  using assms by (auto simp: abit_def nth_list_update)

lemma bit_index_eq:
  "k = 8 * name + b \<longleftrightarrow> k div 8 = name + b div 8 \<and> k mod 8 = b mod (8 :: nat)"
proof
  assume h: "k div 8 = name + b div 8 \<and> k mod 8 = b mod 8"
  have "k = 8 * (k div 8) + k mod 8" and "b = 8 * (b div 8) + b mod 8" by simp_all
  with h show "k = 8 * name + b" by linarith
qed simp

lemma abit_bit_set:
  assumes "name + b div 8 < length m"
  shows "abit (bit_set m name b) k \<longleftrightarrow> abit m k \<or> k = 8 * name + b"
proof (cases "k div 8 = name + b div 8")
  case True
  with assms show ?thesis
    unfolding bit_index_eq
    by (simp add: bit_set_def bit_byte_def abit_update bit_or_iff bit_mask_bit abit_def)
next
  case False
  with assms show ?thesis
    unfolding bit_index_eq by (simp add: bit_set_def bit_byte_def abit_update)
qed

lemma abit_bit_clear:
  assumes "name + b div 8 < length m"
  shows "abit (bit_clear m name b) k \<longleftrightarrow> abit m k \<and> k \<noteq> 8 * name + b"
proof (cases "k div 8 = name + b div 8")
  case True
  with assms show ?thesis
    unfolding bit_index_eq
    by (simp add: bit_clear_def bit_byte_def abit_update bit_and_iff bit_not_iff bit_mask_bit
        abit_def)
next
  case False
  with assms show ?thesis
    unfolding bit_index_eq by (simp add: bit_clear_def bit_byte_def abit_update)
qed

lemma byte_fill_props:
  "length (byte_fill m i stop v) = length m
   \<and> (\<forall>j < length m. byte_fill m i stop v ! j = (if i \<le> j \<and> j < stop then v else m ! j))"
proof (induction m i stop v rule: byte_fill.induct)
  case (1 m i stop v)
  show ?case
  proof (cases "i < stop")
    case True
    with "1.IH" show ?thesis
      by (auto simp: byte_fill.simps[of m i stop v] nth_list_update)
  next
    case False
    then show ?thesis by (auto simp: byte_fill.simps[of m i stop v])
  qed
qed

lemma length_byte_fill [simp]: "length (byte_fill m i stop v) = length m"
  using byte_fill_props by blast

lemma nth_byte_fill:
  "j < length m \<Longrightarrow> byte_fill m i stop v ! j = (if i \<le> j \<and> j < stop then v else m ! j)"
  using byte_fill_props by blast

lemma length_bit_nops [simp]:
  "length (bit_nset m name a b) = length m" "length (bit_nclear m name a b) = length m"
  by (simp_all add: bit_nset_def bit_nclear_def Let_def)

lemma int_ff_bit: "bit int_ff n \<longleftrightarrow> n < 8"
proof -
  have m: "int_ff = Bit_Operations.mask 8" by (simp add: int_ff_def mask_eq_exp_minus_1)
  show ?thesis unfolding m bit_mask_iff by auto
qed

lemma ff_bits: "n < 8 \<Longrightarrow> bit (255 :: int) n"
proof -
  have m: "(255 :: int) = Bit_Operations.mask 8" by (simp add: mask_eq_exp_minus_1)
  show "n < 8 \<Longrightarrow> bit (255 :: int) n" unfolding m bit_mask_iff by auto
qed

lemma shift_bits:
  assumes "n < 8"
  shows "bit (ucast (push_bit s int_ff) :: 8 word) n \<longleftrightarrow> s \<le> n"
    and "bit (ucast (drop_bit s int_ff) :: 8 word) n \<longleftrightarrow> s + n < 8"
  using assms by (auto simp: bit_ucast_iff bit_push_bit_iff bit_drop_bit_eq int_ff_bit)

lemma ucast_or_and:
  "(ucast (x OR y) :: 8 word) = ucast x OR ucast (y :: 32 word)"
  "(ucast (x AND y) :: 8 word) = ucast x AND ucast (y :: 32 word)"
  by (auto simp: bit_eq_iff bit_simps)

text \<open>One byte of the result of the range macros.\<close>

lemma bit_nset_byte:
  assumes "start \<le> stop" and "name + stop div 8 < length m" and "j < length m" and "n < 8"
  shows "bit (bit_nset m name start stop ! j) n \<longleftrightarrow>
    bit (m ! j) n \<or> (8 * name + start \<le> 8 * j + n \<and> 8 * j + n \<le> 8 * name + stop)"
proof -
  define sb so eb eo where "sb = start div 8" and "so = start mod 8"
    and "eb = stop div 8" and "eo = stop mod 8"
  note ix = this[symmetric]
  have le: "sb \<le> eb" using assms(1) by (simp add: sb_def eb_def div_le_mono)
  have s: "start = 8 * sb + so" and e: "stop = 8 * eb + eo" and lt: "so < 8" "eo < 8"
    by (simp_all add: sb_def so_def eb_def eo_def)
  have range: "(8 * name + start \<le> 8 * j + n \<and> 8 * j + n \<le> 8 * name + stop) \<longleftrightarrow>
      (name + sb < j \<or> name + sb = j \<and> so \<le> n) \<and>
      (j < name + eb \<or> j = name + eb \<and> n \<le> eo)"
    using s e lt assms(4) by linarith
  have so8: "8 - so + n < 8 \<longleftrightarrow> n < so" "7 - eo + n < 8 \<longleftrightarrow> n \<le> eo" "sb = eb \<Longrightarrow> so \<le> eo"
    using lt assms(1,4) s e by linarith+
  show ?thesis
    unfolding range using le assms(2-4) unfolding bit_nset_def bit_byte_def Let_def ix
    by (auto simp: nth_list_update nth_byte_fill bit_or_iff bit_and_iff ucast_or_and
        shift_bits so8 simp del: push_bit_Suc drop_bit_Suc intro: ff_bits)
qed

lemma bit_nclear_byte:
  assumes "start \<le> stop" and "name + stop div 8 < length m" and "j < length m" and "n < 8"
  shows "bit (bit_nclear m name start stop ! j) n \<longleftrightarrow>
    bit (m ! j) n \<and> \<not> (8 * name + start \<le> 8 * j + n \<and> 8 * j + n \<le> 8 * name + stop)"
proof -
  define sb so eb eo where "sb = start div 8" and "so = start mod 8"
    and "eb = stop div 8" and "eo = stop mod 8"
  note ix = this[symmetric]
  have le: "sb \<le> eb" using assms(1) by (simp add: sb_def eb_def div_le_mono)
  have s: "start = 8 * sb + so" and e: "stop = 8 * eb + eo" and lt: "so < 8" "eo < 8"
    by (simp_all add: sb_def so_def eb_def eo_def)
  have range: "(8 * name + start \<le> 8 * j + n \<and> 8 * j + n \<le> 8 * name + stop) \<longleftrightarrow>
      (name + sb < j \<or> name + sb = j \<and> so \<le> n) \<and>
      (j < name + eb \<or> j = name + eb \<and> n \<le> eo)"
    using s e lt assms(4) by linarith
  have so8: "8 - so + n < 8 \<longleftrightarrow> n < so" "7 - eo + n < 8 \<longleftrightarrow> n \<le> eo" "sb = eb \<Longrightarrow> so \<le> eo"
    using lt assms(1,4) s e by linarith+
  show ?thesis
    unfolding range using le assms(2-4) unfolding bit_nclear_def bit_byte_def Let_def ix
    by (auto simp: nth_list_update nth_byte_fill bit_or_iff bit_and_iff ucast_or_and
        shift_bits so8 simp del: push_bit_Suc drop_bit_Suc)
qed

lemma abit_bit_nset:
  assumes "start \<le> stop" and "name + stop div 8 < length m" and "k < 8 * length m"
  shows "abit (bit_nset m name start stop) k \<longleftrightarrow>
    abit m k \<or> (8 * name + start \<le> k \<and> k \<le> 8 * name + stop)"
  using bit_nset_byte[OF assms(1,2), of "k div 8" "k mod 8"] assms(3)
  by (simp add: abit_def)

lemma abit_bit_nclear:
  assumes "start \<le> stop" and "name + stop div 8 < length m" and "k < 8 * length m"
  shows "abit (bit_nclear m name start stop) k \<longleftrightarrow>
    abit m k \<and> \<not> (8 * name + start \<le> k \<and> k \<le> 8 * name + stop)"
  using bit_nclear_byte[OF assms(1,2), of "k div 8" "k mod 8"] assms(3)
  by (simp add: abit_def)

text \<open>Outside the addressed bytes nothing changes.\<close>

lemma bit_set_frame:
  "j \<noteq> name + b div 8 \<Longrightarrow> bit_set m name b ! j = m ! j"
  by (simp add: bit_set_def bit_byte_def)

section \<open>The interface\<close>

locale bit_array =
  fixes tst :: "'m \<Rightarrow> nat \<Rightarrow> bool"
    and st :: "'m \<Rightarrow> nat \<Rightarrow> 'm"
    and nset :: "'m \<Rightarrow> nat \<Rightarrow> nat \<Rightarrow> 'm"
    and nclear :: "'m \<Rightarrow> nat \<Rightarrow> nat \<Rightarrow> 'm"
    and room :: "'m \<Rightarrow> nat"
  assumes tst_st: "i < room m \<Longrightarrow> tst (st m i) k \<longleftrightarrow> tst m k \<or> k = i"
    and tst_nset: "a \<le> b \<Longrightarrow> b < room m \<Longrightarrow> k < room m \<Longrightarrow>
      tst (nset m a b) k \<longleftrightarrow> tst m k \<or> a \<le> k \<and> k \<le> b"
    and tst_nclear: "a \<le> b \<Longrightarrow> b < room m \<Longrightarrow> k < room m \<Longrightarrow>
      tst (nclear m a b) k \<longleftrightarrow> tst m k \<and> \<not> (a \<le> k \<and> k \<le> b)"
    and room_st: "room (st m i) = room m"
    and room_nset: "room (nset m a b) = room m"
    and room_nclear: "room (nclear m a b) = room m"
begin

text \<open>Setting a list of bits one after the other.\<close>

lemma tst_fold_st:
  "\<forall>i \<in> set is. i < room m \<Longrightarrow> tst (fold (\<lambda>i m. st m i) is m) k \<longleftrightarrow> tst m k \<or> k \<in> set is"
  by (induction "is" arbitrary: m) (auto simp: tst_st room_st)

lemma room_fold_st: "room (fold (\<lambda>i m. st m i) is m) = room m"
  by (induction "is" arbitrary: m) (auto simp: room_st)

text \<open>A cleared prefix holds exactly the bits set afterwards.\<close>

lemma clear_then_set:
  assumes "b < room m" and "\<forall>i \<in> set is. i \<le> b" and "k \<le> b"
  shows "tst (fold (\<lambda>i m. st m i) is (nclear m 0 b)) k \<longleftrightarrow> k \<in> set is"
proof -
  have "\<forall>i \<in> set is. i < room (nclear m 0 b)" using assms by (auto simp: room_nclear)
  then have "tst (fold (\<lambda>i m. st m i) is (nclear m 0 b)) k \<longleftrightarrow>
      tst (nclear m 0 b) k \<or> k \<in> set is" by (rule tst_fold_st)
  then show ?thesis using assms by (simp add: tst_nclear)
qed

end

text \<open>The array at offset \<open>name\<close> implements it, up to the end of the object.\<close>

definition room_at :: "nat \<Rightarrow> bytes \<Rightarrow> nat" where
  "room_at name m = 8 * (length m - name)"

lemma room_at_index: "b < room_at name m \<Longrightarrow> name + b div 8 < length m"
  by (auto simp: room_at_def)

interpretation ba: bit_array
  "\<lambda>m b. bit_test m name b" "\<lambda>m b. bit_set m name b"
  "\<lambda>m a b. bit_nset m name a b" "\<lambda>m a b. bit_nclear m name a b" "room_at name"
proof (unfold_locales, goal_cases)
  case (1 i m k)
  then show ?case by (simp add: bit_test_abit abit_bit_set room_at_index)
next
  case (2 a b m k)
  then have "8 * name + k < 8 * length m" by (simp add: room_at_def)
  with 2 show ?case by (simp add: bit_test_abit abit_bit_nset room_at_index)
next
  case (3 a b m k)
  then have "8 * name + k < 8 * length m" by (simp add: room_at_def)
  with 3 show ?case by (simp add: bit_test_abit abit_bit_nclear room_at_index)
qed (simp_all add: room_at_def)

end
