(* ===== verification/CronEntry.thy ===== *)
theory CronEntry
  imports CronEnvParse BitString
begin

text \<open>
  \<open>cronie-1.4.6/src/entry.c\<close>: the parser of one crontab entry, with \<open>pw_dup\<close> of
  \<open>pw_dup.c\<close>.

  The five bit strings of \<open>struct entry\<close> are one block of 20 bytes, laid out as the compiler
  lays them out (the last two bytes are the padding before \<open>flags\<close>), because the bit
  ranges the parser clears and sets run one bit past the end of a field. \<open>load_entry\<close> is split at its
  comments into the time specification, the user name, the environment and the command;
  \<open>goto eof\<close> is an \<^const>\<open>Inl\<close> result that carries the error code, the last character and the stream.
\<close>

section \<open>Constants and data\<close>

datatype ecode = e_none | e_minute | e_hour | e_dom | e_month | e_dow
  | e_cmd | e_timespec | e_username | e_option | e_memory

fun ecodes :: "ecode \<Rightarrow> string" where
  "ecodes e_none = ''no error''"
| "ecodes e_minute = ''bad minute''"
| "ecodes e_hour = ''bad hour''"
| "ecodes e_dom = ''bad day-of-month''"
| "ecodes e_month = ''bad month''"
| "ecodes e_dow = ''bad day-of-week''"
| "ecodes e_cmd = ''bad command''"
| "ecodes e_timespec = ''bad time specifier''"
| "ecodes e_username = ''bad username''"
| "ecodes e_option = ''bad option''"
| "ecodes e_memory = ''out of memory''"

definition FIRST_MINUTE :: int where [macro_defs]: "FIRST_MINUTE = 0"
definition LAST_MINUTE :: int where [macro_defs]: "LAST_MINUTE = 59"
definition FIRST_HOUR :: int where [macro_defs]: "FIRST_HOUR = 0"
definition LAST_HOUR :: int where [macro_defs]: "LAST_HOUR = 23"
definition FIRST_DOM :: int where [macro_defs]: "FIRST_DOM = 1"
definition LAST_DOM :: int where [macro_defs]: "LAST_DOM = 31"
definition FIRST_MONTH :: int where [macro_defs]: "FIRST_MONTH = 1"
definition LAST_MONTH :: int where [macro_defs]: "LAST_MONTH = 12"
definition FIRST_DOW :: int where [macro_defs]: "FIRST_DOW = 0"
definition LAST_DOW :: int where [macro_defs]: "LAST_DOW = 7"

definition MIN_STAR :: "32 word" where [macro_defs]: "MIN_STAR = 0x01"
definition HR_STAR :: "32 word" where [macro_defs]: "HR_STAR = 0x02"
definition DOM_STAR :: "32 word" where [macro_defs]: "DOM_STAR = 0x04"
definition DOW_STAR :: "32 word" where [macro_defs]: "DOW_STAR = 0x08"
definition WHEN_REBOOT :: "32 word" where [macro_defs]: "WHEN_REBOOT = 0x10"
definition DONT_LOG :: "32 word" where [macro_defs]: "DONT_LOG = 0x20"

definition MAX_COMMAND :: nat where [macro_defs]: "MAX_COMMAND = 131072"

definition MonthNames :: "string list" where
  "MonthNames = [''Jan'', ''Feb'', ''Mar'', ''Apr'', ''May'', ''Jun'',
     ''Jul'', ''Aug'', ''Sep'', ''Oct'', ''Nov'', ''Dec'']"

definition DowNames :: "string list" where
  "DowNames = [''Sun'', ''Mon'', ''Tue'', ''Wed'', ''Thu'', ''Fri'', ''Sat'', ''Sun'']"

text \<open>Where the bit strings of \<open>struct entry\<close> start in the block of time bits.\<close>

definition minute_at :: nat where [macro_defs]: "minute_at = 0"
definition hour_at :: nat where [macro_defs]: "hour_at = 8"
definition dom_at :: nat where [macro_defs]: "dom_at = 11"
definition month_at :: nat where [macro_defs]: "month_at = 15"
definition dow_at :: nat where [macro_defs]: "dow_at = 17"
definition tbits_size :: nat where [macro_defs]: "tbits_size = 20"

record passwd =
  pw_name :: string
  pw_passwd :: string
  pw_uid :: int
  pw_gid :: int
  pw_gecos :: string
  pw_dir :: string
  pw_shell :: string

record entry =
  pwd :: passwd
  envp :: env
  cmd :: string
  tbits :: bytes
  flags :: "32 word"

section \<open>pw_dup\<close>

text \<open>The block \<open>pw_dup\<close> allocates: the copied structure, whose string members point
  (here: are offsets) into the bytes behind it.\<close>

record pw_block =
  pb_uid :: int
  pb_gid :: int
  pb_name :: nat
  pb_passwd :: nat
  pb_gecos :: nat
  pb_dir :: nat
  pb_shell :: nat
  pb_bytes :: string

definition pw_total :: "passwd \<Rightarrow> nat" where
  "pw_total pw =
     (let nsize = length (pw_name pw) + 1; psize = length (pw_passwd pw) + 1;
          gsize = length (pw_gecos pw) + 1; dsize = length (pw_dir pw) + 1;
          ssize = length (pw_shell pw) + 1
      in nsize + psize + gsize + dsize + ssize)"

text \<open>\<open>memcpy (cp, s, strlen (s) + 1)\<close> into a block of a given size; \<^const>\<open>None\<close> when it does not fit.\<close>

definition put_str :: "nat \<Rightarrow> string \<Rightarrow> string \<Rightarrow> (nat \<times> string) option" where
  "put_str tot bs s =
     (if length bs + length s + 1 \<le> tot then Some (length bs, bs @ s @ [NUL]) else None)"

definition pw_layout :: "passwd \<Rightarrow> pw_block option" where
  "pw_layout pw =
     (let t = pw_total pw in
      case put_str t [] (pw_name pw) of None \<Rightarrow> None | Some (n, b1) \<Rightarrow>
      (case put_str t b1 (pw_passwd pw) of None \<Rightarrow> None | Some (p, b2) \<Rightarrow>
      (case put_str t b2 (pw_gecos pw) of None \<Rightarrow> None | Some (g, b3) \<Rightarrow>
      (case put_str t b3 (pw_dir pw) of None \<Rightarrow> None | Some (d, b4) \<Rightarrow>
      (case put_str t b4 (pw_shell pw) of None \<Rightarrow> None | Some (s, b5) \<Rightarrow>
        Some \<lparr>pb_uid = pw_uid pw, pb_gid = pw_gid pw, pb_name = n, pb_passwd = p,
              pb_gecos = g, pb_dir = d, pb_shell = s, pb_bytes = b5\<rparr>)))))"

definition pw_view :: "pw_block \<Rightarrow> passwd" where
  "pw_view b =
     \<lparr>pw_name = cstr (drop (pb_name b) (pb_bytes b)),
      pw_passwd = cstr (drop (pb_passwd b) (pb_bytes b)),
      pw_uid = pb_uid b, pw_gid = pb_gid b,
      pw_gecos = cstr (drop (pb_gecos b) (pb_bytes b)),
      pw_dir = cstr (drop (pb_dir b) (pb_bytes b)),
      pw_shell = cstr (drop (pb_shell b) (pb_bytes b))\<rparr>"

definition pw_dup :: "ctx \<Rightarrow> passwd \<Rightarrow> passwd option \<times> ctx" where
  "pw_dup c pw =
     (let (ok, c1) = alloc c in
      if ok then (map_option pw_view (pw_layout pw), c1) else (None, c1))"

section \<open>Numbers, ranges and lists\<close>

text \<open>The two copying loops of \<open>get_number\<close>; the flag is false for \<open>goto bad\<close>.\<close>

function get_run :: "(char \<Rightarrow> bool) \<Rightarrow> nat \<Rightarrow> chr \<Rightarrow> istream \<Rightarrow> bool \<times> string \<times> chr \<times> istream" where
  "get_run p len ch f =
     (case ch of
        None \<Rightarrow> (True, [], None, f)
      | Some c \<Rightarrow>
          if \<not> p c then (True, [], ch, f)
          else if len + 1 \<ge> MAX_TEMPSTR then (False, [], ch, f)
          else (case get_char f of
                  (ch', g) \<Rightarrow> (case get_run p (len + 1) ch' g of (ok, s, r) \<Rightarrow> (ok, c # s, r))))"
  by pat_completeness auto
termination
  by (relation "measure (\<lambda>(p, len, ch, f). MAX_TEMPSTR - len)") auto

declare get_run.simps [simp del]

text \<open>\<open>strchr (terms, ch)\<close> for an \<open>int\<close>: \<open>EOF\<close> is not among the terminators.\<close>

definition term_in :: "string \<Rightarrow> chr \<Rightarrow> bool" where
  "term_in terms ch \<longleftrightarrow> (case ch of None \<Rightarrow> False | Some c \<Rightarrow> strchr terms c)"

fun name_index :: "int \<Rightarrow> string list \<Rightarrow> string \<Rightarrow> int option" where
  "name_index i [] temp = None"
| "name_index i (n # ns) temp =
     (if strcasecmp_eq n temp then Some i else name_index (i + 1) ns temp)"

text \<open>\<open>*numptr\<close> and the character returned; \<open>(None, _)\<close> is \<open>EOF\<close>, with the character put back.\<close>

definition get_number ::
  "int \<Rightarrow> string list option \<Rightarrow> chr \<Rightarrow> istream \<Rightarrow> string \<Rightarrow> (int \<times> chr) option \<times> istream" where
  "get_number low names ch f terms =
     (case get_run c_isdigit 0 ch f of
        (ok, temp, ch1, f1) \<Rightarrow>
          if \<not> ok then (None, unget_char ch1 f1)
          else if temp \<noteq> [] then
            if \<not> term_in terms ch1 then (None, unget_char ch1 f1)
            else (Some (atoi temp, ch1), f1)
          else
            (case names of
               None \<Rightarrow> (None, unget_char ch1 f1)
             | Some ns \<Rightarrow>
                 (case get_run c_isalpha 0 ch1 f1 of
                    (ok2, temp2, ch2, f2) \<Rightarrow>
                      if \<not> ok2 then (None, unget_char ch2 f2)
                      else if temp2 \<noteq> [] \<and> term_in terms ch2 then
                        (case name_index 0 ns temp2 of
                           None \<Rightarrow> (None, unget_char ch2 f2)
                         | Some i \<Rightarrow> (Some (i + low, ch2), f2))
                      else (None, unget_char ch2 f2))))"

definition set_element :: "bytes \<Rightarrow> nat \<Rightarrow> int \<Rightarrow> int \<Rightarrow> int \<Rightarrow> bytes option" where
  "set_element m bits low high number =
     (if number < low \<or> number > high then None
      else Some (bit_set m bits (nat (number - low))))"

text \<open>
  \<open>for (i = num1; i <= num2; i += num3)\<close>. The flag is false when \<open>set_element\<close> fails; the bits
  set before stay set. \<^const>\<open>None\<close> is running out of fuel, which \<open>range_loop_returns\<close> excludes for
  the fuel \<open>get_range\<close> gives, so that the value chosen for it there plays no part.
\<close>

fun range_loop ::
  "nat \<Rightarrow> bytes \<Rightarrow> nat \<Rightarrow> int \<Rightarrow> int \<Rightarrow> int \<Rightarrow> int \<Rightarrow> int \<Rightarrow> (bool \<times> bytes) option" where
  "range_loop 0 m bits low high i num2 num3 = None"
| "range_loop (Suc n) m bits low high i num2 num3 =
     (if i \<le> num2 then
        (case set_element m bits low high i of
           None \<Rightarrow> Some (False, m)
         | Some m' \<Rightarrow> range_loop n m' bits low high (s32 (i + num3)) num2 num3)
      else Some (True, m))"

definition range_fuel :: "int \<Rightarrow> int \<Rightarrow> nat" where
  "range_fuel low high = nat (high - low) + 2"

text \<open>Lines 483 to 518 of \<open>get_range\<close>: the optional step and the loop.\<close>

definition range_step ::
  "bytes \<Rightarrow> nat \<Rightarrow> int \<Rightarrow> int \<Rightarrow> int \<Rightarrow> int \<Rightarrow> chr \<Rightarrow> istream \<Rightarrow> chr \<times> bytes \<times> istream" where
  "range_step m bits low high num1 num2 ch f =
     (let run = (\<lambda>num3 ch f.
        case range_loop (range_fuel low high) m bits low high num1 num2 num3 of
          None \<Rightarrow> (None, m, f)
        | Some (ok, m') \<Rightarrow>
            if ok then (ch, m', f) else (None, m', unget_char ch f))
      in
      if ch = Some CHR ''/'' then
        (case get_char f of
           (None, g) \<Rightarrow> (None, m, g)
         | (ch', g) \<Rightarrow>
             (case get_number 0 None ch' g [CHR '','', SP, TAB, NL] of
                (None, h) \<Rightarrow> (None, m, h)
              | (Some (num3, ch''), h) \<Rightarrow> if num3 = 0 then (None, m, h) else run num3 ch'' h))
      else run 1 ch f)"

definition get_range ::
  "bytes \<Rightarrow> nat \<Rightarrow> int \<Rightarrow> int \<Rightarrow> string list option \<Rightarrow> chr \<Rightarrow> istream \<Rightarrow>
     chr \<times> bytes \<times> istream" where
  "get_range m bits low high names ch f =
     (if ch = Some CHR ''*'' then
        (case get_char f of
           (None, g) \<Rightarrow> (None, m, g)
         | (ch', g) \<Rightarrow> range_step m bits low high low high ch' g)
      else
        (case get_number low names ch f [CHR '','', CHR ''-'', SP, TAB, NL] of
           (None, g) \<Rightarrow> (None, m, g)
         | (Some (num1, ch1), g) \<Rightarrow>
             if ch1 \<noteq> Some CHR ''-'' then
               (case set_element m bits low high num1 of
                  None \<Rightarrow> (None, m, unget_char ch1 g)
                | Some m' \<Rightarrow> (ch1, m', g))
             else
               (case get_char g of
                  (None, h) \<Rightarrow> (None, m, h)
                | (ch2, h) \<Rightarrow>
                    (case get_number low names ch2 h [CHR ''/'', CHR '','', SP, TAB, NL] of
                       (None, k) \<Rightarrow> (None, m, k)
                     | (Some (num2, ch3), k) \<Rightarrow>
                         if num1 > num2 then (None, m, k)
                         else range_step m bits low high num1 num2 ch3 k))))"

section \<open>What the parser reads\<close>

lemma unget_char_None [simp]: "unget_char None f = f"
  by (simp add: unget_char_def)

lemma get_run_reads:
  "get_run p len ch f = (ok, s, ch', g) \<Longrightarrow> reads (holding ch f) (holding ch' g)"
proof (induction p len ch f arbitrary: ok s ch' g rule: get_run.induct)
  case (1 p len ch f)
  show ?case
  proof (cases "\<exists>c. ch = Some c \<and> p c \<and> len + 1 < MAX_TEMPSTR")
    case False
    with "1.prems" show ?thesis
      by (subst (asm) get_run.simps) (auto split: option.splits if_splits)
  next
    case True
    then obtain c where c: "ch = Some c" "p c" "\<not> len + 1 \<ge> MAX_TEMPSTR" by auto
    obtain ch1 f1 where gc: "get_char f = (ch1, f1)" by fastforce
    obtain ok1 s1 r1 where rec: "get_run p (len + 1) ch1 f1 = (ok1, s1, r1)" by (metis prod_cases3)
    have "r1 = (ch', g)"
      using "1.prems" c gc rec by (subst (asm) get_run.simps) auto
    with "1.IH"[OF c(1) _ c(3) gc[symmetric]] rec c have "reads (holding ch1 f1) (holding ch' g)"
      by auto
    moreover have "reads (holding ch f) (holding ch1 f1)"
      using get_char_holding[OF gc] holding_reads reads_trans by blast
    ultimately show ?thesis by (rule reads_trans[rotated])
  qed
qed

lemma get_number_reads:
  assumes "get_number low names ch f terms = (r, g)"
  shows "reads (holding ch f) (case r of None \<Rightarrow> g | Some (_, ch') \<Rightarrow> holding ch' g)"
proof -
  obtain ok s ch1 f1 where run: "get_run c_isdigit 0 ch f = (ok, s, ch1, f1)" by (metis prod_cases3)
  note r1 = get_run_reads[OF run]
  obtain ok2 s2 ch2 f2 where run2: "get_run c_isalpha 0 ch1 f1 = (ok2, s2, ch2, f2)"
    by (metis prod_cases3)
  note r2 = reads_trans[OF r1 get_run_reads[OF run2]]
  show ?thesis
    using assms r1 r2
    by (auto simp: get_number_def run run2 holding_def split: if_splits option.splits)
qed

lemma range_step_reads:
  assumes "range_step m bits low high num1 num2 ch f = (ch', m', g)"
  shows "reads (holding ch f) (holding ch' g)"
proof (cases "ch = Some CHR ''/''")
  case False
  with assms holding_reads[of ch f] show ?thesis
    by (auto simp: range_step_def holding_def Let_def
        split: option.splits if_splits)
next
  case True
  obtain ch1 f1 where gc: "get_char f = (ch1, f1)" by fastforce
  note r1 = reads_trans[OF holding_reads[of ch f] get_char_holding[OF gc]]
  show ?thesis
  proof (cases ch1)
    case None
    with True assms gc r1 show ?thesis by (auto simp: range_step_def)
  next
    case (Some c1)
    obtain r h where n: "get_number 0 None ch1 f1 [CHR '','', SP, TAB, NL] = (r, h)" by fastforce
    note r2 = reads_trans[OF r1 get_number_reads[OF n]]
    show ?thesis
    proof (cases r)
      case None
      with True Some assms gc n r2 show ?thesis by (auto simp: range_step_def)
    next
      case r: (Some p)
      obtain num3 ch3 where p: "p = (num3, ch3)" by fastforce
      have r3: "reads (holding ch f) (holding ch3 h)" using r2 r p by simp
      note r4 = reads_trans[OF r3 holding_reads]
      show ?thesis
        using True Some assms gc n r p r3 r4
        by (auto simp: range_step_def Let_def holding_def
            split: option.splits if_splits)
    qed
  qed
qed

lemma get_range_reads:
  assumes "get_range m bits low high names ch f = (ch', m', g)"
  shows "reads (holding ch f) (holding ch' g)"
proof (cases "ch = Some CHR ''*''")
  case True
  obtain ch1 f1 where gc: "get_char f = (ch1, f1)" by fastforce
  note r1 = reads_trans[OF holding_reads[of ch f] get_char_holding[OF gc]]
  show ?thesis
    using True assms gc r1 range_step_reads reads_trans[OF r1]
    by (auto simp: get_range_def split: option.splits)
next
  case False
  obtain r h where n: "get_number low names ch f [CHR '','', CHR ''-'', SP, TAB, NL] = (r, h)" by fastforce
  note r1 = get_number_reads[OF n]
  show ?thesis
  proof (cases r)
    case None
    with False assms n r1 show ?thesis by (auto simp: get_range_def)
  next
    case (Some p)
    obtain num1 ch1 where p: "p = (num1, ch1)" by fastforce
    have r2: "reads (holding ch f) (holding ch1 h)" using r1 Some p by simp
    obtain ch2 k where gc: "get_char h = (ch2, k)" by fastforce
    have r3: "reads (holding ch f) (holding ch2 k)"
      using reads_trans[OF reads_trans[OF r2 holding_reads] get_char_holding[OF gc]] .
    obtain r' l where n': "get_number low names ch2 k [CHR ''/'', CHR '','', SP, TAB, NL] = (r', l)" by fastforce
    note r4 = reads_trans[OF r3 get_number_reads[OF n']]
    show ?thesis
    proof (cases "ch1 = Some CHR ''-''")
      case dash: False
      with False assms n Some p r2 show ?thesis
        by (auto simp: get_range_def holding_def split: option.splits)
    next
      case dash: True
      show ?thesis
      proof (cases r')
        case None
        with dash False assms n Some p gc n' r3 r4 show ?thesis
          by (auto simp: get_range_def split: option.splits)
      next
        case r': (Some p')
        obtain num2 ch3 where p': "p' = (num2, ch3)" by fastforce
        have r5: "reads (holding ch f) (holding ch3 l)" using r4 r' p' by simp
        note r6 = reads_trans[OF r5 holding_reads]
        show ?thesis
          using dash False assms n Some p gc n' r3 r5 r6 r' p' range_step_reads reads_trans[OF r5]
          by (auto simp: get_range_def split: option.splits if_splits)
      qed
    qed
  qed
qed

lemma list_loop_dec:
  assumes "(Some CHR '','', m1, f1) = get_range m bits low high names ch f"
    and "get_char f1 = (ch2, f2)"
  shows "length (rest (holding ch2 f2)) < length (rest (holding ch f))"
proof -
  have "reads (holding ch f) (holding (Some CHR '','') f1)"
    using get_range_reads assms(1) by metis
  then have "length (rest f1) < length (rest (holding ch f))" using reads_length by fastforce
  moreover have "length (rest (holding ch2 f2)) \<le> length (rest f1)"
    using get_char_holding[of f1 ch2 f2] assms(2) reads_length by fastforce
  ultimately show ?thesis by simp
qed

text \<open>The loop of \<open>get_list\<close>.\<close>

function list_loop ::
  "bytes \<Rightarrow> nat \<Rightarrow> int \<Rightarrow> int \<Rightarrow> string list option \<Rightarrow> chr \<Rightarrow> istream \<Rightarrow> chr \<times> bytes \<times> istream"
where
  "list_loop m bits low high names ch f =
     (case get_range m bits low high names ch f of
        (ch1, m1, f1) \<Rightarrow>
          if ch1 = Some CHR '','' then
            (case get_char f1 of (ch2, f2) \<Rightarrow> list_loop m1 bits low high names ch2 f2)
          else (ch1, m1, f1))"
  by pat_completeness auto
termination
  by (relation "measure (\<lambda>(m, bits, low, high, names, ch, f). length (rest (holding ch f)))")
     (auto split: prod.splits intro: list_loop_dec)

declare list_loop.simps [simp del]

definition get_list ::
  "bytes \<Rightarrow> nat \<Rightarrow> int \<Rightarrow> int \<Rightarrow> string list option \<Rightarrow> chr \<Rightarrow> istream \<Rightarrow> chr \<times> bytes \<times> istream"
where
  "get_list m bits low high names ch f =
     (let m1 = bit_nclear m bits 0 (nat (high - low + 1)) in
      case list_loop m1 bits low high names ch f of
        (None, m2, f1) \<Rightarrow> (None, m2, f1)
      | (ch1, m2, f1) \<Rightarrow>
          (case skip_nonblanks ch1 f1 of
             (ch2, f2) \<Rightarrow> (case skip_blanks ch2 f2 of (ch3, f3) \<Rightarrow> (ch3, m2, f3))))"

section \<open>load_entry\<close>

text \<open>The \<open>strcmp\<close> chain over the \<open>@\<close> names; \<^const>\<open>None\<close> is the final \<open>else\<close>.\<close>

definition special_bits :: "string \<Rightarrow> bytes \<Rightarrow> 32 word \<Rightarrow> (bytes \<times> 32 word) option" where
  "special_bits s m fl =
     (let dows = (\<lambda>m. bit_nset m dow_at 0 (nat (LAST_DOW - FIRST_DOW + 1)));
          doms = (\<lambda>m. bit_nset m dom_at 0 (nat (LAST_DOM - FIRST_DOM + 1)));
          months = (\<lambda>m. bit_nset m month_at 0 (nat (LAST_MONTH - FIRST_MONTH + 1)));
          hours = (\<lambda>m. bit_nset m hour_at 0 (nat (LAST_HOUR - FIRST_HOUR + 1)));
          min0 = (\<lambda>m. bit_set m minute_at 0); hour0 = (\<lambda>m. bit_set m hour_at 0);
          dom0 = (\<lambda>m. bit_set m dom_at 0); month0 = (\<lambda>m. bit_set m month_at 0);
          dow0 = (\<lambda>m. bit_set m dow_at 0)
      in
      if s = ''reboot'' then Some (m, fl OR WHEN_REBOOT)
      else if s = ''yearly'' \<or> s = ''annually'' then
        Some (dows (month0 (dom0 (hour0 (min0 m)))), fl OR DOW_STAR)
      else if s = ''monthly'' then
        Some (dows (months (dom0 (hour0 (min0 m)))), fl OR DOW_STAR)
      else if s = ''weekly'' then
        Some (dow0 (months (doms (hour0 (min0 m)))), fl OR DOW_STAR)
      else if s = ''daily'' \<or> s = ''midnight'' then
        Some (dows (months (doms (hour0 (min0 m)))), fl)
      else if s = ''hourly'' then
        Some (dows (months (doms (hours (min0 m)))), fl OR HR_STAR)
      else None)"

type_synonym 'a parsed = "(ecode \<times> chr \<times> istream) + 'a"

definition load_special ::
  "bytes \<Rightarrow> 32 word \<Rightarrow> istream \<Rightarrow> (bytes \<times> 32 word \<times> chr \<times> istream) parsed" where
  "load_special m fl f =
     (case get_string MAX_COMMAND f [SP, TAB, NL] of
        (ch, s, g) \<Rightarrow>
          (case special_bits s m fl of
             None \<Rightarrow> Inl (e_timespec, ch, g)
           | Some (m1, fl1) \<Rightarrow>
               (case skip_blanks ch g of
                  (ch1, h) \<Rightarrow>
                    if ch1 = None \<or> ch1 = Some NL then Inl (e_cmd, ch1, h)
                    else Inr (m1, fl1, ch1, h))))"

definition star :: "chr \<Rightarrow> 32 word \<Rightarrow> 32 word \<Rightarrow> 32 word" where
  "star ch b fl = (if ch = Some CHR ''*'' then fl OR b else fl)"

definition load_times ::
  "bytes \<Rightarrow> 32 word \<Rightarrow> chr \<Rightarrow> istream \<Rightarrow> (bytes \<times> 32 word \<times> chr \<times> istream) parsed" where
  "load_times m0 fl0 ch0 f0 =
     (let fl1 = star ch0 MIN_STAR fl0 in
      case get_list m0 minute_at FIRST_MINUTE LAST_MINUTE None ch0 f0 of (ch1, m1, f1) \<Rightarrow>
      if ch1 = None then Inl (e_minute, ch1, f1) else
      let fl2 = star ch1 HR_STAR fl1 in
      case get_list m1 hour_at FIRST_HOUR LAST_HOUR None ch1 f1 of (ch2, m2, f2) \<Rightarrow>
      if ch2 = None then Inl (e_hour, ch2, f2) else
      let fl3 = star ch2 DOM_STAR fl2 in
      case get_list m2 dom_at FIRST_DOM LAST_DOM None ch2 f2 of (ch3, m3, f3) \<Rightarrow>
      if ch3 = None then Inl (e_dom, ch3, f3) else
      case get_list m3 month_at FIRST_MONTH LAST_MONTH (Some MonthNames) ch3 f3 of (ch4, m4, f4) \<Rightarrow>
      if ch4 = None then Inl (e_month, ch4, f4) else
      let fl5 = star ch4 DOW_STAR fl3 in
      case get_list m4 dow_at FIRST_DOW LAST_DOW (Some DowNames) ch4 f4 of (ch5, m5, f5) \<Rightarrow>
      if ch5 = None then Inl (e_dow, ch5, f5) else Inr (m5, fl5, ch5, f5))"

text \<open>The two Sundays.\<close>

definition sundays :: "bytes \<Rightarrow> bytes" where
  "sundays m =
     (if bit_test m dow_at 0 \<or> bit_test m dow_at 7
      then bit_set (bit_set m dow_at 0) dow_at 7 else m)"

text \<open>The name of a system crontab's line and its \<open>passwd\<close> entry.\<close>

definition load_username ::
  "(string \<Rightarrow> passwd option) \<Rightarrow> passwd option \<Rightarrow> chr \<Rightarrow> istream \<Rightarrow> (passwd \<times> chr \<times> istream) parsed" where
  "load_username getpwnam pw ch f =
     (case pw of
        Some p \<Rightarrow> Inr (p, ch, f)
      | None \<Rightarrow>
          (case get_string MAX_COMMAND f [SP, TAB, NL] of
             (ch1, username, g) \<Rightarrow>
               if ch1 = None \<or> ch1 = Some NL \<or> ch1 = Some CHR ''*'' then Inl (e_cmd, ch1, g)
               else (case getpwnam username of
                       None \<Rightarrow> Inl (e_username, ch1, g)
                     | Some p \<Rightarrow> Inr (p, ch1, g))))"

text \<open>One \<open>glue_strings\<close> / \<open>env_set\<close> pair; \<^const>\<open>None\<close> is \<open>ecode = e_memory\<close>.\<close>

definition set_var :: "string \<Rightarrow> string \<Rightarrow> ctx \<Rightarrow> env \<Rightarrow> env option \<times> ctx" where
  "set_var name val c e =
     (case glue_strings MAX_ENVSTR name val CHR ''='' of
        Some envstr \<Rightarrow> env_set c e envstr
      | None \<Rightarrow> (Some e, c\<lparr>logs := logs c @ [(''CRON'', ''ERROR'', ''can't set '' @ name)]\<rparr>))"

definition default_var :: "string \<Rightarrow> string \<Rightarrow> ctx \<Rightarrow> env \<Rightarrow> env option \<times> ctx" where
  "default_var name val c e =
     (if env_get name e = None then set_var name val c e else (Some e, c))"

definition PATH_BSHELL :: string where "PATH_BSHELL = ''/bin/sh''"
definition PATH_DEFPATH :: string where "PATH_DEFPATH = ''/usr/bin:/bin''"

text \<open>The calls in sequence; the first \<open>e_memory\<close> ends it.\<close>

fun env_seq :: "(ctx \<Rightarrow> env \<Rightarrow> env option \<times> ctx) list \<Rightarrow> ctx \<Rightarrow> env \<Rightarrow> env option \<times> ctx" where
  "env_seq [] c e = (Some e, c)"
| "env_seq (k # ks) c e =
     (case k c e of (None, c1) \<Rightarrow> (None, c1) | (Some e1, c1) \<Rightarrow> env_seq ks c1 e1)"

definition entry_env :: "ctx \<Rightarrow> passwd \<Rightarrow> env \<Rightarrow> env option \<times> ctx" where
  "entry_env c pw envp0 =
     (case env_copy c envp0 of
        (None, c1) \<Rightarrow> (None, c1)
      | (Some e, c1) \<Rightarrow>
          env_seq [default_var ''SHELL'' PATH_BSHELL, default_var ''HOME'' (pw_dir pw),
                   default_var ''PATH'' PATH_DEFPATH, set_var ''LOGNAME'' (pw_name pw),
                   set_var ''USER'' (pw_name pw)] c1 e)"

text \<open>\<open>while (ch != '\n' && !feof(file)) ch = get_char(file);\<close> The end-of-file indicator is only set by
  a read at the end of the input and \<open>ungetc\<close> clears it.\<close>

definition feof :: "istream \<Rightarrow> bool" where
  "feof f \<longleftrightarrow> at_eof f \<and> rest f = []"

function to_eol :: "chr \<Rightarrow> istream \<Rightarrow> istream" where
  "to_eol ch f =
     (if ch = Some NL \<or> feof f then f else case get_char f of (ch1, g) \<Rightarrow> to_eol ch1 g)"
  by pat_completeness auto
termination
  by (relation "measure (\<lambda>(ch, f). length (rest f) + (if feof f then 0 else 1))")
     (auto simp: get_char_def feof_def split: list.splits)

declare to_eol.simps [simp del]

text \<open>From the end of the time fields to the end of the entry (lines 250 to 376).\<close>

definition load_rest ::
  "(string \<Rightarrow> passwd option) \<Rightarrow> ctx \<Rightarrow> passwd option \<Rightarrow> env \<Rightarrow> bytes \<Rightarrow> 32 word \<Rightarrow> chr \<Rightarrow> istream \<Rightarrow>
     (entry \<times> istream) parsed \<times> ctx" where
  "load_rest getpwnam c pw envp0 m fl ch f =
     (if ch = Some NL \<or> ch = Some CHR ''*'' then (Inl (e_cmd, ch, f), c)
      else case load_username getpwnam pw ch (unget_char ch f) of
        Inl err \<Rightarrow> (Inl err, c)
      | Inr (p, ch1, f1) \<Rightarrow>
          (case pw_dup c p of
             (None, c1) \<Rightarrow> (Inl (e_memory, ch1, f1), c1)
           | (Some p1, c1) \<Rightarrow>
               (case entry_env c1 p envp0 of
                  (None, c2) \<Rightarrow> (Inl (e_memory, ch1, f1), c2)
                | (Some e, c2) \<Rightarrow>
                    (case get_string MAX_COMMAND f1 [NL] of
                       (ch2, s, f2) \<Rightarrow>
                         if ch2 = None then (Inl (e_cmd, ch2, f2), c2)
                         else (case alloc c2 of
                           (False, c3) \<Rightarrow> (Inl (e_memory, ch2, f2), c3)
                         | (True, c3) \<Rightarrow>
                             (Inr (\<lparr>pwd = p1\<lparr>pw_passwd := []\<rparr>, envp = e, cmd = s,
                                     tbits = m, flags = fl\<rparr>, f2), c3))))))"

definition load_body ::
  "(string \<Rightarrow> passwd option) \<Rightarrow> ctx \<Rightarrow> passwd option \<Rightarrow> env \<Rightarrow> 32 word \<Rightarrow> chr \<Rightarrow> istream \<Rightarrow>
     (entry \<times> istream) parsed \<times> ctx" where
  "load_body getpwnam c pw envp0 fl ch f =
     (let m0 = replicate tbits_size 0 in
      case (if ch = Some CHR ''@'' then load_special m0 fl f else load_times m0 fl ch f) of
        Inl err \<Rightarrow> (Inl err, c)
      | Inr (m1, fl1, ch1, f1) \<Rightarrow> load_rest getpwnam c pw envp0 (sundays m1) fl1 ch1 f1)"

text \<open>
  \<open>load_entry\<close>: an entry, or the code given to \<open>error_func\<close> (\<^const>\<open>e_none\<close>: \<open>NULL\<close> at the end of
  the file, nothing reported). The \<open>calloc\<close> at the start is not checked by the code and is taken to
  succeed; \<open>cmd\<close> and \<open>envstr\<close> are scratch buffers.
\<close>

definition load_entry ::
  "(string \<Rightarrow> passwd option) \<Rightarrow> ctx \<Rightarrow> istream \<Rightarrow> passwd option \<Rightarrow> env \<Rightarrow> (ecode + entry) \<times> ctx \<times> istream"
where
  "load_entry getpwnam c file pw envp0 =
     (let fin = (\<lambda>(r, c). case r of
                    Inr (e, f) \<Rightarrow> (Inr e, c, f)
                  | Inl (ec, ch, f) \<Rightarrow> (Inl ec, c, to_eol ch f)) in
      case get_char (skip_comments file) of
        (None, f) \<Rightarrow> (Inl e_none, c, f)
      | (Some ch, f) \<Rightarrow>
          if ch = CHR ''-'' then
            if pw = None \<or> pw_uid (the pw) = 0 then
              (case get_char f of
                 (None, g) \<Rightarrow> (Inl e_none, c, g)
               | (ch1, g) \<Rightarrow> fin (load_body getpwnam c pw envp0 DONT_LOG ch1 g))
            else
              fin (Inl (e_option, Some ch, f),
                c\<lparr>logs := logs c @ [(''CRON'', ''ERROR'', ''Only privileged user can disable logging'')]\<rparr>)
          else fin (load_body getpwnam c pw envp0 0 (Some ch) f))"

end
