(* ===== verification/CronEntryReads.thy ===== *)
theory CronEntryReads
  imports CronEntry
begin

text \<open>
  What \<open>load_entry\<close> consumes and what it may leave in an entry: the stream contract
  (\<open>reader\<close>) for every function of \<open>entry.c\<close>, the bits a field parser can change, the
  environment of an entry, and \<open>pw_dup\<close>.
\<close>

section \<open>pw_dup copies\<close>

definition pw_ok :: "passwd \<Rightarrow> bool" where
  "pw_ok pw \<longleftrightarrow> no_nul (pw_name pw) \<and> no_nul (pw_passwd pw) \<and> no_nul (pw_gecos pw)
     \<and> no_nul (pw_dir pw) \<and> no_nul (pw_shell pw)"

lemma cstr_at: "no_nul s \<Longrightarrow> cstr (drop (length b) (b @ s @ NUL # t)) = s"
  by (simp add: cstr_append_nul)

lemma pw_layout_Some: "\<exists>b. pw_layout pw = Some b \<and> length (pb_bytes b) = pw_total pw"
  by (auto simp: pw_layout_def put_str_def pw_total_def Let_def)

lemma pw_view_layout:
  assumes "pw_ok pw" and "pw_layout pw = Some b"
  shows "pw_view b = pw"
proof -
  let ?n = "pw_name pw @ [NUL]" and ?p = "pw_passwd pw @ [NUL]" and ?g = "pw_gecos pw @ [NUL]"
    and ?d = "pw_dir pw @ [NUL]" and ?s = "pw_shell pw @ [NUL]"
  have "b = \<lparr>pb_uid = pw_uid pw, pb_gid = pw_gid pw, pb_name = 0, pb_passwd = length ?n,
      pb_gecos = length (?n @ ?p), pb_dir = length (?n @ ?p @ ?g),
      pb_shell = length (?n @ ?p @ ?g @ ?d), pb_bytes = ?n @ ?p @ ?g @ ?d @ ?s\<rparr>"
    using assms(2)
    by (auto simp: pw_layout_def put_str_def pw_total_def Let_def split: if_splits)
  then show ?thesis
    using assms(1) cstr_append_nul[of "pw_name pw"]
      cstr_at[of "pw_passwd pw" ?n] cstr_at[of "pw_gecos pw" "?n @ ?p"]
      cstr_at[of "pw_dir pw" "?n @ ?p @ ?g"] cstr_at[of "pw_shell pw" "?n @ ?p @ ?g @ ?d" "[]"]
    by (simp add: pw_view_def pw_ok_def)
qed

lemma pw_dup_Some:
  assumes "pw_ok pw" and "pw_dup c pw = (Some q, c')"
  shows "q = pw"
proof -
  obtain b where "pw_layout pw = Some b" using pw_layout_Some by blast
  with assms show ?thesis
    by (auto simp: pw_dup_def pw_view_layout split: prod.splits if_splits)
qed

lemma pw_dup_no_alloc_failure:
  assumes "pw_ok pw" and "allocs c = []"
  shows "pw_dup c pw = (Some pw, c)"
proof -
  obtain b where "pw_layout pw = Some b" using pw_layout_Some by blast
  with assms show ?thesis by (simp add: pw_dup_def pw_view_layout)
qed

section \<open>The stream contract\<close>

lemma list_loop_reads:
  "list_loop m bits low high names ch f = (ch', m', g) \<Longrightarrow> reads (holding ch f) (holding ch' g)"
proof (induction m bits low high names ch f arbitrary: ch' m' g rule: list_loop.induct)
  case (1 m bits low high names ch f)
  obtain ch1 m1 f1 where r: "get_range m bits low high names ch f = (ch1, m1, f1)"
    by (metis prod_cases3)
  note r1 = get_range_reads[OF r]
  show ?case
  proof (cases "ch1 = Some CHR '',''")
    case False
    with "1.prems" r r1 show ?thesis by (subst (asm) list_loop.simps) auto
  next
    case True
    obtain ch2 f2 where gc: "get_char f1 = (ch2, f2)" by fastforce
    have "reads (holding ch2 f2) (holding ch' g)"
      using "1.IH"[OF r[symmetric] refl True gc[symmetric]] "1.prems" r True gc
      by (subst (asm) (2) list_loop.simps) auto
    then show ?thesis
      using reads_trans[OF r1 holding_reads] get_char_holding[OF gc] reads_trans by blast
  qed
qed

lemma get_list_reads:
  assumes "get_list m bits low high names ch f = (ch', m', g)"
  shows "reads (holding ch f) (holding ch' g)"
proof -
  obtain ch1 m1 f1 where l: "list_loop (bit_nclear m bits 0 (nat (high - low + 1))) bits
      low high names ch f = (ch1, m1, f1)" by (metis prod_cases3)
  obtain ch2 f2 where s1: "skip_nonblanks ch1 f1 = (ch2, f2)" by fastforce
  obtain ch3 f3 where s2: "skip_blanks ch2 f2 = (ch3, f3)" by fastforce
  have "reads (holding ch1 f1) (holding ch3 f3)"
    using reads_trans[OF skip_while_reads_eq skip_while_reads_eq] s1 s2
    unfolding skip_nonblanks_def skip_blanks_def by blast
  note r = reads_trans[OF list_loop_reads[OF l] this]
  show ?thesis
  proof (cases ch1)
    case None
    with list_loop_reads[OF l] assms l show ?thesis by (auto simp: get_list_def)
  next
    case (Some c)
    with r assms l s1 s2 show ?thesis by (auto simp: get_list_def)
  qed
qed

lemma get_string_reads_eq: "get_string sz f terms = (r, s, g) \<Longrightarrow> reads f g"
  using get_string_reads[of f sz terms] by simp

lemma get_string_holding:
  assumes "get_string sz f terms = (r, s, g)"
  shows "reads f (holding r g)"
proof (cases r)
  case None
  with get_string_reads_eq[OF assms] show ?thesis by simp
next
  case (Some c)
  let ?a = "takeWhile (\<lambda>c. \<not> strchr terms c) (rest f)"
  have "dropWhile (\<lambda>c. \<not> strchr terms c) (rest f) = c # rest g"
    using get_string_spec[OF assms] Some by (auto split: list.splits)
  then have f: "rest f = (?a @ [c]) @ rest g" by (metis append_Cons append_Nil append_assoc takeWhile_dropWhile_id)
  obtain p where p: "rest f = p @ rest g" "LineNumber g = LineNumber f + newlines p"
    using get_string_reads_eq[OF assms] by (auto simp: reads_prefix)
  have "p = ?a @ [c]" using f p(1) by (metis append_same_eq)
  with p(2) have "LineNumber g = LineNumber f + newlines (?a @ [c])" by simp
  with f show ?thesis
    unfolding reads_prefix
    by (intro exI[of _ ?a]) (auto simp: Some holding_def unget_char_def newlines_append)
qed

text \<open>A stage that may jump to \<open>eof\<close>: where it leaves the stream, in either case. A newline it jumps
  with has been read.\<close>

definition stage_reads :: "istream \<Rightarrow> ('a \<Rightarrow> istream) \<Rightarrow> 'a parsed \<Rightarrow> bool" where
  "stage_reads f strm r \<longleftrightarrow>
     (case r of
        Inl (_, ch, g) \<Rightarrow> reads f g \<and> (ch = Some NL \<longrightarrow> length (rest g) < length (rest f))
      | Inr x \<Rightarrow> reads f (strm x))"

lemma reads_holding_less: "reads f (holding (Some c) g) \<Longrightarrow> length (rest g) < length (rest f)"
  using reads_length by fastforce

lemma stage_reads_from: "stage_reads f strm r \<Longrightarrow> reads h f \<Longrightarrow> stage_reads h strm r"
  using reads_length[of h f]
  by (auto simp: stage_reads_def split: sum.splits intro: reads_trans)

lemma get_string_less: "get_string sz f terms = (Some c, s, g) \<Longrightarrow> length (rest g) < length (rest f)"
  by (rule reads_holding_less[OF get_string_holding])

abbreviation time_stream :: "bytes \<times> 32 word \<times> chr \<times> istream \<Rightarrow> istream" where
  "time_stream \<equiv> \<lambda>(_, _, ch, f). holding ch f"

lemma load_special_reads: "stage_reads f time_stream (load_special m fl f)"
proof -
  obtain ch s g where s: "get_string MAX_COMMAND f [SP, TAB, NL] = (ch, s, g)"
    by (metis prod_cases3)
  obtain ch1 h where b: "skip_blanks ch g = (ch1, h)" by fastforce
  have "reads f g" using get_string_reads_eq[OF s] .
  moreover have "reads (holding ch g) (holding ch1 h)"
    using b skip_while_reads_eq unfolding skip_blanks_def by blast
  moreover have "ch = None \<or> reads f (holding ch g)"
    using get_string_holding[OF s] by blast
  ultimately show ?thesis
    using reads_trans[of f "holding ch g" "holding ch1 h"] reads_trans[OF _ holding_reads, of f ch1 h]
      reads_holding_less[of f NL g] reads_holding_less[of f NL h]
    by (auto simp: load_special_def s b stage_reads_def split: option.splits prod.splits)
qed

lemma load_times_reads: "stage_reads (holding ch f) time_stream (load_times m fl ch f)"
proof -
  obtain ch1 m1 f1 where l1: "get_list m minute_at FIRST_MINUTE LAST_MINUTE None ch f = (ch1, m1, f1)"
    by (metis prod_cases3)
  obtain ch2 m2 f2 where l2: "get_list m1 hour_at FIRST_HOUR LAST_HOUR None ch1 f1 = (ch2, m2, f2)"
    by (metis prod_cases3)
  obtain ch3 m3 f3 where l3: "get_list m2 dom_at FIRST_DOM LAST_DOM None ch2 f2 = (ch3, m3, f3)"
    by (metis prod_cases3)
  obtain ch4 m4 f4 where l4: "get_list m3 month_at FIRST_MONTH LAST_MONTH (Some MonthNames) ch3 f3 =
      (ch4, m4, f4)" by (metis prod_cases3)
  obtain ch5 m5 f5 where l5: "get_list m4 dow_at FIRST_DOW LAST_DOW (Some DowNames) ch4 f4 =
      (ch5, m5, f5)" by (metis prod_cases3)
  note r1 = get_list_reads[OF l1]
  note r2 = reads_trans[OF r1 get_list_reads[OF l2]]
  note r3 = reads_trans[OF r2 get_list_reads[OF l3]]
  note r4 = reads_trans[OF r3 get_list_reads[OF l4]]
  note r5 = reads_trans[OF r4 get_list_reads[OF l5]]
  note ls = l1 l2 l3 l4 l5
  consider "ch1 = None" | "ch1 \<noteq> None" "ch2 = None" | "ch1 \<noteq> None" "ch2 \<noteq> None" "ch3 = None"
    | "ch1 \<noteq> None" "ch2 \<noteq> None" "ch3 \<noteq> None" "ch4 = None"
    | "ch1 \<noteq> None" "ch2 \<noteq> None" "ch3 \<noteq> None" "ch4 \<noteq> None" by blast
  then show ?thesis
  proof cases
    case 1
    with r1 ls(1) show ?thesis by (auto simp: load_times_def stage_reads_def Let_def)
  next
    case 2
    with r2 ls(1,2) show ?thesis by (auto simp: load_times_def stage_reads_def Let_def)
  next
    case 3
    with r3 ls(1-3) show ?thesis by (auto simp: load_times_def stage_reads_def Let_def)
  next
    case 4
    with r4 ls(1-4) show ?thesis by (auto simp: load_times_def stage_reads_def Let_def)
  next
    case 5
    with r5 ls show ?thesis
      by (cases "ch5 = None") (auto simp: load_times_def stage_reads_def Let_def)
  qed
qed

lemma load_username_reads:
  "stage_reads f (\<lambda>(_, _, g). g) (load_username getpwnam pw ch f)"
proof -
  obtain r s g where s: "get_string MAX_COMMAND f [SP, TAB, NL] = (r, s, g)" by (metis prod_cases3)
  from get_string_reads_eq[OF s] s get_string_less show ?thesis
    by (auto simp: load_username_def stage_reads_def split: option.splits)
qed

lemma load_rest_reads:
  "stage_reads (holding ch f) snd (fst (load_rest getpwnam c pw e m fl ch f))"
proof (cases "ch = Some NL \<or> ch = Some CHR ''*''")
  case True
  then show ?thesis using holding_reads[of ch f] by (auto simp: load_rest_def stage_reads_def)
next
  case False
  have u: "stage_reads (holding ch f) (\<lambda>(_, _, g). g)
      (load_username getpwnam pw ch (unget_char ch f))"
    unfolding holding_def by (rule load_username_reads)
  show ?thesis
  proof (cases "load_username getpwnam pw ch (unget_char ch f)")
    case (Inl err)
    with u False show ?thesis by (simp add: load_rest_def stage_reads_def)
  next
    case (Inr x)
    obtain p ch1 f1 where x: "x = (p, ch1, f1)" by (metis prod_cases3)
    have r1: "reads (holding ch f) f1" using u Inr x by (simp add: stage_reads_def)
    obtain ch2 s f2 where s: "get_string MAX_COMMAND f1 [NL] = (ch2, s, f2)" by (metis prod_cases3)
    have r2: "reads (holding ch f) f2" using reads_trans[OF r1 get_string_reads_eq[OF s]] .
    have n1: "ch1 \<noteq> Some NL"
      using Inr x False by (auto simp: load_username_def split: option.splits prod.splits if_splits)
    have n2: "ch2 = Some NL \<Longrightarrow> length (rest f2) < length (rest (holding ch f))"
      using get_string_less[of MAX_COMMAND f1 "[NL]" NL s f2] s reads_length[OF r1] by auto
    show ?thesis
      using False Inr x s r1 r2 n1 n2
      by (auto simp: load_rest_def stage_reads_def split: option.splits prod.splits bool.splits)
  qed
qed

lemma to_eol_reads: "reads f (to_eol ch f)"
proof (induction ch f rule: to_eol.induct)
  case (1 ch f)
  obtain ch1 g where gc: "get_char f = (ch1, g)" by fastforce
  with 1 get_char_reads_eq[OF gc] show ?case
    by (subst to_eol.simps) (auto intro: reads_trans)
qed

lemma load_body_reads:
  "stage_reads (holding ch f) snd (fst (load_body getpwnam c pw e fl ch f))"
proof -
  let ?m0 = "replicate tbits_size 0"
  let ?t = "if ch = Some CHR ''@'' then load_special ?m0 fl f else load_times ?m0 fl ch f"
  have "stage_reads f time_stream ?t \<or> stage_reads (holding ch f) time_stream ?t"
    using load_special_reads load_times_reads by auto
  then have t: "stage_reads (holding ch f) time_stream ?t"
    using stage_reads_from holding_reads by blast
  show ?thesis
  proof (cases ?t)
    case (Inl err)
    with t show ?thesis by (simp add: load_body_def Let_def stage_reads_def)
  next
    case (Inr x)
    obtain m1 fl1 ch1 f1 where x: "x = (m1, fl1, ch1, f1)" by (metis prod_cases4)
    have "reads (holding ch f) (holding ch1 f1)" using t Inr x by (simp add: stage_reads_def)
    moreover have "stage_reads (holding ch1 f1) snd
        (fst (load_rest getpwnam c pw e (sundays m1) fl1 ch1 f1))" by (rule load_rest_reads)
    ultimately have "stage_reads (holding ch f) snd
        (fst (load_rest getpwnam c pw e (sundays m1) fl1 ch1 f1))" using stage_reads_from by blast
    then show ?thesis using Inr x by (simp add: load_body_def Let_def)
  qed
qed

lemma load_entry_reads: "reads f (snd (snd (load_entry getpwnam c f pw e)))"
proof -
  obtain ch g where gc: "get_char (skip_comments f) = (ch, g)" by fastforce
  have r1: "reads f (holding ch g)"
    using reads_trans[OF skip_comments_reads get_char_holding[OF gc]] .
  note r1g = reads_trans[OF r1 holding_reads]
  obtain ch1 h where gc1: "get_char g = (ch1, h)" by fastforce
  have r2: "reads f (holding ch1 h)" using reads_trans[OF r1g get_char_holding[OF gc1]] .
  have fin: "reads f k \<Longrightarrow> stage_reads k snd r \<Longrightarrow>
      reads f (snd (snd (case r of Inr (e, f) \<Rightarrow> (Inr e, c', f)
         | Inl (ec, ch, f) \<Rightarrow> (Inl ec, c', to_eol ch f))))" for k r c'
    by (auto simp: stage_reads_def split: sum.splits
        intro: reads_trans reads_trans[OF reads_trans to_eol_reads])
  show ?thesis
  proof (cases ch)
    case None
    with gc r1 show ?thesis by (simp add: load_entry_def)
  next
    case (Some c0)
    show ?thesis
    proof (cases "c0 = CHR ''-''")
      case False
      with Some gc fin[OF r1 load_body_reads] show ?thesis
        by (simp add: load_entry_def split_beta Let_def)
    next
      case dash: True
      show ?thesis
      proof (cases "pw = None \<or> pw_uid (the pw) = 0")
        case False
        with dash Some gc fin[OF r1g, of "Inl (e_option, ch, g)"] show ?thesis
          by (auto simp: load_entry_def stage_reads_def Let_def)
      next
        case True
        with dash Some gc gc1 r2 fin[OF r2 load_body_reads] show ?thesis
          by (cases ch1) (simp_all add: load_entry_def split_beta Let_def)
      qed
    qed
  qed
qed

section \<open>Progress\<close>

lemma to_eol_length: "length (rest (to_eol ch f)) \<le> length (rest f)"
  using to_eol_reads reads_length by blast

lemma to_eol_less:
  assumes "ch \<noteq> Some NL" and "rest f \<noteq> []"
  shows "length (rest (to_eol ch f)) < length (rest f)"
proof -
  obtain ch1 g where gc: "get_char f = (ch1, g)" by fastforce
  then have "length (rest g) < length (rest f)"
    using assms(2) by (auto simp: get_char_def split: list.splits)
  moreover have "to_eol ch f = to_eol ch1 g"
    using assms gc by (subst to_eol.simps) (simp add: feof_def)
  ultimately show ?thesis using to_eol_length[of ch1 g] by simp
qed

lemma load_rest_less:
  assumes "load_rest getpwnam c pw e m fl ch f = (Inr (en, g), c')"
  shows "length (rest g) < length (rest (holding ch f))"
proof -
  obtain p ch1 f1 where u: "load_username getpwnam pw ch (unget_char ch f) = Inr (p, ch1, f1)"
    using assms by (auto simp: load_rest_def split: if_splits sum.splits)
  have r: "reads (holding ch f) f1"
    using load_username_reads[of "unget_char ch f" getpwnam pw ch] u
    by (simp add: stage_reads_def holding_def)
  obtain ch2 s f2 where s: "get_string MAX_COMMAND f1 [NL] = (ch2, s, f2)" by (metis prod_cases3)
  have "g = f2 \<and> ch2 \<noteq> None"
    using assms u s by (auto simp: load_rest_def split: if_splits prod.splits option.splits bool.splits)
  then show ?thesis using get_string_less s reads_length[OF r] by fastforce
qed

lemma load_body_less:
  assumes "load_body getpwnam c pw e fl ch f = (Inr (en, g), c')"
  shows "length (rest g) < length (rest (holding ch f))"
proof -
  let ?m0 = "replicate tbits_size 0"
  obtain m1 fl1 ch1 f1 where t: "(if ch = Some CHR ''@'' then load_special ?m0 fl f
        else load_times ?m0 fl ch f) = Inr (m1, fl1, ch1, f1)"
      and r: "load_rest getpwnam c pw e (sundays m1) fl1 ch1 f1 = (Inr (en, g), c')"
    using assms by (auto simp: load_body_def Let_def split: sum.splits)
  have "reads (holding ch f) (holding ch1 f1)"
  proof (cases "ch = Some CHR ''@''")
    case True
    then have "reads f (holding ch1 f1)"
      using load_special_reads[of f ?m0 fl] t by (simp add: stage_reads_def)
    then show ?thesis using reads_trans[OF holding_reads] by blast
  next
    case False
    then show ?thesis using load_times_reads[of ch f ?m0 fl] t by (simp add: stage_reads_def)
  qed
  then show ?thesis using load_rest_less[OF r] reads_length by fastforce
qed

text \<open>The end of \<open>load_entry\<close>, given what the stages before it did.\<close>

lemma finish_less:
  assumes "stage_reads h snd r" and "length (rest h) \<le> n" and "0 < n"
    and "\<And>en g. r = Inr (en, g) \<Longrightarrow> length (rest g) < n"
  shows "length (rest (snd (snd (case r of Inr (e, f) \<Rightarrow> (Inr e, c', f)
         | Inl (ec, ch, f) \<Rightarrow> (Inl ec, c', to_eol ch f))))) < n"
proof (cases r)
  case (Inr x)
  with assms(4) show ?thesis by (cases x) simp
next
  case (Inl x)
  obtain ec ch g where x: "x = (ec, ch, g)" by (metis prod_cases3)
  have g: "length (rest g) \<le> n" "ch = Some NL \<Longrightarrow> length (rest g) < n"
    using assms(1,2) Inl x reads_length[of h g] by (auto simp: stage_reads_def)
  have "length (rest (to_eol ch g)) < n"
  proof (cases "ch = Some NL \<or> rest g = []")
    case True
    then show ?thesis using g(2) assms(3) to_eol_length[of ch g] by auto
  next
    case False
    then show ?thesis using to_eol_less[of ch g] g(1) by simp
  qed
  with Inl x show ?thesis by simp
qed

text \<open>A call that finds a character consumes something, so a loop around it ends.\<close>

lemma load_entry_less:
  assumes "get_char (skip_comments f) = (Some c0, g)"
  shows "length (rest (snd (snd (load_entry getpwnam c f pw e)))) < length (rest f)"
proof -
  have r1: "reads f (holding (Some c0) g)"
    using reads_trans[OF skip_comments_reads get_char_holding[OF assms]] .
  have n0: "length (rest (holding (Some c0) g)) \<le> length (rest f)" using reads_length[OF r1] .
  then have n1: "length (rest g) < length (rest f)" by simp
  obtain ch1 h where gc1: "get_char g = (ch1, h)" by fastforce
  have n2: "length (rest (holding ch1 h)) < length (rest f)"
    using reads_length[OF get_char_holding[OF gc1]] n1 by simp
  have n: "0 < length (rest f)" using n1 by linarith
  have b: "length (rest (snd (snd (case fst (load_body getpwnam c pw e fl ch k) of
        Inr (e, f) \<Rightarrow> (Inr e, c', f) | Inl (ec, ch, f) \<Rightarrow> (Inl ec, c', to_eol ch f))))) < length (rest f)"
    if le: "length (rest (holding ch k)) \<le> length (rest f)" for fl ch k c'
  proof (rule finish_less[OF load_body_reads le n])
    fix en k'
    assume "fst (load_body getpwnam c pw e fl ch k) = Inr (en, k')"
    then have "load_body getpwnam c pw e fl ch k = (Inr (en, k'), snd (load_body getpwnam c pw e fl ch k))"
      by (simp add: prod_eq_iff)
    from load_body_less[OF this] le show "length (rest k') < length (rest f)" by simp
  qed
  show ?thesis
  proof (cases "c0 = CHR ''-''")
    case False
    with assms b[OF n0] show ?thesis by (simp add: load_entry_def split_beta Let_def)
  next
    case dash: True
    show ?thesis
    proof (cases "pw = None \<or> pw_uid (the pw) = 0")
      case False
      have "length (rest (to_eol (Some c0) g)) < length (rest f)"
        using to_eol_length[of "Some c0" g] n1 by simp
      with dash False assms show ?thesis by (auto simp: load_entry_def Let_def)
    next
      case True
      have "length (rest h) < length (rest f)"
        using n2 by (cases ch1) auto
      with dash True assms gc1 n2 b[of ch1 h] show ?thesis
        by (cases ch1) (auto simp: load_entry_def split_beta Let_def)
    qed
  qed
qed

interpretation le: reader
  "\<lambda>f. (\<lambda>(r, c', g). ((r, c'), g)) (load_entry getpwnam c f pw e)"
  by unfold_locales (simp add: load_entry_reads split_beta)

section \<open>The environment of an entry\<close>

abbreviation env_put :: "env \<Rightarrow> string \<Rightarrow> string \<Rightarrow> env" where
  "env_put e n v \<equiv> env_store e (glued n v CHR ''='')"

definition var_fits :: "string \<Rightarrow> string \<Rightarrow> bool" where
  "var_fits n v \<longleftrightarrow> length n + 1 + length v < MAX_ENVSTR \<and> valid_name n \<and> no_nul v"

lemma set_var_Some:
  assumes "var_fits n v" and "set_var n v c e = (Some e', c')"
  shows "e' = env_put e n v"
proof -
  have "glue_strings MAX_ENVSTR n v CHR ''='' = Some (glued n v CHR ''='')"
    using assms(1) by (simp add: glue_strings_spec var_fits_def glued_def)
  with assms(2) show ?thesis by (simp add: set_var_def env_set_Some)
qed

lemma default_var_Some:
  assumes "var_fits n v" and "default_var n v c e = (Some e', c')"
  shows "e' = (if env_get n e = None then env_put e n v else e)"
  using assms set_var_Some by (auto simp: default_var_def split: if_splits)

lemma env_seq_Cons_Some:
  assumes "env_seq (k # ks) c e = (Some e', c')"
  obtains e1 c1 where "k c e = (Some e1, c1)" "env_seq ks c1 e1 = (Some e', c')"
  using assms by (auto split: prod.splits option.splits)

definition entry_lookup :: "passwd \<Rightarrow> env \<Rightarrow> string \<Rightarrow> string option" where
  "entry_lookup pw e0 m =
     (if m = ''LOGNAME'' \<or> m = ''USER'' then Some (pw_name pw)
      else case env_get m e0 of
        Some v \<Rightarrow> Some v
      | None \<Rightarrow>
          if m = ''SHELL'' then Some PATH_BSHELL
          else if m = ''HOME'' then Some (pw_dir pw)
          else if m = ''PATH'' then Some PATH_DEFPATH
          else None)"

definition pw_fits :: "passwd \<Rightarrow> bool" where
  "pw_fits pw \<longleftrightarrow> pw_ok pw \<and> length (pw_name pw) + 8 < MAX_ENVSTR
     \<and> length (pw_dir pw) + 5 < MAX_ENVSTR"

lemma entry_vars_fit:
  assumes "pw_fits pw"
  shows "var_fits ''SHELL'' PATH_BSHELL" "var_fits ''HOME'' (pw_dir pw)"
    "var_fits ''PATH'' PATH_DEFPATH" "var_fits ''LOGNAME'' (pw_name pw)"
    "var_fits ''USER'' (pw_name pw)"
  using assms
  by (auto simp: var_fits_def pw_fits_def pw_ok_def valid_name_def PATH_BSHELL_def
      PATH_DEFPATH_def macro_defs)

lemma var_fitsD: "var_fits n v \<Longrightarrow> valid_name n" "var_fits n v \<Longrightarrow> no_nul v"
  by (auto simp: var_fits_def)

text \<open>A sequence of defaults and settings, and what it makes of the value of a name.\<close>

datatype var_op = Default string string | Override string string

fun run_op :: "var_op \<Rightarrow> ctx \<Rightarrow> env \<Rightarrow> env option \<times> ctx" where
  "run_op (Default n v) = default_var n v"
| "run_op (Override n v) = set_var n v"

fun op_value :: "string \<Rightarrow> var_op \<Rightarrow> string option \<Rightarrow> string option" where
  "op_value m (Default n v) old = (if m = n \<and> old = None then Some v else old)"
| "op_value m (Override n v) old = (if m = n then Some v else old)"

fun op_fits :: "var_op \<Rightarrow> bool" where
  "op_fits (Default n v) = var_fits n v"
| "op_fits (Override n v) = var_fits n v"

lemma run_op_lookup:
  assumes "run_op a c e = (Some e', c')" and "op_fits a" and "env_wf e"
  shows "env_wf e' \<and> (\<forall>m. valid_name m \<longrightarrow> env_get m e' = op_value m a (env_get m e))"
proof (cases a)
  case (Default n v)
  then have "e' = em.default_to e n v" "valid_name n" "no_nul v"
    using default_var_Some[of n v c e e' c'] assms var_fitsD[of n v] by auto
  then show ?thesis using Default assms(3) by (auto simp: em.wf_assign em.lookup_assign)
next
  case (Override n v)
  then have "e' = env_store e (glued n v CHR ''='')" "valid_name n" "no_nul v"
    using set_var_Some[of n v c e e' c'] assms var_fitsD[of n v] by auto
  then show ?thesis using Override assms(3) by (simp add: em.wf_assign em.lookup_assign)
qed

lemma env_seq_lookup:
  assumes "env_seq (map run_op as) c e = (Some e', c')" and "list_all op_fits as" and "env_wf e"
  shows "env_wf e' \<and> (\<forall>m. valid_name m \<longrightarrow> env_get m e' = fold (op_value m) as (env_get m e))"
  using assms
proof (induction as arbitrary: c e)
  case (Cons a as)
  obtain e1 c1 where "run_op a c e = (Some e1, c1)" "env_seq (map run_op as) c1 e1 = (Some e', c')"
    using Cons.prems(1) by (auto elim: env_seq_Cons_Some simp del: env_seq.simps)
  with Cons.IH[of c1 e1] run_op_lookup[of a c e e1 c1] Cons.prems(2,3) show ?case by auto
qed simp

lemma entry_env_lookup:
  assumes env: "env_wf e0" and pw: "pw_fits pw" and r: "entry_env c pw e0 = (Some e, c')"
  shows "env_wf e \<and> (\<forall>m. valid_name m \<longrightarrow> env_get m e = entry_lookup pw e0 m)"
proof -
  let ?ops = "[Default ''SHELL'' PATH_BSHELL, Default ''HOME'' (pw_dir pw), Default ''PATH'' PATH_DEFPATH,
      Override ''LOGNAME'' (pw_name pw), Override ''USER'' (pw_name pw)]"
  obtain c0 where "env_seq (map run_op ?ops) c0 e0 = (Some e, c')"
    using r by (auto simp: entry_env_def simp del: env_seq.simps dest: env_copy_Some split: prod.splits option.splits)
  moreover have "list_all op_fits ?ops" using entry_vars_fit[OF pw] by simp
  ultimately have l: "env_wf e" "valid_name m \<Longrightarrow> env_get m e = fold (op_value m) ?ops (env_get m e0)" for m
    using env_seq_lookup env by blast+
  have "fold (op_value m) ?ops (env_get m e0) = entry_lookup pw e0 m" for m
    by (auto simp: entry_lookup_def split: option.splits)
  with l show ?thesis by simp
qed

end
