(* ===== verification/CronSecurity.thy ===== *)
theory CronSecurity
  imports CronEntryReads
begin

text \<open>
  \<open>cronie-1.4.6/src/security.c\<close> as built with PAM and SELinux. The functions of the two libraries
  are fields of the records \<open>selinux\<close> and \<open>pam\<close> (the results of the calls); system calls that change the
  identity of the process succeed or fail as the argument \<open>sys\<close> says and act on the record \<open>creds\<close>.
  \<^const>\<open>None\<close> of an outermost option is a dereference of \<open>NULL\<close>.
\<close>

section \<open>Data\<close>

record user =
  user_name :: string
  tabname :: string
  mtime :: int
  crontab :: "entry list"
  scontext :: "string option"

record selinux =
  is_selinux_enabled :: int
  security_getenforce :: int
  getseuserbyname :: "string \<Rightarrow> (string \<times> string) option"
  get_default_context_with_level :: "string \<Rightarrow> string option \<Rightarrow> string option"
  fgetfilecon :: "string \<Rightarrow> string option"
  compute_av :: "string \<Rightarrow> string \<Rightarrow> string \<Rightarrow> 32 word option"
  context_new :: "string option \<Rightarrow> string option"
  context_range_set :: "string \<Rightarrow> string \<Rightarrow> string option"
  context_str :: "string \<Rightarrow> string option"
  setexeccon :: "string option \<Rightarrow> bool"
  setkeycreatecon :: "string option \<Rightarrow> bool"
  getprevcon :: "string option"

record pam =
  pam_start :: "string \<Rightarrow> int"
  pam_set_item :: int
  pam_acct_mgmt :: int
  pam_setcred :: int
  pam_open_session :: int
  pam_getenvlist :: env
  pam_strerror :: "int \<Rightarrow> string"

record creds =
  c_ruid :: int
  c_euid :: int
  c_gid :: int
  c_groups :: "string \<times> int"
  c_cwd :: string

definition log_msg :: "string \<Rightarrow> string \<Rightarrow> string \<Rightarrow> ctx \<Rightarrow> ctx" where
  "log_msg username event detail c = c\<lparr>logs := logs c @ [(username, event, detail)]\<rparr>"

text \<open>\<open>log_it\<close> prints a \<open>NULL\<close> name as glibc does.\<close>

definition name_or_null :: "string option \<Rightarrow> string" where
  "name_or_null n = (case n of None \<Rightarrow> ''(null)'' | Some s \<Rightarrow> s)"

definition FILE_ENTRYPOINT :: "32 word" where "FILE_ENTRYPOINT = 0x00040000"
definition CONTEXT_CONTAINS :: "32 word" where "CONTEXT_CONTAINS = 0x00000002"
definition PASSWD_CRONTAB :: "32 word" where "PASSWD_CRONTAB = 0x00000020"

section \<open>SELinux decisions\<close>

definition av_allows :: "selinux \<Rightarrow> string \<Rightarrow> string \<Rightarrow> string \<Rightarrow> 32 word \<Rightarrow> bool" where
  "av_allows se scon tcon cls b =
     (case compute_av se scon tcon cls of None \<Rightarrow> False | Some allowed \<Rightarrow> b AND allowed = b)"

definition cron_authorize_context :: "selinux \<Rightarrow> string \<Rightarrow> string \<Rightarrow> bool" where
  "cron_authorize_context se scon file_context = av_allows se scon file_context ''file'' FILE_ENTRYPOINT"

definition cron_authorize_range :: "selinux \<Rightarrow> string \<Rightarrow> string \<Rightarrow> bool" where
  "cron_authorize_range se scon ucontext = av_allows se scon ucontext ''context'' CONTEXT_CONTAINS"

text \<open>The status and \<open>*rcontext\<close>.\<close>

definition get_security_context ::
  "selinux \<Rightarrow> ctx \<Rightarrow> string option \<Rightarrow> string \<Rightarrow> (int \<times> string option) \<times> ctx" where
  "get_security_context se c name tab =
     (if is_selinux_enabled se \<le> 0 then ((0, None), c)
      else
        let enf = 0 < security_getenforce se; n = name_or_null name;
            go = (\<lambda>seuser level.
              case get_default_context_with_level se seuser level of
                None \<Rightarrow>
                  if enf then ((-1, None), log_msg n ''No SELinux security context'' tab c)
                  else ((0, None), log_msg n
                    ''No security context but SELinux in permissive mode, continuing'' tab c)
              | Some sc \<Rightarrow>
                  (case fgetfilecon se tab of
                     None \<Rightarrow>
                       if enf then ((-1, None), log_msg n ''getfilecon FAILED'' tab c)
                       else ((0, Some sc), log_msg n
                         ''getfilecon FAILED but SELinux in permissive mode, continuing'' tab c)
                   | Some fc \<Rightarrow>
                       if cron_authorize_context se sc fc then ((0, Some sc), c)
                       else if enf then ((-1, None), log_msg n ''Unauthorized SELinux context'' tab c)
                       else ((0, None), log_msg n
                         ''Unauthorized SELinux context, but SELinux in permissive mode, continuing'' tab c)))
        in case name of
             None \<Rightarrow> go ''system_u'' None
           | Some nm \<Rightarrow>
               (case getseuserbyname se nm of
                  None \<Rightarrow> ((if enf then 1 else 0, None), log_msg nm ''getseuserbyname FAILED'' nm c)
                | Some (seuser, level) \<Rightarrow> go seuser (Some level)))"

definition crontab_security_access :: "selinux \<Rightarrow> int" where
  "crontab_security_access se =
     (if 0 < is_selinux_enabled se then
        let chk = (case getprevcon se of
                     None \<Rightarrow> -1
                   | Some ucon \<Rightarrow> if av_allows se ucon ucon ''passwd'' PASSWD_CRONTAB then 0 else -1)
        in if chk \<noteq> 0 \<and> security_getenforce se = 0 then 0 else chk
      else 0)"

definition cron_get_job_range ::
  "selinux \<Rightarrow> ctx \<Rightarrow> user \<Rightarrow> env \<Rightarrow> (int \<times> string option) \<times> ctx" where
  "cron_get_job_range se c u jobenv =
     (if is_selinux_enabled se \<le> 0 then ((0, None), c)
      else case env_get ''MLS_LEVEL'' jobenv of
        Some rng \<Rightarrow>
          (case context_new se (scontext u) of
             None \<Rightarrow> ((-1, None), log_msg (user_name u) ''context_new FAILED for MLS_LEVEL'' rng c)
           | Some ccon \<Rightarrow>
               (case context_range_set se ccon rng of
                  None \<Rightarrow> ((-1, None), log_msg (user_name u) ''context_range_set FAILED for MLS_LEVEL'' rng c)
                | Some ccon' \<Rightarrow>
                    (case context_str se ccon' of
                       None \<Rightarrow> ((-1, None), log_msg (user_name u) ''context_str FAILED for MLS_LEVEL'' rng c)
                     | Some s \<Rightarrow>
                         (case alloc c of
                            (True, c1) \<Rightarrow> ((0, Some s), c1)
                          | (False, c1) \<Rightarrow>
                              ((-1, None), log_msg (user_name u) ''strdup FAILED for MLS_LEVEL'' rng c1)))))
      | None \<Rightarrow>
          (case scontext u of
             None \<Rightarrow> ((0, None), c)
           | Some s \<Rightarrow>
               (case alloc c of
                  (True, c1) \<Rightarrow> ((0, Some s), c1)
                | (False, c1) \<Rightarrow> ((-1, None), log_msg (user_name u) ''strdup FAILED for MLS_LEVEL'' ''(null)'' c1))))"

text \<open>The exec and key-creation contexts in force afterwards are the third component.\<close>

definition cron_change_selinux_range ::
  "selinux \<Rightarrow> ctx \<Rightarrow> user \<Rightarrow> string option \<Rightarrow> int \<times> ctx \<times> string option" where
  "cron_change_selinux_range se c u ucontext =
     (if is_selinux_enabled se \<le> 0 then (0, c, None)
      else
        let enf = 0 < security_getenforce se; nm = user_name u; uc = name_or_null ucontext;
            setcon = (\<lambda>c.
              if \<not> setexeccon se ucontext \<or> \<not> setkeycreatecon se ucontext then
                if enf then (-1, log_msg nm ''ERROR''
                    (''Could not set exec or keycreate context to '' @ uc @ '' for user'') c, None)
                else (0, log_msg nm ''WARNING''
                    (''Could not set exec or keycreate context to '' @ uc @
                      '' for user, but SELinux in permissive mode, continuing'') c, None)
              else (0, c, ucontext))
        in case scontext u of
             None \<Rightarrow>
               if enf then (-1, log_msg nm ''NULL security context for user'' [] c, None)
               else (0, log_msg nm
                 ''NULL security context for user, but SELinux in permissive mode, continuing'' [] c, None)
           | Some sc \<Rightarrow>
               if Some sc \<noteq> ucontext \<and> \<not> cron_authorize_range se sc uc then
                 if enf then (-1, log_msg nm ''ERROR''
                     (''Unauthorized range in '' @ uc @ '' for user range in '' @ sc) c, None)
                 else setcon (log_msg nm ''WARNING''
                     (''Unauthorized range in '' @ uc @ '' for user range in '' @ sc @
                       '', but SELinux in permissive mod, continuing'') c)
               else setcon c)"

section \<open>PAM and the identity of the process\<close>

text \<open>\<open>PAM_FAIL_CHECK\<close>: the first call that does not return \<open>PAM_SUCCESS\<close> ends the sequence.\<close>

fun first_failure :: "int list \<Rightarrow> int" where
  "first_failure [] = 0"
| "first_failure (r # rs) = (if r \<noteq> 0 then r else first_failure rs)"

definition cron_start_pam :: "pam \<Rightarrow> passwd \<Rightarrow> int" where
  "cron_start_pam p pw =
     first_failure [pam_start p (pw_name pw), pam_set_item p, pam_acct_mgmt p, pam_setcred p]"

text \<open>The return code and \<open>pam_session_opened\<close>.\<close>

definition cron_open_pam_session :: "pam \<Rightarrow> int \<times> bool" where
  "cron_open_pam_session p =
     (if pam_open_session p \<noteq> 0 then (pam_open_session p, False) else (0, True))"

definition cron_close_pam :: "bool \<Rightarrow> string list" where
  "cron_close_pam pam_session_opened =
     (if pam_session_opened then [''pam_setcred'', ''pam_close_session''] else []) @ [''pam_end'']"

definition cron_change_user :: "(string \<Rightarrow> bool) \<Rightarrow> ctx \<Rightarrow> passwd \<Rightarrow> creds \<Rightarrow> int \<times> ctx \<times> creds" where
  "cron_change_user sys c pw cr =
     (if \<not> sys ''setgid'' then (-1, log_msg ''CRON'' ''ERROR'' ''setgid failed'' c, cr)
      else
        let cr1 = cr\<lparr>c_gid := pw_gid pw\<rparr> in
        if \<not> sys ''initgroups'' then (-1, log_msg ''CRON'' ''ERROR'' ''initgroups failed'' c, cr1)
        else
          let cr2 = cr1\<lparr>c_groups := (pw_name pw, pw_gid pw)\<rparr> in
          if \<not> sys ''setreuid'' then (-1, log_msg ''CRON'' ''ERROR'' ''setreuid failed'' c, cr2)
          else (0, c, cr2\<lparr>c_ruid := pw_uid pw\<rparr>))"

definition cron_change_user_permanently ::
  "(string \<Rightarrow> bool) \<Rightarrow> ctx \<Rightarrow> passwd \<Rightarrow> string \<Rightarrow> creds \<Rightarrow> int \<times> ctx \<times> creds" where
  "cron_change_user_permanently sys c pw homedir cr =
     (if \<not> sys ''setreuid2'' then (-1, log_msg ''CRON'' ''ERROR'' ''setreuid failed'' c, cr)
      else
        let cr1 = cr\<lparr>c_ruid := pw_uid pw, c_euid := pw_uid pw\<rparr> in
        if \<not> sys ''chdir'' then (-1, log_msg ''CRON'' ''ERROR chdir failed'' homedir c, cr1)
        else (0, c, cr1\<lparr>c_cwd := homedir\<rparr>))"

fun build_env_loop :: "ctx \<Rightarrow> env \<Rightarrow> env \<Rightarrow> env option \<times> ctx" where
  "build_env_loop c jobenv [] = (Some jobenv, c)"
| "build_env_loop c jobenv (cronvar # vs) =
     (case env_set c jobenv cronvar of
        (None, c1) \<Rightarrow> (None, log_msg ''CRON'' ''Setting Cron environment variable failed'' cronvar c1)
      | (Some j, c1) \<Rightarrow> build_env_loop c1 j vs)"

text \<open>A failed \<open>env_copy\<close> is not checked: the first \<open>env_set\<close> then dereferences \<open>NULL\<close>.\<close>

definition build_env :: "pam \<Rightarrow> ctx \<Rightarrow> env \<Rightarrow> env option option \<times> ctx" where
  "build_env p c cronenv =
     (case env_copy c (pam_getenvlist p) of
        (None, c1) \<Rightarrow> (if cronenv = [] then Some None else None, c1)
      | (Some j, c1) \<Rightarrow> (case build_env_loop c1 j cronenv of (r, c2) \<Rightarrow> (Some r, c2)))"

text \<open>\<open>%.2u\<close>\<close>

definition dd :: "nat \<Rightarrow> string" where
  "dd n = (if n < 10 then [CHR ''0'', char_of (n + 48)] else [char_of (n div 10 mod 10 + 48), char_of (n mod 10 + 48)])"

definition delay_msg :: "nat \<times> nat \<Rightarrow> nat \<times> nat \<Rightarrow> string" where
  "delay_msg s n = ''Job execution of per-minute job scheduled for '' @ dd (fst s) @ '':'' @ dd (snd s) @
     '' delayed into subsequent minute '' @ dd (fst n) @ '':'' @ dd (snd n) @ ''. Skipping job run.''"

record job_security =
  js_status :: int
  js_env :: "env option"
  js_creds :: creds
  js_session :: bool
  js_excon :: "string option"

text \<open>\<open>t0\<close> and \<open>t1\<close> are the two readings of the clock; \<open>localtime\<close> gives hour and minute.\<close>

definition cron_set_job_security_context ::
  "selinux \<Rightarrow> pam \<Rightarrow> (string \<Rightarrow> bool) \<Rightarrow> (int \<Rightarrow> nat \<times> nat) \<Rightarrow> int \<Rightarrow> int \<Rightarrow> ctx \<Rightarrow> entry \<Rightarrow> user \<Rightarrow> creds \<Rightarrow>
     (job_security \<times> ctx) option" where
  "cron_set_job_security_context se p sys localtime t0 t1 c e u cr =
     (let minutely_time = (if flags e AND MIN_STAR = MIN_STAR then t0 else 0);
          nm = pw_name (pwd e);
          res = (\<lambda>st env cr sess con. \<lparr>js_status = st, js_env = env, js_creds = cr, js_session = sess, js_excon = con\<rparr>);
          ret = cron_start_pam p (pwd e)
      in
      if ret \<noteq> 0 then
        Some (res (-1) None cr False None,
          log_msg nm ''FAILED to authorize user with PAM'' (pam_strerror p ret) c)
      else case build_env p c (envp e) of
        (None, c1) \<Rightarrow> None
      | (Some jobenv, c1) \<Rightarrow>
          (case (if 0 < is_selinux_enabled se \<and> jobenv = None then None
                 else Some (cron_get_job_range se c1 u (case jobenv of None \<Rightarrow> [] | Some j \<Rightarrow> j))) of
             None \<Rightarrow> None
           | Some ((st, ucontext), c2) \<Rightarrow>
               if st < 0 then
                 Some (res (-1) jobenv cr False None, log_msg nm ''ERROR'' ''failed to get SELinux context'' c2)
               else
                 (case cron_change_selinux_range se c2 u ucontext of
                    (st2, c3, con) \<Rightarrow>
                      if st2 \<noteq> 0 then
                        Some (res (-1) jobenv cr False con, log_msg nm ''ERROR'' ''failed to change SELinux context'' c3)
                      else
                        (case cron_open_pam_session p of
                           (ret2, sess) \<Rightarrow>
                             if ret2 \<noteq> 0 then
                               Some (res (-1) jobenv cr sess con,
                                 log_msg nm ''FAILED to open PAM security session'' (pam_strerror p ret2) c3)
                             else
                               (case cron_change_user sys c3 (pwd e) cr of
                                  (st3, c4, cr1) \<Rightarrow>
                                    if st3 \<noteq> 0 then
                                      Some (res (-1) jobenv cr1 sess con, log_msg nm ''ERROR'' ''failed to change user'' c4)
                                    else if minutely_time > 0 \<and> t1 div 60 \<noteq> minutely_time div 60 then
                                      Some (res (-1) jobenv cr1 sess con,
                                        log_msg nm ''INFO'' (delay_msg (localtime minutely_time) (localtime t1)) c4)
                                    else Some (res 0 jobenv cr1 sess con, c4))))))"

section \<open>Properties\<close>

lemma build_env_loop_Some:
  "build_env_loop c j vs = (Some j', c') \<Longrightarrow> j' = foldl env_store j vs"
proof (induction vs arbitrary: c j)
  case (Cons v vs)
  obtain r c1 where s: "env_set c j v = (r, c1)" by fastforce
  with Cons show ?case by (cases r) (auto dest: env_set_Some)
qed simp

text \<open>A job starts only with the whole identity of its user: group and supplementary groups are set
  before the user id is given up.\<close>

lemma cron_change_user_ok:
  "cron_change_user sys c pw cr = (0, c', cr') \<Longrightarrow>
     c_gid cr' = pw_gid pw \<and> c_groups cr' = (pw_name pw, pw_gid pw) \<and> c_ruid cr' = pw_uid pw
     \<and> c_euid cr' = c_euid cr \<and> c' = c"
  by (auto simp: cron_change_user_def Let_def split: if_splits)

lemma job_security_ok:
  assumes "cron_set_job_security_context se p sys localtime t0 t1 c e u cr = Some (r, c')"
    and "js_status r = 0"
  shows "c_gid (js_creds r) = pw_gid (pwd e) \<and> c_groups (js_creds r) = (pw_name (pwd e), pw_gid (pwd e))
    \<and> c_ruid (js_creds r) = pw_uid (pwd e) \<and> js_session r \<and> cron_start_pam p (pwd e) = 0
    \<and> (flags e AND MIN_STAR = MIN_STAR \<and> 0 < t0 \<longrightarrow> t1 div 60 = t0 div 60)"
  using assms
  by (auto simp: cron_set_job_security_context_def Let_def cron_open_pam_session_def
      split: if_splits option.splits prod.splits dest: cron_change_user_ok)

text \<open>In enforcing mode a crontab is only read with a context its file is an entry point for.\<close>

lemma get_security_context_enforcing:
  assumes "get_security_context se c name tab = ((0, r), c')"
    and "0 < is_selinux_enabled se" and "0 < security_getenforce se"
  shows "\<exists>sc fc. r = Some sc \<and> fgetfilecon se tab = Some fc \<and> cron_authorize_context se sc fc"
  using assms
  by (auto simp: get_security_context_def Let_def split: option.splits if_splits prod.splits)
     (metis)+

end
