(* ===== verification/CronEntryTimes.thy ===== *)
theory CronEntryTimes
  imports CronEntryReads
begin

text \<open>
  The meaning of a time field. \<open>item\<close> is the abstract syntax of one element of a list
  (a number, a range or \<open>*\<close>, with an optional step), \<open>render\<close> its text and \<open>denote\<close> the set of
  values it stands for. \<open>get_list\<close> on a rendered list sets exactly the bits of its
  denotation; on any other input it changes no bit outside its field.
\<close>

section \<open>The loop over a range\<close>

lemma set_element_Some:
  "low \<le> v \<Longrightarrow> v \<le> high \<Longrightarrow> set_element m bits low high v = Some (bit_set m bits (nat (v - low)))"
  by (simp add: set_element_def)

lemma set_element_None: "\<not> (low \<le> v \<and> v \<le> high) \<Longrightarrow> set_element m bits low high v = None"
  by (auto simp: set_element_def)

text \<open>The loop ends within the fuel \<open>get_range\<close> gives, for every step but 0: a positive step moves
  up to the bound or overflows to a negative value, a negative one leaves the range below.\<close>

definition steps_left :: "int \<Rightarrow> int \<Rightarrow> int \<Rightarrow> int \<Rightarrow> nat" where
  "steps_left low high num3 i =
     (if i < low \<or> high < i then 1
      else if 0 < num3 then nat (high - i) + 2 else nat (i - low) + 2)"

lemma range_loop_returns_from:
  assumes "0 \<le> low" and "high < 2 ^ 30" and "num3 \<noteq> 0" and "- (2 ^ 31) \<le> num3" and "num3 < 2 ^ 31"
    and "steps_left low high num3 i \<le> n"
  shows "range_loop n m bits low high i num2 num3 \<noteq> None"
  using assms(6)
proof (induction n arbitrary: m i)
  case 0
  then show ?case by (auto simp: steps_left_def split: if_splits)
next
  case (Suc n)
  show ?case
  proof (cases "i \<le> num2 \<and> low \<le> i \<and> i \<le> high")
    case False
    then show ?thesis by (auto simp: set_element_def)
  next
    case True
    let ?j = "s32 (i + num3)"
    have "steps_left low high num3 ?j \<le> n"
    proof (cases "i + num3 < 2 ^ 31")
      case lt: True
      then have j: "?j = i + num3" using assms True by (intro s32_id) auto
      show ?thesis using Suc.prems True assms(3) by (auto simp: steps_left_def j split: if_splits)
    next
      case ge: False
      then have "?j = i + num3 - 2 ^ 32"
        using s32_period[of "i + num3 - 2 ^ 32"] s32_id[of "i + num3 - 2 ^ 32"] assms True by auto
      then have "?j < 0" using assms True by simp
      then show ?thesis using Suc.prems True assms by (auto simp: steps_left_def split: if_splits)
    qed
    then show ?thesis using Suc.IH True by (simp add: set_element_Some)
  qed
qed

lemma range_loop_returns:
  assumes "0 \<le> low" and "high < 2 ^ 30" and "num3 \<noteq> 0" and "- (2 ^ 31) \<le> num3" and "num3 < 2 ^ 31"
  shows "range_loop (range_fuel low high) m bits low high i num2 num3 \<noteq> None"
  by (rule range_loop_returns_from) (use assms in \<open>auto simp: steps_left_def range_fuel_def\<close>)

definition span :: "int \<Rightarrow> int \<Rightarrow> int \<Rightarrow> int set" where
  "span a b s = {v. a \<le> v \<and> v \<le> b \<and> s dvd v - a}"

lemma span_step:
  assumes "0 < s" and "a \<le> b"
  shows "span a b s = insert a (span (a + s) b s)"
proof -
  have "s dvd v - a \<longleftrightarrow> s dvd v - (a + s)" for v
  proof -
    have "v - a = (v - (a + s)) + s" by simp
    then show ?thesis by (metis dvd_add_left_iff dvd_refl)
  qed
  moreover have "a + s \<le> v" if "a \<le> v" "s dvd v - a" "v \<noteq> a" for v
    using that assms zdvd_imp_le[of s "v - a"] by auto
  ultimately show ?thesis using assms by (auto simp: span_def)
qed

lemma span_empty: "b < a \<Longrightarrow> span a b s = {}"
  by (auto simp: span_def)

text \<open>\<open>field_at m bits low S m'\<close>: \<open>m'\<close> is \<open>m\<close> with the bits of the values \<open>S\<close> set as well.\<close>

definition adds :: "bytes \<Rightarrow> nat \<Rightarrow> int \<Rightarrow> int set \<Rightarrow> bytes \<Rightarrow> bool" where
  "adds m bits low S m' \<longleftrightarrow>
     length m' = length m \<and>
     (\<forall>k. abit m' k \<longleftrightarrow> abit m k \<or> (\<exists>v \<in> S. k = 8 * bits + nat (v - low)))"

lemma adds_refl [simp]: "adds m bits low {} m"
  by (simp add: adds_def)

lemma adds_trans:
  "adds m bits low S m1 \<Longrightarrow> adds m1 bits low T m2 \<Longrightarrow> adds m bits low (S \<union> T) m2"
  by (auto simp: adds_def)

definition field_room :: "bytes \<Rightarrow> nat \<Rightarrow> int \<Rightarrow> int \<Rightarrow> bool" where
  "field_room m bits low high \<longleftrightarrow> bits + nat (high - low + 1) div 8 < length m"

lemma adds_bit_set:
  assumes "field_room m bits low high" and "low \<le> v" and "v \<le> high"
  shows "adds m bits low {v} (bit_set m bits (nat (v - low)))"
proof -
  have "nat (v - low) \<le> nat (high - low + 1)" using assms by simp
  then have "nat (v - low) div 8 \<le> nat (high - low + 1) div 8" by (rule div_le_mono)
  then have "bits + nat (v - low) div 8 < length m" using assms(1) by (simp add: field_room_def)
  then show ?thesis by (simp add: adds_def abit_bit_set)
qed

lemma adds_room: "adds m bits low S m' \<Longrightarrow> field_room m bits low high \<Longrightarrow> field_room m' bits low high"
  by (simp add: adds_def field_room_def)

lemma range_loop_span:
  assumes "field_room m bits low high" and "0 < s" and "0 \<le> low" and "low \<le> i"
    and "num2 \<le> high" and "high + s < 2 ^ 31" and "nat (num2 - i + 1) < n"
  shows "\<exists>m'. range_loop n m bits low high i num2 s = Some (True, m') \<and> adds m bits low (span i num2 s) m'"
  using assms(1,4,7)
proof (induction n arbitrary: m i)
  case 0
  then show ?case by simp
next
  case (Suc n)
  show ?case
  proof (cases "i \<le> num2")
    case False
    then show ?thesis by (simp add: span_empty)
  next
    case True
    let ?m = "bit_set m bits (nat (i - low))"
    have j: "s32 (i + s) = i + s" using True Suc.prems assms by (intro s32_id) auto
    have a: "adds m bits low {i} ?m" using adds_bit_set Suc.prems True assms by simp
    have "nat (num2 - (i + s) + 1) < n" using Suc.prems(3) True assms(2) by linarith
    then obtain m' where m': "range_loop n ?m bits low high (i + s) num2 s = Some (True, m')"
        "adds ?m bits low (span (i + s) num2 s) m'"
      using Suc.IH[of ?m "i + s"] adds_room[OF a Suc.prems(1)] Suc.prems(2,3) True assms(2) by auto
    have "adds m bits low (span i num2 s) m'"
      using adds_trans[OF a m'(2)] span_step[OF assms(2) True] by simp
    moreover have "range_loop (Suc n) m bits low high i num2 s = Some (True, m')"
      using True Suc.prems assms m'(1) by (simp add: set_element_Some j)
    ultimately show ?thesis by blast
  qed
qed

section \<open>Decimal numbers\<close>

fun dec :: "nat \<Rightarrow> string" where
  "dec n = (if n < 10 then [char_of (n + 48)] else dec (n div 10) @ [char_of (n mod 10 + 48)])"

declare dec.simps [simp del]

lemma char_of_digit:
  assumes "n < 10"
  shows "c_isdigit (char_of (n + 48))" "digit_val (char_of (n + 48)) = int n"
  using assms by (auto simp: ctype_simps digit_val_def ord_char_def)

lemma dec_digits: "list_all c_isdigit (dec n)"
proof (induction n rule: dec.induct)
  case (1 n)
  then show ?case by (subst dec.simps) (auto simp: char_of_digit)
qed

lemma dec_nonempty [simp]: "dec n \<noteq> []"
  by (subst dec.simps) simp

lemma digits_val_dec: "digits_val 0 (dec n) = int n"
proof (induction n rule: dec.induct)
  case (1 n)
  show ?case
  proof (cases "n < 10")
    case True
    then show ?thesis by (subst dec.simps) (simp add: char_of_digit)
  next
    case False
    then show ?thesis
      using 1 by (subst dec.simps) (simp add: digits_val_append char_of_digit zdiv_int zmod_int)
  qed
qed

lemma atoi_dec: "int n < 2 ^ 31 \<Longrightarrow> atoi (dec n) = int n"
  by (simp add: atoi_digits[OF dec_digits] digits_val_dec macro_defs min_def s32_id)

lemma dec_length: "n < 10 ^ k \<Longrightarrow> 0 < k \<Longrightarrow> length (dec n) \<le> k"
proof (induction k arbitrary: n)
  case (Suc k)
  show ?case
  proof (cases "n < 10")
    case True
    then show ?thesis by (subst dec.simps) simp
  next
    case False
    then have "k \<noteq> 0" using Suc.prems by (cases k) auto
    moreover have "n div 10 < 10 ^ k" using Suc.prems by simp
    ultimately have "length (dec (n div 10)) \<le> k" using Suc.IH by simp
    with False show ?thesis by (subst dec.simps) simp
  qed
qed simp

section \<open>Reading a run of characters\<close>

lemma get_char_Cons: "rest f = c # s \<Longrightarrow> \<exists>g. get_char f = (Some c, g) \<and> rest g = s"
  by (simp add: get_char_def)

lemma get_run_text:
  assumes "list_all p s" and "\<not> p d" and "len + length s + 1 < MAX_TEMPSTR" and "p c"
    and "rest f = s @ d # t"
  shows "\<exists>g. get_run p len (Some c) f = (True, c # s, Some d, g) \<and> rest g = t"
  using assms
proof (induction s arbitrary: len c f)
  case Nil
  then obtain g where g: "get_char f = (Some d, g)" "rest g = t" using get_char_Cons by fastforce
  have "get_run p (len + 1) (Some d) g = (True, [], Some d, g)"
    using Nil by (subst get_run.simps) simp
  with Nil g show ?case by (subst get_run.simps) simp
next
  case (Cons c' s)
  then obtain g where g: "get_char f = (Some c', g)" "rest g = s @ d # t"
    using get_char_Cons by fastforce
  have "\<exists>h. get_run p (len + 1) (Some c') g = (True, c' # s, Some d, h) \<and> rest h = t"
    using Cons.IH[of "len + 1" c' g] Cons.prems g(2) by simp
  with Cons.prems g show ?case by (subst get_run.simps) fastforce
qed

lemma get_run_stop: "\<not> p c \<Longrightarrow> get_run p len (Some c) f = (True, [], Some c, f)"
  by (subst get_run.simps) simp

text \<open>A number, read from its first digit on; names are not looked at.\<close>

lemma get_number_dec:
  assumes "int n < 2 ^ 31" and "\<not> c_isdigit d" and "strchr terms d"
    and "c # rest f = dec n @ d # t"
  shows "\<exists>g. get_number low names (Some c) f terms = (Some (int n, Some d), g) \<and> rest g = t"
proof -
  obtain s where s: "dec n = c # s" "rest f = s @ d # t"
    using assms(4) dec_nonempty[of n] by (cases "dec n") auto
  have dig: "c_isdigit c" "list_all c_isdigit s" using dec_digits[of n] s(1) by auto
  have "length (dec n) \<le> 10" using assms(1) by (intro dec_length) auto
  then have "0 + length s + 1 < MAX_TEMPSTR" using s(1) by (simp add: macro_defs)
  then obtain g where "get_run c_isdigit 0 (Some c) f = (True, dec n, Some d, g)" "rest g = t"
    using get_run_text[OF dig(2) assms(2) _ dig(1) s(2), of 0] s(1) by auto
  with assms(1,3) show ?thesis by (simp add: get_number_def term_in_def atoi_dec)
qed

section \<open>Items\<close>

datatype item = Num nat | Star "nat option" | Span nat nat "nat option"

fun render_step :: "nat option \<Rightarrow> string" where
  "render_step None = []"
| "render_step (Some s) = CHR ''/'' # dec s"

fun render :: "item \<Rightarrow> string" where
  "render (Num n) = dec n"
| "render (Star st) = CHR ''*'' # render_step st"
| "render (Span a b st) = dec a @ CHR ''-'' # dec b @ render_step st"

fun step_of :: "nat option \<Rightarrow> int" where
  "step_of None = 1"
| "step_of (Some s) = int s"

fun denote :: "int \<Rightarrow> int \<Rightarrow> item \<Rightarrow> int set" where
  "denote low high (Num n) = {int n}"
| "denote low high (Star st) = span low high (step_of st)"
| "denote low high (Span a b st) = span (int a) (int b) (step_of st)"

definition step_ok :: "int \<Rightarrow> nat option \<Rightarrow> bool" where
  "step_ok high st \<longleftrightarrow> 0 < step_of st \<and> high + step_of st < 2 ^ 31"

fun item_ok :: "int \<Rightarrow> int \<Rightarrow> item \<Rightarrow> bool" where
  "item_ok low high (Num n) \<longleftrightarrow> low \<le> int n \<and> int n \<le> high"
| "item_ok low high (Star st) \<longleftrightarrow> step_ok high st"
| "item_ok low high (Span a b st) \<longleftrightarrow>
     low \<le> int a \<and> a \<le> b \<and> int b \<le> high \<and> step_ok high st"

text \<open>The character after an item.\<close>

definition item_end :: "char \<Rightarrow> bool" where
  "item_end d \<longleftrightarrow> d = CHR '','' \<or> d = SP \<or> d = TAB \<or> d = NL"

lemma item_end_not_digit: "item_end d \<Longrightarrow> \<not> c_isdigit d \<and> d \<noteq> CHR ''/'' \<and> d \<noteq> CHR ''-''"
  by (auto simp: item_end_def ctype_simps ord_char_def)

lemma range_step_text:
  assumes room: "field_room m bits low high" and low: "0 \<le> low" "low \<le> num1" "num1 \<le> num2" "num2 \<le> high"
    and ok: "step_ok high st" and d: "item_end d"
    and inp: "ch # rest f = render_step st @ d # t"
  shows "\<exists>m' g. range_step m bits low high num1 num2 (Some ch) f = (Some d, m', g)
    \<and> rest g = t \<and> adds m bits low (span num1 num2 (step_of st)) m'"
proof -
  note nd = item_end_not_digit[OF d]
  have "nat (num2 - num1 + 1) < range_fuel low high" using low by (simp add: range_fuel_def)
  then obtain m' where m': "range_loop (range_fuel low high) m bits low high num1 num2 (step_of st) =
      Some (True, m')" "adds m bits low (span num1 num2 (step_of st)) m'"
    using range_loop_span[OF room _ low(1,2,4)] ok by (auto simp: step_ok_def)
  show ?thesis
  proof (cases st)
    case None
    with inp nd m' show ?thesis by (auto simp: range_step_def Let_def)
  next
    case (Some s)
    obtain c where c: "rest f = dec s @ d # t" "ch = CHR ''/''" "c = hd (dec s)"
      using inp Some by auto
    then have "rest f = c # tl (dec s) @ d # t" using dec_nonempty[of s] by (cases "dec s") auto
    then obtain g where g: "get_char f = (Some c, g)" "rest g = tl (dec s) @ d # t"
      using get_char_Cons by blast
    have "strchr [CHR '','', SP, TAB, NL] d" using d by (auto simp: strchr_def item_end_def)
    moreover have "c # rest g = dec s @ d # t" using c(3) g(2) dec_nonempty[of s] by (cases "dec s") auto
    moreover have "int s < 2 ^ 31" using ok Some low by (simp add: step_ok_def)
    ultimately obtain h where h: "get_number 0 None (Some c) g [CHR '','', SP, TAB, NL] =
        (Some (int s, Some d), h)" "rest h = t"
      using get_number_dec[of s d "[CHR '','', SP, TAB, NL]" c g t 0 None] nd by auto
    have "int s \<noteq> 0" using ok Some by (simp add: step_ok_def)
    then show ?thesis using c(2) Some g h m' by (auto simp: range_step_def Let_def)
  qed
qed

lemma get_range_num:
  assumes room: "field_room m bits low high" and low: "0 \<le> low" and high: "high < 2 ^ 30"
    and ok: "item_ok low high (Num n)" and d: "item_end d" and inp: "ch # rest f = render (Num n) @ d # t"
  shows "\<exists>m' g. get_range m bits low high names (Some ch) f = (Some d, m', g)
    \<and> rest g = t \<and> adds m bits low (denote low high (Num n)) m'"
proof -
  note nd = item_end_not_digit[OF d]
  have "strchr [CHR '','', CHR ''-'', SP, TAB, NL] d" using d by (auto simp: strchr_def item_end_def)
  then obtain g where g: "get_number low names (Some ch) f [CHR '','', CHR ''-'', SP, TAB, NL] =
      (Some (int n, Some d), g)" "rest g = t"
    using get_number_dec[of n d _ ch f t low names] nd inp ok high by auto
  have "ch \<noteq> CHR ''*''"
    using inp dec_digits[of n] dec_nonempty[of n] by (cases "dec n") (auto simp: ctype_simps ord_char_def)
  then show ?thesis using g nd ok adds_bit_set[OF room] by (simp add: get_range_def set_element_Some)
qed

lemma get_range_span:
  assumes room: "field_room m bits low high" and low: "0 \<le> low" and high: "high < 2 ^ 30"
    and ok: "item_ok low high (Span a b st)" and d: "item_end d" and inp: "ch # rest f = render (Span a b st) @ d # t"
  shows "\<exists>m' g. get_range m bits low high names (Some ch) f = (Some d, m', g)
    \<and> rest g = t \<and> adds m bits low (denote low high (Span a b st)) m'"
proof -
  note nd = item_end_not_digit[OF d]
  have ok': "low \<le> int a" "a \<le> b" "int b \<le> high" "step_ok high st" using ok by auto
  have dash: "\<not> c_isdigit CHR ''-''" "\<not> c_isdigit CHR ''/''" by (auto simp: ctype_simps ord_char_def)
  have "strchr [CHR '','', CHR ''-'', SP, TAB, NL] CHR ''-''" by (simp add: strchr_def)
  then obtain g where g: "get_number low names (Some ch) f [CHR '','', CHR ''-'', SP, TAB, NL] =
      (Some (int a, Some CHR ''-''), g)" "rest g = dec b @ render_step st @ d # t"
    using get_number_dec[of a "CHR ''-''" _ ch f _ low names] dash inp ok' high by auto
  obtain c u where cu: "dec b = c # u" using dec_nonempty by (cases "dec b") auto
  then obtain h where h: "get_char g = (Some c, h)" "rest h = u @ render_step st @ d # t"
    using get_char_Cons[of g] g(2) by auto
  obtain e v where ev: "render_step st @ d # t = e # v" by (cases "render_step st @ d # t") auto
  have e: "e = d \<or> e = CHR ''/''" using ev by (cases st) auto
  then have "strchr [CHR ''/'', CHR '','', SP, TAB, NL] e" using d by (auto simp: strchr_def item_end_def)
  then obtain k where k: "get_number low names (Some c) h [CHR ''/'', CHR '','', SP, TAB, NL] =
      (Some (int b, Some e), k)" "rest k = v"
    using get_number_dec[of b e _ c h v low names] nd dash e cu ev h(2) ok' high by auto
  have "ch \<noteq> CHR ''*''"
    using inp dec_digits[of a] dec_nonempty[of a] by (cases "dec a") (auto simp: ctype_simps ord_char_def)
  moreover have "e # rest k = render_step st @ d # t" using ev k(2) by simp
  note range_step_text[OF room low ok'(1) _ ok'(3,4) d this]
  ultimately show ?thesis using g h k ok' by (simp add: get_range_def)
qed

lemma get_range_text:
  assumes room: "field_room m bits low high" and low: "0 \<le> low" "low \<le> high" and high: "high < 2 ^ 30"
    and ok: "item_ok low high it" and d: "item_end d"
    and inp: "ch # rest f = render it @ d # t"
  shows "\<exists>m' g. get_range m bits low high names (Some ch) f = (Some d, m', g)
    \<and> rest g = t \<and> adds m bits low (denote low high it) m'"
proof (cases it)
  case (Star st)
  obtain c u where cu: "render_step st @ d # t = c # u" by (cases "render_step st @ d # t") auto
  then obtain g where g: "get_char f = (Some c, g)" "rest g = u"
    using get_char_Cons[of f c u] inp Star by auto
  have "c # rest g = render_step st @ d # t" using cu g(2) by simp
  from range_step_text[OF room low(1) order_refl low(2) order_refl _ d this]
  show ?thesis using Star ok inp g by (simp add: get_range_def)
next
  case (Num n)
  with get_range_num[OF room low(1) high _ d] ok inp show ?thesis by blast
next
  case (Span a b st)
  with get_range_span[OF room low(1) high _ d] ok inp show ?thesis by blast
qed

end
