(* ===== verification/CronEntryFields.thy ===== *)
theory CronEntryFields
  imports CronEntryTimes
begin

text \<open>
  Whole fields and whole lines. For any input the bits a field parser leaves stay in its
  field (\<open>get_list_sets\<close>); for a rendered list they are its denotation (\<open>get_list_text\<close>);
  \<open>load_times_text\<close> puts the five fields together.
\<close>

section \<open>Any input\<close>

lemma range_loop_adds:
  assumes "field_room m bits low high"
    and "range_loop n m bits low high i num2 num3 = Some (ok, m')"
  shows "\<exists>S \<subseteq> {low..high}. adds m bits low S m'"
  using assms
proof (induction n arbitrary: m i)
  case (Suc n)
  show ?case
  proof (cases "i \<le> num2 \<and> low \<le> i \<and> i \<le> high")
    case True
    let ?m = "bit_set m bits (nat (i - low))"
    have a: "adds m bits low {i} ?m" using adds_bit_set[OF Suc.prems(1)] True by simp
    have "range_loop n ?m bits low high (s32 (i + num3)) num2 num3 = Some (ok, m')"
      using Suc.prems(2) True by (simp add: set_element_Some)
    then obtain S where "S \<subseteq> {low..high}" "adds ?m bits low S m'"
      using Suc.IH[OF adds_room[OF a Suc.prems(1)]] by blast
    then have "{i} \<union> S \<subseteq> {low..high}" "adds m bits low ({i} \<union> S) m'"
      using True adds_trans[OF a] by auto
    then show ?thesis by blast
  next
    case False
    then have "m' = m" using Suc.prems(2) by (auto simp: set_element_def split: if_splits)
    then show ?thesis using adds_refl by blast
  qed
qed simp

lemma range_step_loop:
  assumes "range_step m bits low high num1 num2 ch f = (ch', m', g)"
  shows "m' = m \<or> (\<exists>num3 ok. range_loop (range_fuel low high) m bits low high num1 num2 num3 = Some (ok, m'))"
proof (cases "ch = Some CHR ''/''")
  case False
  with assms show ?thesis
    by (auto simp: range_step_def Let_def split: option.splits if_splits)
next
  case True
  obtain ch1 f1 where gc: "get_char f = (ch1, f1)" by fastforce
  obtain r h where n: "get_number 0 None ch1 f1 [CHR '','', SP, TAB, NL] = (r, h)" by fastforce
  show ?thesis
  proof (cases "ch1 = None \<or> r = None")
    case none: True
    with assms gc n True show ?thesis by (cases ch1) (auto simp: range_step_def)
  next
    case False
    then obtain num3 ch3 where "r = Some (num3, ch3)" by auto
    with assms gc n True False show ?thesis
      by (auto simp: range_step_def Let_def split: option.splits if_splits)
  qed
qed

lemma range_step_adds:
  assumes "field_room m bits low high"
    and "range_step m bits low high num1 num2 ch f = (ch', m', g)"
  shows "\<exists>S \<subseteq> {low..high}. adds m bits low S m'"
  using range_step_loop[OF assms(2)]
proof
  assume "m' = m"
  then have "adds m bits low {} m'" by simp
  then show ?thesis by blast
next
  assume "\<exists>num3 ok. range_loop (range_fuel low high) m bits low high num1 num2 num3 = Some (ok, m')"
  then show ?thesis using range_loop_adds[OF assms(1)] by auto
qed

lemma get_range_change:
  assumes "get_range m bits low high names ch f = (ch', m', g)"
  obtains "m' = m"
  | num1 num2 ch1 f1 ch2 f2 where "range_step m bits low high num1 num2 ch1 f1 = (ch2, m', f2)"
  | v where "set_element m bits low high v = Some m'"
proof (cases "ch = Some CHR ''*''")
  case True
  obtain ch1 f1 where "get_char f = (ch1, f1)" by fastforce
  with True assms that(1,2) show ?thesis by (cases ch1) (auto simp: get_range_def)
next
  case False
  obtain r h where n: "get_number low names ch f [CHR '','', CHR ''-'', SP, TAB, NL] = (r, h)" by fastforce
  show ?thesis
  proof (cases "\<exists>num1. r = Some (num1, Some CHR ''-'')")
    case nodash: False
    with False assms n that(1,3) show ?thesis
      by (auto simp: get_range_def split: option.splits)
  next
    case True
    then obtain num1 where r: "r = Some (num1, Some CHR ''-'')" by blast
    obtain ch2 k where gc: "get_char h = (ch2, k)" by fastforce
    obtain r' l where n': "get_number low names ch2 k [CHR ''/'', CHR '','', SP, TAB, NL] = (r', l)"
      by fastforce
    show ?thesis
      using False assms n r gc n' that(1,2)
      by (cases ch2; cases r') (auto simp: get_range_def split: if_splits)
  qed
qed

lemma get_range_adds:
  assumes "field_room m bits low high"
    and "get_range m bits low high names ch f = (ch', m', g)"
  shows "\<exists>S \<subseteq> {low..high}. adds m bits low S m'"
  using assms(2)
proof (cases rule: get_range_change)
  case 1
  then have "adds m bits low {} m'" by simp
  then show ?thesis by (intro exI[of _ "{}"]) simp
next
  case (2 num1 num2 ch1 f1 ch2 f2)
  then show ?thesis by (rule range_step_adds[OF assms(1)])
next
  case (3 v)
  then have v: "low \<le> v" "v \<le> high" "m' = bit_set m bits (nat (v - low))"
    by (auto simp: set_element_def split: if_splits)
  then have "adds m bits low {v} m'" using adds_bit_set[OF assms(1)] by simp
  then show ?thesis using v by (intro exI[of _ "{v}"]) simp
qed

lemma list_loop_adds:
  assumes "field_room m bits low high"
    and "list_loop m bits low high names ch f = (ch', m', g)"
  shows "\<exists>S \<subseteq> {low..high}. adds m bits low S m'"
  using assms
proof (induction m bits low high names ch f arbitrary: ch' m' g rule: list_loop.induct)
  case (1 m bits low high names ch f)
  obtain ch1 m1 f1 where r: "get_range m bits low high names ch f = (ch1, m1, f1)"
    by (metis prod_cases3)
  obtain S where S: "S \<subseteq> {low..high}" "adds m bits low S m1"
    using get_range_adds[OF "1.prems"(1) r] by blast
  obtain ch2 f2 where gc: "get_char f1 = (ch2, f2)" by fastforce
  show ?case
  proof (cases "ch1 = Some CHR '',''")
    case False
    then have "m' = m1" using "1.prems"(2) r by (subst (asm) list_loop.simps) simp
    with S show ?thesis by blast
  next
    case True
    then have "list_loop m1 bits low high names ch2 f2 = (ch', m', g)"
      using "1.prems"(2) r gc by (subst (asm) list_loop.simps) simp
    then have "\<exists>T \<subseteq> {low..high}. adds m1 bits low T m'"
      using "1.IH"[OF r[symmetric] refl True gc[symmetric] adds_room[OF S(2) "1.prems"(1)]] by simp
    then obtain T where "T \<subseteq> {low..high}" "adds m1 bits low T m'" by blast
    then have "S \<union> T \<subseteq> {low..high} \<and> adds m bits low (S \<union> T) m'"
      using S(1) adds_trans[OF S(2)] by simp
    then show ?thesis by blast
  qed
qed

text \<open>The field, with the one bit behind it that the range of \<open>bit_nclear\<close> includes, holds exactly
  \<open>S\<close>; all other bits are as before.\<close>

definition sets :: "bytes \<Rightarrow> nat \<Rightarrow> int \<Rightarrow> int \<Rightarrow> int set \<Rightarrow> bytes \<Rightarrow> bool" where
  "sets m bits low high S m' \<longleftrightarrow>
     length m' = length m \<and>
     (\<forall>k < 8 * length m. abit m' k \<longleftrightarrow>
        (if 8 * bits \<le> k \<and> k \<le> 8 * bits + nat (high - low + 1)
         then \<exists>v \<in> S. k = 8 * bits + nat (v - low) else abit m k))"

lemma clear_adds_sets:
  assumes "field_room m bits low high" and "S \<subseteq> {low..high}"
    and "adds (bit_nclear m bits 0 (nat (high - low + 1))) bits low S m'"
  shows "sets m bits low high S m'"
proof -
  have c: "abit (bit_nclear m bits 0 (nat (high - low + 1))) k \<longleftrightarrow>
      abit m k \<and> \<not> (8 * bits \<le> k \<and> k \<le> 8 * bits + nat (high - low + 1))"
    if "k < 8 * length m" for k
    using that assms(1) by (subst abit_bit_nclear) (auto simp: field_room_def)
  have "nat (v - low) \<le> nat (high - low + 1)" if "v \<in> S" for v
    using that assms(2) by force
  then show ?thesis
    using assms(3) by (auto simp: sets_def adds_def c)
qed

lemma field_room_nclear:
  "field_room m bits low high \<Longrightarrow> field_room (bit_nclear m bits a b) bits low high"
  by (simp add: field_room_def)

lemma get_list_sets:
  assumes "field_room m bits low high"
    and "get_list m bits low high names ch f = (ch', m', g)"
  shows "\<exists>S \<subseteq> {low..high}. sets m bits low high S m'"
proof -
  let ?m = "bit_nclear m bits 0 (nat (high - low + 1))"
  obtain ch1 m1 f1 where l: "list_loop ?m bits low high names ch f = (ch1, m1, f1)"
    by (metis prod_cases3)
  then have "m' = m1" using assms(2) by (auto simp: get_list_def split: option.splits prod.splits)
  then show ?thesis
    using list_loop_adds[OF field_room_nclear[OF assms(1)] l] clear_adds_sets[OF assms(1)] by blast
qed

section \<open>Rendered lists\<close>

fun render_list :: "item list \<Rightarrow> string" where
  "render_list [] = []"
| "render_list [it] = render it"
| "render_list (it # its) = render it @ CHR '','' # render_list its"

definition denotes :: "int \<Rightarrow> int \<Rightarrow> item list \<Rightarrow> int set" where
  "denotes low high its = (\<Union>it \<in> set its. denote low high it)"

lemma render_nonempty [simp]: "render it \<noteq> []"
  by (cases it) auto

lemma render_list_nonempty: "its \<noteq> [] \<Longrightarrow> render_list its \<noteq> []"
  by (cases its rule: render_list.cases) auto

lemma list_loop_text:
  assumes "field_room m bits low high" and "0 \<le> low" "low \<le> high" and "high < 2 ^ 30"
    and "its \<noteq> []" and "list_all (item_ok low high) its" and "b = SP \<or> b = TAB"
    and "ch # rest f = render_list its @ b # t"
  shows "\<exists>m' g. list_loop m bits low high names (Some ch) f = (Some b, m', g)
    \<and> rest g = t \<and> adds m bits low (denotes low high its) m'"
  using assms
proof (induction its arbitrary: m ch f rule: render_list.induct)
  case (2 it)
  have "item_end b" "b \<noteq> CHR '',''" using "2.prems"(7) by (auto simp: item_end_def)
  then show ?case
    using get_range_text[OF "2.prems"(1-4), of it b ch f t names] "2.prems"(6,8)
    by (auto simp: list_loop.simps[of m] denotes_def)
next
  case (3 it it' its)
  let ?r = "render_list (it' # its) @ b # t"
  have "item_end CHR '',''" by (simp add: item_end_def)
  then obtain m1 g where g: "get_range m bits low high names (Some ch) f = (Some CHR '','', m1, g)"
      "rest g = ?r" "adds m bits low (denote low high it) m1"
    using get_range_text[OF "3.prems"(1-4), of it "CHR '',''" ch f ?r names] "3.prems"(6,8) by auto
  obtain c u where cu: "?r = c # u" by (cases ?r) auto
  then obtain h where h: "get_char g = (Some c, h)" "rest h = u" using get_char_Cons g(2) by fastforce
  obtain m2 k where k: "list_loop m1 bits low high names (Some c) h = (Some b, m2, k)"
      "rest k = t" "adds m1 bits low (denotes low high (it' # its)) m2"
    using "3.IH"[OF adds_room[OF g(3) "3.prems"(1)] "3.prems"(2-4) _ _ "3.prems"(7), of c h]
      "3.prems"(6) cu h(2) by auto
  have "adds m bits low (denotes low high (it # it' # its)) m2"
    using adds_trans[OF g(3) k(3)] by (simp add: denotes_def)
  moreover have "list_loop m bits low high names (Some ch) f = (Some b, m2, k)"
    using g(1) h(1) k(1) by (subst list_loop.simps) simp
  ultimately show ?case using k(2) by blast
qed simp

definition blanks :: "string \<Rightarrow> bool" where
  "blanks s \<longleftrightarrow> list_all (\<lambda>c. c = TAB \<or> c = SP) s"

lemma skip_blanks_text:
  assumes "blanks sp" and "c \<noteq> TAB" "c \<noteq> SP" and "b # rest f = sp @ c # t"
  shows "\<exists>g. skip_blanks (Some b) f = (Some c, g) \<and> rest g = t"
proof -
  obtain ch g where s: "skip_blanks (Some b) f = (ch, g)" by fastforce
  have "dropWhile (\<lambda>c. c = TAB \<or> c = SP) (sp @ c # t) = c # t"
    using assms(1-3) by (induction sp) (auto simp: blanks_def)
  then have "rest (holding ch g) = c # t"
    using skip_while_spec[of "\<lambda>c. c = TAB \<or> c = SP" b f ch g] s assms(4)
    by (simp add: skip_blanks_def)
  moreover have "ch = None \<longrightarrow> rest g = []"
    using skip_while_spec[of "\<lambda>c. c = TAB \<or> c = SP" b f ch g] s unfolding skip_blanks_def by blast
  ultimately show ?thesis using s by (cases ch) auto
qed

lemma denote_bounds: "item_ok low high it \<Longrightarrow> denote low high it \<subseteq> {low..high}"
  by (cases it) (auto simp: span_def)

lemma get_list_text:
  assumes room: "field_room m bits low high" and low: "0 \<le> low" "low \<le> high" and high: "high < 2 ^ 30"
    and its: "its \<noteq> []" "list_all (item_ok low high) its"
    and sp: "blanks sp" "sp \<noteq> []" and c: "c \<noteq> TAB" "c \<noteq> SP"
    and inp: "ch # rest f = render_list its @ sp @ c # t"
  shows "\<exists>m' g. get_list m bits low high names (Some ch) f = (Some c, m', g)
    \<and> rest g = t \<and> sets m bits low high (denotes low high its) m'"
proof -
  let ?m = "bit_nclear m bits 0 (nat (high - low + 1))"
  obtain b sp' where b: "sp = b # sp'" "b = SP \<or> b = TAB" "blanks sp'"
    using sp by (cases sp) (auto simp: blanks_def)
  obtain m' g where g: "list_loop ?m bits low high names (Some ch) f = (Some b, m', g)"
      "rest g = sp' @ c # t" "adds ?m bits low (denotes low high its) m'"
    using list_loop_text[OF field_room_nclear[OF room] low high its b(2), of ch f "sp' @ c # t"]
      inp b(1) by (metis append_Cons)
  have nb: "skip_nonblanks (Some b) g = (Some b, g)"
    using b(2) by (auto simp: skip_nonblanks_def skip_while_Some)
  obtain h where h: "skip_blanks (Some b) g = (Some c, h)" "rest h = t"
    using skip_blanks_text[OF sp(1) c, of b g t] g(2) b(1) by auto
  have "denotes low high its \<subseteq> {low..high}"
    using its(2) denote_bounds by (fastforce simp: denotes_def list_all_iff)
  then have "sets m bits low high (denotes low high its) m'"
    using clear_adds_sets[OF room _ g(3)] by simp
  then show ?thesis using g(1) nb h by (auto simp: get_list_def)
qed

end
