(* ===== verification/CronEntryLine.thy ===== *)
theory CronEntryLine
  imports CronEntryFields
begin

text \<open>
  Whole entries: the values an entry's five fields hold, for a line written with
  \<open>render_line\<close> and for the \<open>@\<close> names; and the invariant \<open>entry_wf\<close> that every entry
  \<open>load_entry\<close> returns satisfies.
\<close>

section \<open>Fields as sets of values\<close>

definition field_values :: "bytes \<Rightarrow> nat \<Rightarrow> int \<Rightarrow> int \<Rightarrow> int set" where
  "field_values m bits low high = {v. low \<le> v \<and> v \<le> high \<and> bit_test m bits (nat (v - low))}"

abbreviation minutes :: "bytes \<Rightarrow> int set" where
  "minutes m \<equiv> field_values m minute_at FIRST_MINUTE LAST_MINUTE"
abbreviation hours :: "bytes \<Rightarrow> int set" where
  "hours m \<equiv> field_values m hour_at FIRST_HOUR LAST_HOUR"
abbreviation doms :: "bytes \<Rightarrow> int set" where
  "doms m \<equiv> field_values m dom_at FIRST_DOM LAST_DOM"
abbreviation months :: "bytes \<Rightarrow> int set" where
  "months m \<equiv> field_values m month_at FIRST_MONTH LAST_MONTH"
abbreviation dows :: "bytes \<Rightarrow> int set" where
  "dows m \<equiv> field_values m dow_at FIRST_DOW LAST_DOW"

lemma field_room_iff: "field_room m bits low high \<longleftrightarrow> bits + nat (high - low + 1) div 8 < length m"
  by (simp add: field_room_def)

lemma sets_field:
  assumes "sets m bits low high S m'" and "S \<subseteq> {low..high}" and "field_room m bits low high"
  shows "field_values m' bits low high = S"
proof -
  have "bit_test m' bits (nat (v - low)) \<longleftrightarrow> v \<in> S" if v: "low \<le> v" "v \<le> high" for v
  proof -
    let ?k = "8 * bits + nat (v - low)"
    have "nat (v - low) div 8 \<le> nat (high - low + 1) div 8" using v by (intro div_le_mono) auto
    then have "?k div 8 < length m" using assms(3) by (simp add: field_room_def)
    then have "?k < 8 * length m" by linarith
    moreover have "nat (v - low) \<le> nat (high - low + 1)" using v by simp
    ultimately have "abit m' ?k \<longleftrightarrow> (\<exists>u \<in> S. ?k = 8 * bits + nat (u - low))"
      using assms(1) by (simp add: sets_def)
    moreover have "nat (v - low) = nat (u - low) \<longleftrightarrow> v = u" if "u \<in> S" for u
      using that assms(2) v by force
    ultimately show ?thesis by (auto simp: bit_test_abit)
  qed
  then show ?thesis using assms(2) by (auto simp: field_values_def)
qed

text \<open>A later field leaves the values of an earlier one alone.\<close>

lemma sets_other_field:
  assumes "sets m bits low high S m'" and "8 * bits' + nat (high' - low') < 8 * bits"
    and "field_room m bits low high"
  shows "field_values m' bits' low' high' = field_values m bits' low' high'"
proof -
  have "bit_test m' bits' (nat (v - low')) \<longleftrightarrow> bit_test m bits' (nat (v - low'))"
    if "low' \<le> v" "v \<le> high'" for v
  proof -
    have "8 * bits' + nat (v - low') < 8 * bits" using that assms(2) by linarith
    moreover have "bits < length m" using assms(3) by (simp add: field_room_def)
    ultimately show ?thesis using assms(1) by (simp add: sets_def bit_test_abit)
  qed
  then show ?thesis by (auto simp: field_values_def)
qed

lemma rooms:
  assumes "length m = tbits_size"
  shows "field_room m minute_at FIRST_MINUTE LAST_MINUTE" "field_room m hour_at FIRST_HOUR LAST_HOUR"
    "field_room m dom_at FIRST_DOM LAST_DOM" "field_room m month_at FIRST_MONTH LAST_MONTH"
    "field_room m dow_at FIRST_DOW LAST_DOW"
  using assms by (simp_all add: field_room_def macro_defs)

text \<open>The five parsers in sequence.\<close>

definition five_sets :: "bytes \<Rightarrow> int set \<Rightarrow> int set \<Rightarrow> int set \<Rightarrow> int set \<Rightarrow> int set \<Rightarrow> bytes \<Rightarrow> bool" where
  "five_sets m S1 S2 S3 S4 S5 m5 \<longleftrightarrow>
     (\<exists>m1 m2 m3 m4. sets m minute_at FIRST_MINUTE LAST_MINUTE S1 m1
        \<and> sets m1 hour_at FIRST_HOUR LAST_HOUR S2 m2 \<and> sets m2 dom_at FIRST_DOM LAST_DOM S3 m3
        \<and> sets m3 month_at FIRST_MONTH LAST_MONTH S4 m4 \<and> sets m4 dow_at FIRST_DOW LAST_DOW S5 m5)"

definition five_ranges :: "int set \<Rightarrow> int set \<Rightarrow> int set \<Rightarrow> int set \<Rightarrow> int set \<Rightarrow> bool" where
  "five_ranges S1 S2 S3 S4 S5 \<longleftrightarrow> S1 \<subseteq> {FIRST_MINUTE..LAST_MINUTE} \<and> S2 \<subseteq> {FIRST_HOUR..LAST_HOUR}
     \<and> S3 \<subseteq> {FIRST_DOM..LAST_DOM} \<and> S4 \<subseteq> {FIRST_MONTH..LAST_MONTH} \<and> S5 \<subseteq> {FIRST_DOW..LAST_DOW}"

lemma sets_length: "sets m bits low high S m' \<Longrightarrow> length m' = length m"
  by (simp add: sets_def)

lemma five_sets_values:
  assumes "five_sets m S1 S2 S3 S4 S5 m5" and "length m = tbits_size" and "five_ranges S1 S2 S3 S4 S5"
  shows "length m5 = tbits_size" "minutes m5 = S1" "hours m5 = S2" "doms m5 = S3" "months m5 = S4"
    "dows m5 = S5"
proof -
  obtain m1 m2 m3 m4 where s: "sets m minute_at FIRST_MINUTE LAST_MINUTE S1 m1"
      "sets m1 hour_at FIRST_HOUR LAST_HOUR S2 m2" "sets m2 dom_at FIRST_DOM LAST_DOM S3 m3"
      "sets m3 month_at FIRST_MONTH LAST_MONTH S4 m4" "sets m4 dow_at FIRST_DOW LAST_DOW S5 m5"
    using assms(1) by (auto simp: five_sets_def)
  have l: "length m1 = tbits_size" "length m2 = tbits_size" "length m3 = tbits_size"
      "length m4 = tbits_size" "length m5 = tbits_size"
    using s[THEN sets_length] assms(2) by auto
  note r = rooms[OF assms(2)] rooms[OF l(1)] rooms[OF l(2)] rooms[OF l(3)] rooms[OF l(4)]
  note o2 = sets_other_field[OF s(2) _ r(7)] and o3 = sets_other_field[OF s(3) _ r(13)]
    and o4 = sets_other_field[OF s(4) _ r(19)] and o5 = sets_other_field[OF s(5) _ r(25)]
  show "length m5 = tbits_size" by (rule l(5))
  show "minutes m5 = S1"
    using o5 o4 o3 o2 sets_field[OF s(1) _ r(1)] assms(3) by (simp add: macro_defs five_ranges_def)
  show "hours m5 = S2"
    using o5 o4 o3 sets_field[OF s(2) _ r(7)] assms(3) by (simp add: macro_defs five_ranges_def)
  show "doms m5 = S3"
    using o5 o4 sets_field[OF s(3) _ r(13)] assms(3) by (simp add: macro_defs five_ranges_def)
  show "months m5 = S4"
    using o5 sets_field[OF s(4) _ r(19)] assms(3) by (simp add: macro_defs five_ranges_def)
  show "dows m5 = S5"
    using sets_field[OF s(5) _ r(25)] assms(3) by (simp add: macro_defs five_ranges_def)
qed

section \<open>A rendered line\<close>

record times =
  t_minute :: "item list"
  t_hour :: "item list"
  t_dom :: "item list"
  t_month :: "item list"
  t_dow :: "item list"

definition field_ok :: "int \<Rightarrow> int \<Rightarrow> item list \<Rightarrow> bool" where
  "field_ok low high its \<longleftrightarrow> its \<noteq> [] \<and> list_all (item_ok low high) its"

definition times_ok :: "times \<Rightarrow> bool" where
  "times_ok tm \<longleftrightarrow> field_ok FIRST_MINUTE LAST_MINUTE (t_minute tm)
     \<and> field_ok FIRST_HOUR LAST_HOUR (t_hour tm) \<and> field_ok FIRST_DOM LAST_DOM (t_dom tm)
     \<and> field_ok FIRST_MONTH LAST_MONTH (t_month tm) \<and> field_ok FIRST_DOW LAST_DOW (t_dow tm)"

definition render_times :: "times \<Rightarrow> string" where
  "render_times tm = render_list (t_minute tm) @ SP # render_list (t_hour tm) @ SP #
     render_list (t_dom tm) @ SP # render_list (t_month tm) @ SP # render_list (t_dow tm) @ [SP]"

fun star_first :: "item list \<Rightarrow> bool" where
  "star_first (Star _ # _) = True"
| "star_first _ = False"

definition time_flags :: "times \<Rightarrow> 32 word \<Rightarrow> 32 word" where
  "time_flags tm fl =
     (let f1 = (if star_first (t_minute tm) then fl OR MIN_STAR else fl);
          f2 = (if star_first (t_hour tm) then f1 OR HR_STAR else f1);
          f3 = (if star_first (t_dom tm) then f2 OR DOM_STAR else f2)
      in if star_first (t_dow tm) then f3 OR DOW_STAR else f3)"

lemma dec_hd: "\<exists>c s. dec n = c # s \<and> c_isdigit c"
  using dec_digits[of n] dec_nonempty[of n] by (cases "dec n") auto

lemma render_list_hd:
  assumes "field_ok low high its"
  obtains c s where "render_list its = c # s" "c = CHR ''*'' \<longleftrightarrow> star_first its"
    "c \<noteq> TAB" "c \<noteq> SP" "c \<noteq> CHR ''@''" "c \<noteq> CHR ''-''" "c \<noteq> NL" "c \<noteq> CHR ''#''"
proof -
  obtain it its' where its: "its = it # its'" using assms by (cases its) (auto simp: field_ok_def)
  have "\<exists>s'. render_list its = render it @ s'"
    by (cases its') (auto simp: its)
  then obtain s' where rl: "render_list its = render it @ s'" by blast
  have "\<exists>c s. render it = c # s \<and> (c = CHR ''*'' \<longleftrightarrow> star_first its) \<and>
      (c = CHR ''*'' \<or> c_isdigit c)"
  proof (cases it)
    case (Num n)
    then show ?thesis using dec_hd[of n] by (auto simp: its ctype_simps ord_char_def)
  next
    case (Span a b st)
    then show ?thesis using dec_hd[of a] by (auto simp: its ctype_simps ord_char_def)
  qed (auto simp: its)
  then obtain c s where c: "render it = c # s" "c = CHR ''*'' \<longleftrightarrow> star_first its"
      "c = CHR ''*'' \<or> c_isdigit c" by blast
  then have "c \<noteq> TAB" "c \<noteq> SP" "c \<noteq> CHR ''@''" "c \<noteq> CHR ''-''" "c \<noteq> NL" "c \<noteq> CHR ''#''"
    by (auto simp: ctype_simps ord_char_def)
  then show ?thesis using that[of c "s @ s'"] c(1,2) rl by simp
qed

lemma get_list_field:
  assumes "field_room m bits low high" and "0 \<le> low" "low \<le> high" and "high < 2 ^ 30"
    and "field_ok low high its" and "c \<noteq> TAB" "c \<noteq> SP"
    and "ch # rest f = render_list its @ SP # c # t"
  shows "\<exists>m' g. get_list m bits low high names (Some ch) f = (Some c, m', g)
    \<and> rest g = t \<and> sets m bits low high (denotes low high its) m'"
  using get_list_text[OF assms(1-4), of its "[SP]" c ch f t names] assms(5-)
  by (simp add: field_ok_def blanks_def)

lemma field_bounds:
  "0 \<le> FIRST_MINUTE" "FIRST_MINUTE \<le> LAST_MINUTE" "LAST_MINUTE < 2 ^ 30"
  "0 \<le> FIRST_HOUR" "FIRST_HOUR \<le> LAST_HOUR" "LAST_HOUR < 2 ^ 30"
  "0 \<le> FIRST_DOM" "FIRST_DOM \<le> LAST_DOM" "LAST_DOM < 2 ^ 30"
  "0 \<le> FIRST_MONTH" "FIRST_MONTH \<le> LAST_MONTH" "LAST_MONTH < 2 ^ 30"
  "0 \<le> FIRST_DOW" "FIRST_DOW \<le> LAST_DOW" "LAST_DOW < 2 ^ 30"
  by (simp_all add: macro_defs)

text \<open>One field of a line after the other: the list ends at the first character of the next field.\<close>

lemma field_first:
  assumes "field_ok low high its" and "c # s = render_list its @ t"
  shows "c = CHR ''*'' \<longleftrightarrow> star_first its" "c \<noteq> TAB" "c \<noteq> SP"
  using render_list_hd[OF assms(1)] assms(2) by (metis append_Cons list.inject)+

lemma get_list_next:
  assumes "field_room m bits low high" and "0 \<le> low" "low \<le> high" and "high < 2 ^ 30" and "field_ok low high its"
    and "field_ok low' high' its'" and "ch # rest f = render_list its @ SP # render_list its' @ t" and "length m = tbits_size"
  obtains c m' g where "get_list m bits low high names (Some ch) f = (Some c, m', g)" "c # rest g = render_list its' @ t"
    "sets m bits low high (denotes low high its) m'" "length m' = tbits_size"
proof -
  obtain c s where c: "render_list its' = c # s" "c \<noteq> TAB" "c \<noteq> SP" by (rule render_list_hd[OF assms(6)])
  then have "ch # rest f = render_list its @ SP # c # s @ t" using assms(7) by simp
  then obtain m' g where g: "get_list m bits low high names (Some ch) f = (Some c, m', g)" "rest g = s @ t"
      "sets m bits low high (denotes low high its) m'"
    using get_list_field[OF assms(1-5) c(2,3)] by blast
  show thesis by (rule that[OF g(1) _ g(3)]) (use g(2) c(1) sets_length[OF g(3)] assms(8) in simp_all)
qed

lemma load_times_text:
  assumes ok: "times_ok tm" and len: "length m = tbits_size" and c: "c \<noteq> TAB" "c \<noteq> SP"
    and inp: "ch # rest f = render_times tm @ c # t"
  shows "\<exists>m' g. load_times m fl (Some ch) f = Inr (m', time_flags tm fl, Some c, g) \<and> rest g = t
    \<and> five_sets m (denotes FIRST_MINUTE LAST_MINUTE (t_minute tm))
        (denotes FIRST_HOUR LAST_HOUR (t_hour tm)) (denotes FIRST_DOM LAST_DOM (t_dom tm))
        (denotes FIRST_MONTH LAST_MONTH (t_month tm)) (denotes FIRST_DOW LAST_DOW (t_dow tm)) m'"
proof -
  have oks: "field_ok FIRST_MINUTE LAST_MINUTE (t_minute tm)" "field_ok FIRST_HOUR LAST_HOUR (t_hour tm)"
      "field_ok FIRST_DOM LAST_DOM (t_dom tm)" "field_ok FIRST_MONTH LAST_MONTH (t_month tm)"
      "field_ok FIRST_DOW LAST_DOW (t_dow tm)"
    using ok by (simp_all add: times_ok_def)
  note i1 = inp[unfolded render_times_def append_assoc append_Cons append_Nil]
  obtain c1 m1 f1 where 1: "get_list m minute_at FIRST_MINUTE LAST_MINUTE None (Some ch) f = (Some c1, m1, f1)"
      "c1 # rest f1 = render_list (t_hour tm) @ SP # render_list (t_dom tm) @ SP # render_list (t_month tm) @ SP #
         render_list (t_dow tm) @ SP # c # t"
      "sets m minute_at FIRST_MINUTE LAST_MINUTE (denotes FIRST_MINUTE LAST_MINUTE (t_minute tm)) m1" "length m1 = tbits_size"
    by (rule get_list_next[OF rooms(1)[OF len] field_bounds(1-3) oks(1,2) i1 len])
  obtain c2 m2 f2 where 2: "get_list m1 hour_at FIRST_HOUR LAST_HOUR None (Some c1) f1 = (Some c2, m2, f2)"
      "c2 # rest f2 = render_list (t_dom tm) @ SP # render_list (t_month tm) @ SP # render_list (t_dow tm) @ SP # c # t"
      "sets m1 hour_at FIRST_HOUR LAST_HOUR (denotes FIRST_HOUR LAST_HOUR (t_hour tm)) m2" "length m2 = tbits_size"
    by (rule get_list_next[OF rooms(2)[OF 1(4)] field_bounds(4-6) oks(2,3) 1(2,4)])
  obtain c3 m3 f3 where 3: "get_list m2 dom_at FIRST_DOM LAST_DOM None (Some c2) f2 = (Some c3, m3, f3)"
      "c3 # rest f3 = render_list (t_month tm) @ SP # render_list (t_dow tm) @ SP # c # t"
      "sets m2 dom_at FIRST_DOM LAST_DOM (denotes FIRST_DOM LAST_DOM (t_dom tm)) m3" "length m3 = tbits_size"
    by (rule get_list_next[OF rooms(3)[OF 2(4)] field_bounds(7-9) oks(3,4) 2(2,4)])
  obtain c4 m4 f4 where 4: "get_list m3 month_at FIRST_MONTH LAST_MONTH (Some MonthNames) (Some c3) f3 = (Some c4, m4, f4)"
      "c4 # rest f4 = render_list (t_dow tm) @ SP # c # t"
      "sets m3 month_at FIRST_MONTH LAST_MONTH (denotes FIRST_MONTH LAST_MONTH (t_month tm)) m4" "length m4 = tbits_size"
    by (rule get_list_next[OF rooms(4)[OF 3(4)] field_bounds(10-12) oks(4,5) 3(2,4)])
  obtain m5 f5 where 5: "get_list m4 dow_at FIRST_DOW LAST_DOW (Some DowNames) (Some c4) f4 = (Some c, m5, f5)"
      "rest f5 = t" "sets m4 dow_at FIRST_DOW LAST_DOW (denotes FIRST_DOW LAST_DOW (t_dow tm)) m5"
    using get_list_field[OF rooms(5)[OF 4(4)] field_bounds(13-15) oks(5) c 4(2)] by blast
  note stars = field_first(1)[OF oks(1) i1] field_first(1)[OF oks(2) 1(2)] field_first(1)[OF oks(3) 2(2)]
    field_first(1)[OF oks(5) 4(2)]
  have "load_times m fl (Some ch) f = Inr (m5, time_flags tm fl, Some c, f5)"
    using 1(1) 2(1) 3(1) 4(1) 5(1) by (simp add: load_times_def star_def time_flags_def Let_def stars)
  then show ?thesis unfolding five_sets_def using 1(3) 2(3) 3(3) 4(3) 5(2,3) by blast
qed

section \<open>Sundays\<close>

lemma length_sundays [simp]: "length (sundays m) = length m"
  by (simp add: sundays_def)

lemma abit_sundays:
  assumes "length m = tbits_size"
  shows "abit (sundays m) k \<longleftrightarrow> abit m k \<or> ((k = 136 \<or> k = 143) \<and> (abit m 136 \<or> abit m 143))"
  using assms by (auto simp: sundays_def abit_bit_set bit_test_abit macro_defs)

lemma sundays_other:
  assumes "length m = tbits_size" and "8 * bits + nat (high - low) < 136"
  shows "field_values (sundays m) bits low high = field_values m bits low high"
proof -
  have "abit (sundays m) (8 * bits + nat (v - low)) = abit m (8 * bits + nat (v - low))"
    if "v \<le> high" for v
  proof -
    have "8 * bits + nat (v - low) < 136" using that assms(2) by linarith
    then show ?thesis unfolding abit_sundays[OF assms(1)] by auto
  qed
  then show ?thesis by (auto simp: field_values_def bit_test_abit)
qed

lemma sundays_fields:
  assumes "length m = tbits_size"
  shows "minutes (sundays m) = minutes m" "hours (sundays m) = hours m" "doms (sundays m) = doms m"
    "months (sundays m) = months m"
  using sundays_other[OF assms] by (simp_all add: macro_defs)

definition sunday_closure :: "int set \<Rightarrow> int set" where
  "sunday_closure S = (if 0 \<in> S \<or> 7 \<in> S then S \<union> {0, 7} else S)"

lemma sundays_dows:
  assumes "length m = tbits_size"
  shows "dows (sundays m) = sunday_closure (dows m)"
proof -
  have "bit_test (sundays m) dow_at (nat v) \<longleftrightarrow> v \<in> sunday_closure (dows m)"
    if "0 \<le> v" "v \<le> 7" for v
    using that abit_sundays[OF assms]
    by (auto simp: bit_test_abit sunday_closure_def field_values_def macro_defs)
  moreover have "sunday_closure (dows m) \<subseteq> {0..7}"
    by (auto simp: sunday_closure_def field_values_def macro_defs)
  ultimately show ?thesis by (auto simp: field_values_def macro_defs)
qed

section \<open>load_entry on a rendered line\<close>

lemma get_unget: "get_char f = (Some c, g) \<Longrightarrow> unget_char (Some c) g = f\<lparr>at_eof := False\<rparr>"
  by (cases f) (auto simp: get_char_def unget_char_def split: list.splits)

lemma skip_comments_entry:
  assumes "rest f = c # s" and "c \<noteq> TAB" "c \<noteq> SP" "c \<noteq> NL" "c \<noteq> CHR ''#''"
  shows "skip_comments f = f\<lparr>at_eof := False\<rparr>"
proof -
  obtain g where g: "get_char f = (Some c, g)" using get_char_Cons assms(1) by blast
  have "skip_blanks (Some c) g = (Some c, g)"
    using assms by (simp add: skip_blanks_def skip_while_Some)
  with assms g get_unget[OF g] show ?thesis by (subst skip_comments.simps) simp
qed

definition command_ok :: "string \<Rightarrow> bool" where
  "command_ok s \<longleftrightarrow> s \<noteq> [] \<and> hd s \<notin> {TAB, SP, CHR ''*''} \<and> NL \<notin> set s \<and> no_nul s
     \<and> length s < MAX_COMMAND"

lemma get_string_line:
  assumes "rest f = s @ NL # t" and "NL \<notin> set s" and "no_nul s" and "length s < sz"
  shows "\<exists>g. get_string sz f [NL] = (Some NL, s, g) \<and> rest g = t"
proof -
  obtain r s' g where g: "get_string sz f [NL] = (r, s', g)" by (metis prod_cases3)
  have "\<forall>c \<in> set s. \<not> strchr [NL] c" using assms(2,3) by (auto simp: strchr_def no_nul_def)
  then have "takeWhile (\<lambda>c. \<not> strchr [NL] c) (s @ NL # t) = s"
      "dropWhile (\<lambda>c. \<not> strchr [NL] c) (s @ NL # t) = NL # t"
    by (simp_all add: takeWhile_append2 dropWhile_append2 strchr_def)
  then show ?thesis using get_string_spec[OF g] assms g by auto
qed

lemma entry_env_no_alloc_failure:
  assumes "allocs c = []" and "pw_fits pw"
  shows "\<exists>e. entry_env c pw e0 = (Some e, c)"
proof -
  have set_ok: "\<exists>e'. set_var n v c e = (Some e', c)" if "var_fits n v" for n v e
    using that assms(1)
    by (auto simp: set_var_def env_set_no_alloc_failure glue_strings_spec var_fits_def glued_def)
  have default_ok: "\<exists>e'. default_var n v c e = (Some e', c)" if "var_fits n v" for n v e
    using set_ok[OF that] by (simp add: default_var_def)
  note fit = entry_vars_fit[OF assms(2)]
  obtain e1 where 1: "default_var ''SHELL'' PATH_BSHELL c e0 = (Some e1, c)" using default_ok fit by blast
  obtain e2 where 2: "default_var ''HOME'' (pw_dir pw) c e1 = (Some e2, c)" using default_ok fit by blast
  obtain e3 where 3: "default_var ''PATH'' PATH_DEFPATH c e2 = (Some e3, c)" using default_ok fit by blast
  obtain e4 where 4: "set_var ''LOGNAME'' (pw_name pw) c e3 = (Some e4, c)" using set_ok fit by blast
  obtain e5 where 5: "set_var ''USER'' (pw_name pw) c e4 = (Some e5, c)" using set_ok fit by blast
  show ?thesis
    using 1 2 3 4 5 by (simp add: entry_env_def env_copy_no_alloc_failure[OF assms(1)])
qed

lemma load_rest_user:
  assumes "allocs c = []" and "pw_fits p" and "command_ok (ch # s)" and "rest f = s @ NL # t"
  shows "\<exists>e g. load_rest getpwnam c (Some p) e0 m fl (Some ch) f =
      (Inr (\<lparr>pwd = p\<lparr>pw_passwd := []\<rparr>, envp = e, cmd = ch # s, tbits = m, flags = fl\<rparr>, g), c)
    \<and> rest g = t \<and> entry_env c p e0 = (Some e, c)"
proof -
  have "rest (unget_char (Some ch) f) = (ch # s) @ NL # t"
    using assms(4) by (simp add: unget_char_def)
  then obtain g where g: "get_string MAX_COMMAND (unget_char (Some ch) f) [NL] = (Some NL, ch # s, g)"
      "rest g = t"
    using get_string_line assms(3) unfolding command_ok_def by blast
  obtain e where "entry_env c p e0 = (Some e, c)" using entry_env_no_alloc_failure assms by blast
  with g assms show ?thesis
    by (auto simp: load_rest_def load_username_def pw_dup_no_alloc_failure pw_fits_def command_ok_def)
qed

lemma denotes_ranges:
  assumes "times_ok tm"
  shows "five_ranges (denotes FIRST_MINUTE LAST_MINUTE (t_minute tm))
        (denotes FIRST_HOUR LAST_HOUR (t_hour tm)) (denotes FIRST_DOM LAST_DOM (t_dom tm))
        (denotes FIRST_MONTH LAST_MONTH (t_month tm)) (denotes FIRST_DOW LAST_DOW (t_dow tm))"
proof -
  have "denotes low high its \<subseteq> {low..high}" if "field_ok low high its" for low high its
    using that denote_bounds by (fastforce simp: denotes_def field_ok_def list_all_iff)
  then show ?thesis using assms by (simp add: five_ranges_def times_ok_def)
qed

definition entry_times :: "entry \<Rightarrow> times \<Rightarrow> bool" where
  "entry_times e tm \<longleftrightarrow>
     minutes (tbits e) = denotes FIRST_MINUTE LAST_MINUTE (t_minute tm)
   \<and> hours (tbits e) = denotes FIRST_HOUR LAST_HOUR (t_hour tm)
   \<and> doms (tbits e) = denotes FIRST_DOM LAST_DOM (t_dom tm)
   \<and> months (tbits e) = denotes FIRST_MONTH LAST_MONTH (t_month tm)
   \<and> dows (tbits e) = sunday_closure (denotes FIRST_DOW LAST_DOW (t_dow tm))"

text \<open>The five fields are read whatever follows them; the rest of the line is left to \<open>load_rest\<close>.\<close>

lemma load_entry_fields:
  assumes ok: "times_ok tm" and inp: "rest f = render_times tm @ d # u" and d: "d \<noteq> TAB" "d \<noteq> SP"
  obtains m h where "rest h = u"
    "\<And>getpwnam c pw e0. load_entry getpwnam c f pw e0 =
      (case load_rest getpwnam c pw e0 m (time_flags tm 0) (Some d) h of
         (Inr (e, k), c') \<Rightarrow> (Inr e, c', k) | (Inl (ec, ch, k), c') \<Rightarrow> (Inl ec, c', to_eol ch k))"
    "\<And>e. tbits e = m \<Longrightarrow> entry_times e tm"
proof -
  obtain c0 s0 where c0: "render_list (t_minute tm) = c0 # s0" "c0 \<noteq> TAB" "c0 \<noteq> SP" "c0 \<noteq> CHR ''@''"
      "c0 \<noteq> CHR ''-''" "c0 \<noteq> NL" "c0 \<noteq> CHR ''#''"
    using ok render_list_hd unfolding times_ok_def by metis
  obtain T where T: "rest f = c0 # T" using inp c0(1) by (auto simp: render_times_def)
  have sk: "skip_comments f = f\<lparr>at_eof := False\<rparr>" using skip_comments_entry[OF T c0(2,3,6,7)] .
  obtain g where g: "get_char (skip_comments f) = (Some c0, g)" "rest g = T"
    using get_char_Cons[of "skip_comments f" c0 T] T sk by auto
  let ?m0 = "replicate tbits_size 0 :: bytes"
  have len: "length ?m0 = tbits_size" by simp
  have "c0 # rest g = render_times tm @ d # u" using g(2) T inp by simp
  then obtain m h where h: "load_times ?m0 0 (Some c0) g = Inr (m, time_flags tm 0, Some d, h)"
      "rest h = u"
      "five_sets ?m0 (denotes FIRST_MINUTE LAST_MINUTE (t_minute tm))
        (denotes FIRST_HOUR LAST_HOUR (t_hour tm)) (denotes FIRST_DOM LAST_DOM (t_dom tm))
        (denotes FIRST_MONTH LAST_MONTH (t_month tm)) (denotes FIRST_DOW LAST_DOW (t_dow tm)) m"
    using load_times_text[OF ok len d] by blast
  note v = five_sets_values[OF h(3) len denotes_ranges[OF ok]]
  have e: "entry_times e tm" if "tbits e = sundays m" for e
    using v that sundays_fields[OF v(1)] sundays_dows[OF v(1)] by (simp add: entry_times_def)
  show thesis
    by (rule that[OF h(2) _ e])
       (use g(1) c0(4,5) h(1) in \<open>simp_all add: load_entry_def load_body_def split: prod.splits sum.splits\<close>)
qed

lemma load_entry_text:
  assumes ok: "times_ok tm" and al: "allocs c = []" and pw: "pw_fits p" and cm: "command_ok s"
    and inp: "rest f = render_times tm @ s @ NL # t"
  shows "\<exists>e g. load_entry getpwnam c f (Some p) e0 = (Inr e, c, g) \<and> rest g = t
    \<and> entry_times e tm \<and> flags e = time_flags tm 0 \<and> cmd e = s
    \<and> pwd e = p\<lparr>pw_passwd := []\<rparr> \<and> entry_env c p e0 = (Some (envp e), c)"
proof -
  obtain d u where s: "s = d # u" "d \<noteq> TAB" "d \<noteq> SP" using cm by (cases s) (auto simp: command_ok_def)
  have inp': "rest f = render_times tm @ d # (u @ NL # t)" using inp s(1) by simp
  obtain m h where h: "rest h = u @ NL # t"
      "\<And>getpwnam c pw e0. load_entry getpwnam c f pw e0 =
        (case load_rest getpwnam c pw e0 m (time_flags tm 0) (Some d) h of
           (Inr (e, k), c') \<Rightarrow> (Inr e, c', k) | (Inl (ec, ch, k), c') \<Rightarrow> (Inl ec, c', to_eol ch k))"
      "\<And>e. tbits e = m \<Longrightarrow> entry_times e tm"
    by (rule load_entry_fields[OF ok inp' s(2,3)]) (rule that)
  obtain e k where "load_rest getpwnam c (Some p) e0 m (time_flags tm 0) (Some d) h =
      (Inr (\<lparr>pwd = p\<lparr>pw_passwd := []\<rparr>, envp = e, cmd = d # u, tbits = m, flags = time_flags tm 0\<rparr>, k), c)"
      "rest k = t" "entry_env c p e0 = (Some e, c)"
    using load_rest_user[OF al pw cm[unfolded s(1)] h(1)] by blast
  then show ?thesis using h(3) s(1) by (simp add: h(2))
qed

text \<open>A line of a system crontab names the user before the command.\<close>

definition username_ok :: "string \<Rightarrow> bool" where
  "username_ok s \<longleftrightarrow> s \<noteq> [] \<and> hd s \<noteq> CHR ''*'' \<and> set s \<inter> {SP, TAB, NL} = {} \<and> no_nul s \<and> length s < MAX_COMMAND"

lemma get_string_word:
  assumes "rest f = s @ SP # t" and "set s \<inter> {SP, TAB, NL} = {}" and "no_nul s" and "length s < sz"
  shows "\<exists>g. get_string sz f [SP, TAB, NL] = (Some SP, s, g) \<and> rest g = t"
proof -
  obtain r s' g where g: "get_string sz f [SP, TAB, NL] = (r, s', g)" by (metis prod_cases3)
  have "\<forall>c \<in> set s. \<not> strchr [SP, TAB, NL] c" using assms(2,3) by (auto simp: strchr_def no_nul_def)
  then have "takeWhile (\<lambda>c. \<not> strchr [SP, TAB, NL] c) (s @ SP # t) = s"
      "dropWhile (\<lambda>c. \<not> strchr [SP, TAB, NL] c) (s @ SP # t) = SP # t"
    by (simp_all add: takeWhile_append2 dropWhile_append2 strchr_def)
  then show ?thesis using get_string_spec[OF g] assms g by auto
qed

lemma load_entry_system:
  assumes ok: "times_ok tm" and al: "allocs c = []" and un: "username_ok n" and gp: "getpwnam n = Some p" and pw: "pw_fits p"
    and cm: "NL \<notin> set s" "no_nul s" "length s < MAX_COMMAND"
    and inp: "rest f = render_times tm @ n @ SP # s @ NL # t"
  shows "\<exists>e g. load_entry getpwnam c f None e0 = (Inr e, c, g) \<and> rest g = t
    \<and> entry_times e tm \<and> flags e = time_flags tm 0 \<and> cmd e = s
    \<and> pwd e = p\<lparr>pw_passwd := []\<rparr> \<and> entry_env c p e0 = (Some (envp e), c)"
proof -
  obtain d u where n: "n = d # u" "d \<noteq> TAB" "d \<noteq> SP" "d \<noteq> NL" "d \<noteq> CHR ''*''" using un by (cases n) (auto simp: username_ok_def)
  have inp': "rest f = render_times tm @ d # (u @ SP # s @ NL # t)" using inp n(1) by simp
  obtain m h where h: "rest h = u @ SP # s @ NL # t"
      "\<And>getpwnam c pw e0. load_entry getpwnam c f pw e0 =
        (case load_rest getpwnam c pw e0 m (time_flags tm 0) (Some d) h of
           (Inr (e, k), c') \<Rightarrow> (Inr e, c', k) | (Inl (ec, ch, k), c') \<Rightarrow> (Inl ec, c', to_eol ch k))"
      "\<And>e. tbits e = m \<Longrightarrow> entry_times e tm"
    by (rule load_entry_fields[OF ok inp' n(2,3)]) (rule that)
  have r: "rest (unget_char (Some d) h) = n @ SP # s @ NL # t" using h(1) n(1) by (simp add: unget_char_def)
  have w: "set n \<inter> {SP, TAB, NL} = {}" "no_nul n" "length n < MAX_COMMAND" using un by (simp_all add: username_ok_def)
  obtain g1 where g1: "get_string MAX_COMMAND (unget_char (Some d) h) [SP, TAB, NL] = (Some SP, n, g1)"
      "rest g1 = s @ NL # t"
    using get_string_word[OF r w] by blast
  obtain g2 where g2: "get_string MAX_COMMAND g1 [NL] = (Some NL, s, g2)" "rest g2 = t"
    using get_string_line[OF g1(2) cm] by blast
  obtain e where e: "entry_env c p e0 = (Some e, c)" using entry_env_no_alloc_failure al pw by blast
  have "load_rest getpwnam c None e0 m (time_flags tm 0) (Some d) h =
      (Inr (\<lparr>pwd = p\<lparr>pw_passwd := []\<rparr>, envp = e, cmd = s, tbits = m, flags = time_flags tm 0\<rparr>, g2), c)"
    using al pw g1(1) g2(1) e gp n(4,5)
    by (simp add: load_rest_def load_username_def pw_dup_no_alloc_failure pw_fits_def)
  with h(3) g2(2) e show ?thesis by (simp add: h(2))
qed

section \<open>The invariant of an entry\<close>

definition in_fields :: "nat \<Rightarrow> bool" where
  "in_fields k \<longleftrightarrow> k < 60 \<or> (64 \<le> k \<and> k < 88) \<or> (88 \<le> k \<and> k < 119) \<or> (120 \<le> k \<and> k < 132)
     \<or> (136 \<le> k \<and> k < 144)"

text \<open>The bits behind \<open>dom\<close>, \<open>month\<close> and \<open>dow\<close> that the \<open>bit_nset\<close> calls of the \<open>@\<close> names set too: spare
  bits of the last byte of \<open>dom\<close> and \<open>month\<close>, and the first padding byte.\<close>

definition spare :: "nat \<Rightarrow> bool" where
  "spare k \<longleftrightarrow> k = 119 \<or> k = 132 \<or> k = 144"

definition entry_wf :: "entry \<Rightarrow> bool" where
  "entry_wf e \<longleftrightarrow> length (tbits e) = tbits_size
     \<and> (\<forall>k < 8 * tbits_size. abit (tbits e) k \<longrightarrow> in_fields k \<or> spare k)
     \<and> (0 \<in> dows (tbits e) \<longleftrightarrow> 7 \<in> dows (tbits e))
     \<and> NL \<notin> set (cmd e) \<and> no_nul (cmd e) \<and> length (cmd e) < MAX_COMMAND
     \<and> pw_passwd (pwd e) = []"

definition bits_ok :: "bytes \<Rightarrow> bool" where
  "bits_ok m \<longleftrightarrow> length m = tbits_size \<and> (\<forall>k < 8 * tbits_size. abit m k \<longrightarrow> in_fields k \<or> spare k)"

lemma sets_bits_ok:
  assumes "bits_ok m" and "sets m bits low high S m'" and "S \<subseteq> {low..high}"
    and "\<And>v. v \<in> {low..high} \<Longrightarrow> in_fields (8 * bits + nat (v - low))"
  shows "bits_ok m'"
  using assms(1,2) assms(3)[THEN subsetD] assms(4)
  by (fastforce simp: bits_ok_def sets_def split: if_splits)

lemma get_list_bits_ok:
  assumes "get_list m bits low high names ch f = (ch', m', g)" and "bits_ok m"
    and "field_room m bits low high"
    and "\<And>v. v \<in> {low..high} \<Longrightarrow> in_fields (8 * bits + nat (v - low))"
  shows "bits_ok m'"
  using get_list_sets[OF assms(3,1)] sets_bits_ok[OF assms(2)] assms(4) by blast

lemma fields_in:
  "v \<in> {FIRST_MINUTE..LAST_MINUTE} \<Longrightarrow> in_fields (8 * minute_at + nat (v - FIRST_MINUTE))"
  "v \<in> {FIRST_HOUR..LAST_HOUR} \<Longrightarrow> in_fields (8 * hour_at + nat (v - FIRST_HOUR))"
  "v \<in> {FIRST_DOM..LAST_DOM} \<Longrightarrow> in_fields (8 * dom_at + nat (v - FIRST_DOM))"
  "v \<in> {FIRST_MONTH..LAST_MONTH} \<Longrightarrow> in_fields (8 * month_at + nat (v - FIRST_MONTH))"
  "v \<in> {FIRST_DOW..LAST_DOW} \<Longrightarrow> in_fields (8 * dow_at + nat (v - FIRST_DOW))"
  by (auto simp: in_fields_def macro_defs)

lemma bits_ok_length: "bits_ok m \<Longrightarrow> length m = tbits_size"
  by (simp add: bits_ok_def)

lemma load_times_bits_ok:
  assumes "load_times m fl ch f = Inr (m', fl', ch', g)" and m: "bits_ok m"
  shows "bits_ok m'"
proof -
  obtain ch1 m1 f1 where l1: "get_list m minute_at FIRST_MINUTE LAST_MINUTE None ch f = (ch1, m1, f1)"
    by (metis prod_cases3)
  obtain ch2 m2 f2 where l2: "get_list m1 hour_at FIRST_HOUR LAST_HOUR None ch1 f1 = (ch2, m2, f2)"
    by (metis prod_cases3)
  obtain ch3 m3 f3 where l3: "get_list m2 dom_at FIRST_DOM LAST_DOM None ch2 f2 = (ch3, m3, f3)"
    by (metis prod_cases3)
  obtain ch4 m4 f4 where l4: "get_list m3 month_at FIRST_MONTH LAST_MONTH (Some MonthNames) ch3 f3 =
      (ch4, m4, f4)" by (metis prod_cases3)
  obtain ch5 m5 f5 where l5: "get_list m4 dow_at FIRST_DOW LAST_DOW (Some DowNames) ch4 f4 =
      (ch5, m5, f5)" by (metis prod_cases3)
  note b1 = get_list_bits_ok[OF l1 m rooms(1)[OF bits_ok_length[OF m]] fields_in(1)]
  note b2 = get_list_bits_ok[OF l2 b1 rooms(2)[OF bits_ok_length[OF b1]] fields_in(2)]
  note b3 = get_list_bits_ok[OF l3 b2 rooms(3)[OF bits_ok_length[OF b2]] fields_in(3)]
  note b4 = get_list_bits_ok[OF l4 b3 rooms(4)[OF bits_ok_length[OF b3]] fields_in(4)]
  note b5 = get_list_bits_ok[OF l5 b4 rooms(5)[OF bits_ok_length[OF b4]] fields_in(5)]
  have "m' = m5"
    using assms(1) l1 l2 l3 l4 l5 by (auto simp: load_times_def Let_def split: if_splits)
  with b5 show ?thesis by simp
qed

lemma bit_set_bits_ok:
  assumes "bits_ok m" and "8 * bits + b < 160" and "in_fields (8 * bits + b)"
  shows "bits_ok (bit_set m bits b)"
proof -
  have "bits + b div 8 < length m" using assms(1,2) by (simp add: bits_ok_def macro_defs)
  then show ?thesis using assms by (auto simp: bits_ok_def abit_bit_set)
qed

lemma bit_nset_bits_ok:
  assumes "bits_ok m" and "8 * bits + b < 160"
    and "\<forall>k. 8 * bits \<le> k \<and> k \<le> 8 * bits + b \<longrightarrow> in_fields k \<or> spare k"
  shows "bits_ok (bit_nset m bits 0 b)"
proof -
  have "bits + b div 8 < length m" using assms(1,2) by (simp add: bits_ok_def macro_defs)
  then have "abit (bit_nset m bits 0 b) k \<longleftrightarrow> abit m k \<or> (8 * bits \<le> k \<and> k \<le> 8 * bits + b)"
    if "k < 8 * tbits_size" for k
    using that assms(1) by (subst abit_bit_nset) (auto simp: bits_ok_def)
  then show ?thesis using assms by (auto simp: bits_ok_def)
qed

lemma special_bits_ok:
  assumes "special_bits s m fl = Some (m', fl')" and "bits_ok m"
  shows "bits_ok m'"
proof -
  have set0: "bits_ok m \<Longrightarrow> bits_ok (bit_set m minute_at 0)" "bits_ok m \<Longrightarrow> bits_ok (bit_set m hour_at 0)"
    "bits_ok m \<Longrightarrow> bits_ok (bit_set m dom_at 0)" "bits_ok m \<Longrightarrow> bits_ok (bit_set m month_at 0)"
    "bits_ok m \<Longrightarrow> bits_ok (bit_set m dow_at 0)" for m
    by (rule bit_set_bits_ok; simp add: macro_defs in_fields_def)+
  have all: "bits_ok m \<Longrightarrow> bits_ok (bit_nset m dow_at 0 (nat (LAST_DOW - FIRST_DOW + 1)))"
    "bits_ok m \<Longrightarrow> bits_ok (bit_nset m dom_at 0 (nat (LAST_DOM - FIRST_DOM + 1)))"
    "bits_ok m \<Longrightarrow> bits_ok (bit_nset m month_at 0 (nat (LAST_MONTH - FIRST_MONTH + 1)))"
    "bits_ok m \<Longrightarrow> bits_ok (bit_nset m hour_at 0 (nat (LAST_HOUR - FIRST_HOUR + 1)))" for m
    by (rule bit_nset_bits_ok; auto simp add: macro_defs in_fields_def spare_def)+
  have "Some (x, y) = Some (m', fl') \<Longrightarrow> bits_ok x \<Longrightarrow> bits_ok m'" for x y by simp
  note hit = this
  show ?thesis
    using assms(1) unfolding special_bits_def Let_def
    by (simp only: split: if_split_asm)
       (rule hit, assumption, intro set0 all assms(2) | simp only: option.distinct(1))+
qed

lemma zero_bits_ok: "bits_ok (replicate tbits_size 0)"
proof -
  have "\<not> abit (replicate tbits_size 0) k" if "k < 8 * tbits_size" for k
    using that by (simp add: abit_def nth_replicate div_less_iff_less_mult)
  then show ?thesis by (simp add: bits_ok_def)
qed

lemma load_special_bits_ok:
  assumes "load_special m fl f = Inr (m', fl', ch', g)" and "bits_ok m"
  shows "bits_ok m'"
  using assms special_bits_ok
  by (fastforce simp: load_special_def split: prod.splits option.splits if_splits)

lemma sundays_bits_ok: "bits_ok m \<Longrightarrow> bits_ok (sundays m)"
  by (auto simp: bits_ok_def abit_sundays in_fields_def)

lemma load_rest_wf:
  assumes "load_rest getpwnam c pw e0 (sundays m) fl ch f = (Inr (e, g), c')" and "bits_ok m"
  shows "entry_wf e"
proof -
  have e: "pw_passwd (pwd e) = []" "tbits e = sundays m"
    and ex: "\<exists>f1 ch2 f2. get_string MAX_COMMAND f1 [NL] = (ch2, cmd e, f2)"
    using assms(1)
    by (auto simp: load_rest_def split: if_splits sum.splits prod.splits option.splits bool.splits) blast
  define s where "s = cmd e"
  obtain f1 ch2 f2 where g: "get_string MAX_COMMAND f1 [NL] = (ch2, s, f2)" using ex s_def by blast
  have "NL \<notin> set s"
    using get_string_spec[OF g] by (auto simp: strchr_def dest!: in_set_takeD set_takeWhileD)
  moreover have "no_nul s" using get_string_no_nul[OF g] .
  moreover have "length s < MAX_COMMAND" using get_string_length[OF g] by (simp add: macro_defs)
  moreover have "bits_ok (sundays m)" using sundays_bits_ok[OF assms(2)] .
  moreover have "0 \<in> dows (sundays m) \<longleftrightarrow> 7 \<in> dows (sundays m)"
    using sundays_dows[OF bits_ok_length[OF assms(2)]] by (simp add: sunday_closure_def)
  ultimately show ?thesis by (simp add: entry_wf_def e s_def bits_ok_def)
qed

lemma load_body_wf:
  assumes "load_body getpwnam c pw e0 fl ch f = (Inr (e, g), c')"
  shows "entry_wf e"
proof -
  let ?m0 = "replicate tbits_size 0"
  obtain m1 fl1 ch1 f1 where t: "(if ch = Some CHR ''@'' then load_special ?m0 fl f
        else load_times ?m0 fl ch f) = Inr (m1, fl1, ch1, f1)"
      and r: "load_rest getpwnam c pw e0 (sundays m1) fl1 ch1 f1 = (Inr (e, g), c')"
    using assms by (auto simp: load_body_def Let_def split: sum.splits)
  have "bits_ok m1"
    using t load_special_bits_ok[OF _ zero_bits_ok] load_times_bits_ok[OF _ zero_bits_ok]
    by (auto split: if_splits)
  then show ?thesis using load_rest_wf[OF r] by blast
qed

lemma load_entry_body:
  assumes "load_entry getpwnam c f pw e0 = (Inr e, c', g)"
  obtains fl ch f1 where "load_body getpwnam c pw e0 fl ch f1 = (Inr (e, g), c')"
proof -
  have "\<exists>fl ch f1. load_body getpwnam c pw e0 fl ch f1 = (Inr (e, g), c')"
    using assms
    by (auto simp: load_entry_def Let_def split: prod.splits option.splits if_splits sum.splits)
  with that show ?thesis by blast
qed

lemma load_entry_wf:
  "load_entry getpwnam c f pw e0 = (Inr e, c', g) \<Longrightarrow> entry_wf e"
  by (erule load_entry_body) (rule load_body_wf)

section \<open>The special names\<close>

text \<open>What the manual page says the names stand for: the five fields.\<close>

definition special_fields :: "string \<Rightarrow> (int set \<times> int set \<times> int set \<times> int set \<times> int set) option" where
  "special_fields s =
     (if s = ''yearly'' \<or> s = ''annually'' then Some ({0}, {0}, {1}, {1}, {0..7})
      else if s = ''monthly'' then Some ({0}, {0}, {1}, {1..12}, {0..7})
      else if s = ''weekly'' then Some ({0}, {0}, {1..31}, {1..12}, {0})
      else if s = ''daily'' \<or> s = ''midnight'' then Some ({0}, {0}, {1..31}, {1..12}, {0..7})
      else if s = ''hourly'' then Some ({0}, {0..23}, {1..31}, {1..12}, {0..7})
      else None)"

definition fields_of :: "bytes \<Rightarrow> int set \<times> int set \<times> int set \<times> int set \<times> int set" where
  "fields_of m = (minutes m, hours m, doms m, months m, dows m)"

lemma field_bit_set:
  assumes "length m = tbits_size" and "8 * at + b < 160" and "8 * bits + nat (high - low) < 160"
  shows "field_values (bit_set m at b) bits low high =
    field_values m bits low high \<union> {v. low \<le> v \<and> v \<le> high \<and> 8 * bits + nat (v - low) = 8 * at + b}"
proof -
  have "at + b div 8 < length m" using assms(1,2) by (simp add: macro_defs)
  then show ?thesis by (auto simp: field_values_def bit_test_abit abit_bit_set)
qed

lemma field_bit_nset:
  assumes "length m = tbits_size" and "8 * at + b < 160" and "8 * bits + nat (high - low) < 160"
  shows "field_values (bit_nset m at 0 b) bits low high =
    field_values m bits low high \<union>
      {v. low \<le> v \<and> v \<le> high \<and> 8 * at \<le> 8 * bits + nat (v - low) \<and> 8 * bits + nat (v - low) \<le> 8 * at + b}"
proof -
  have "at + b div 8 < length m" using assms(1,2) by (simp add: macro_defs)
  moreover have "8 * bits + nat (v - low) < 8 * length m" if "v \<le> high" for v
    using that assms(1,3) by (simp add: macro_defs)
  ultimately show ?thesis by (auto simp: field_values_def bit_test_abit abit_bit_nset)
qed

lemma field_zero:
  assumes "8 * bits + nat (high - low) < 160"
  shows "field_values (replicate tbits_size 0) bits low high = {}"
proof -
  have "\<not> abit (replicate tbits_size 0) (8 * bits + nat (v - low))" if "v \<le> high" for v
  proof -
    have "8 * bits + nat (v - low) < 160" using that assms by linarith
    then show ?thesis by (simp add: abit_def macro_defs nth_replicate)
  qed
  then show ?thesis by (auto simp: field_values_def bit_test_abit)
qed

lemmas field_ops = field_bit_set field_bit_nset field_zero

lemma special_values:
  defines "z \<equiv> replicate tbits_size 0 :: bytes"
  shows "fields_of z = ({}, {}, {}, {}, {})"
    and "fields_of (bit_nset (bit_set (bit_set (bit_set (bit_set z minute_at 0) hour_at 0)
        dom_at 0) month_at 0) dow_at 0 8) = ({0}, {0}, {1}, {1}, {0..7})"
    and "fields_of (bit_nset (bit_nset (bit_set (bit_set (bit_set z minute_at 0) hour_at 0)
        dom_at 0) month_at 0 12) dow_at 0 8) = ({0}, {0}, {1}, {1..12}, {0..7})"
    and "fields_of (bit_set (bit_nset (bit_nset (bit_set (bit_set z minute_at 0) hour_at 0)
        dom_at 0 31) month_at 0 12) dow_at 0) = ({0}, {0}, {1..31}, {1..12}, {0})"
    and "fields_of (bit_nset (bit_nset (bit_nset (bit_set (bit_set z minute_at 0) hour_at 0)
        dom_at 0 31) month_at 0 12) dow_at 0 8) = ({0}, {0}, {1..31}, {1..12}, {0..7})"
    and "fields_of (bit_nset (bit_nset (bit_nset (bit_nset (bit_set z minute_at 0)
        hour_at 0 24) dom_at 0 31) month_at 0 12) dow_at 0 8) = ({0}, {0..23}, {1..31}, {1..12}, {0..7})"
  unfolding fields_of_def prod.inject z_def
  by (intro conjI; (subst field_ops | simp add: macro_defs | force simp: macro_defs)+)+

text \<open>The number of bits each \<open>bit_nset\<close> of the special names covers.\<close>

lemma special_counts:
  "nat (LAST_DOW - FIRST_DOW + 1) = 8" "nat (LAST_DOM - FIRST_DOM + 1) = 31"
  "nat (LAST_MONTH - FIRST_MONTH + 1) = 12" "nat (LAST_HOUR - FIRST_HOUR + 1) = 24"
  by (simp_all add: macro_defs)

lemma special_bits_spec:
  "case special_fields s of
     Some v \<Rightarrow> (\<exists>m fl'. special_bits s (replicate tbits_size 0) fl = Some (m, fl') \<and> fields_of m = v)
   | None \<Rightarrow> special_bits s (replicate tbits_size 0) fl =
       (if s = ''reboot'' then Some (replicate tbits_size 0, fl OR WHEN_REBOOT) else None)"
proof -
  note defs = special_bits_def special_fields_def special_counts special_values Let_def
  consider "s = ''reboot''" | "s = ''yearly''" | "s = ''annually''" | "s = ''monthly''" | "s = ''weekly''"
    | "s = ''daily''" | "s = ''midnight''" | "s = ''hourly''"
    | (other) "s \<noteq> ''reboot''" "s \<noteq> ''yearly''" "s \<noteq> ''annually''" "s \<noteq> ''monthly''" "s \<noteq> ''weekly''"
      "s \<noteq> ''daily''" "s \<noteq> ''midnight''" "s \<noteq> ''hourly''" by blast
  then show ?thesis
  proof cases
    case other
    then show ?thesis unfolding special_bits_def special_fields_def Let_def by (simp only: simp_thms if_False option.case)
  qed (simp_all add: defs)
qed

end
