(* ===== verification/CronUser.thy ===== *)
theory CronUser
  imports CronSecurity CronEntryLine
begin

text \<open>
  \<open>cronie-1.4.6/src/user.c\<close>: \<open>load_user\<close> reads a whole crontab, alternating between \<open>load_env\<close> and
  \<open>load_entry\<close>. The list of entries is a stack: each new entry goes to the front.
\<close>

section \<open>load_user\<close>

definition log_error :: "string \<Rightarrow> string \<Rightarrow> ctx \<Rightarrow> ctx" where
  "log_error fname msg c = log_msg ''CRON'' msg fname c"

lemma load_env_stream:
  assumes "load_env envstr f = Some (st, envstr', g)" and "st \<noteq> ENV_ERR"
  shows "(st = ENV_TRUE \<and> length (rest g) < length (rest f))
    \<or> (st = ENV_FALSE \<and> (length (rest g) < length (rest f)
        \<or> (rest g = rest f \<and> (\<exists>c h. get_char (skip_comments g) = (Some c, h)))))"
proof -
  obtain r s h where l: "env_line f = (r, s, h)" by (metis prod_cases3)
  then have gs: "get_string MAX_ENVSTR (skip_comments f) [NL] = (r, s, h)" by (simp add: env_line_def)
  have some: "r \<noteq> None" using assms gs by (cases r) (auto simp: load_env_def Let_def)
  then obtain c where c: "r = Some c" by blast
  have "length (rest h) < length (rest (skip_comments f))" using get_string_less gs c by blast
  then have less: "length (rest h) < length (rest f)"
    using reads_length[OF skip_comments_reads[of f]] by simp
  have "rest (skip_comments f) \<noteq> []" using get_string_spec[OF gs] c by (auto split: list.splits)
  then have ne: "rest (skip_comments g) \<noteq> []" if "rest g = rest f" for g
    using skip_comments_cong[OF that] by simp
  have ex: "\<exists>c h. get_char (skip_comments g) = (Some c, h)" if "rest g = rest f" for g
    using ne[OF that] by (auto simp: get_char_def split: list.splits)
  show ?thesis
    using assms gs c less ex
    by (auto simp: load_env_def Let_def split: option.splits if_splits)
qed

text \<open>
  The loop \<open>while ((status = load_env(envstr, file)) >= OK)\<close>. \<open>FALSE\<close> and \<open>OK\<close> are the same number, so
  \<open>ERR\<close> ends the loop and \<open>case ERR\<close> of the \<open>switch\<close> is never taken. The inner option is \<open>u\<close>
  (\<^const>\<open>None\<close> when \<open>env_set\<close> fails), the outer one the over-read of \<open>load_env\<close>.
\<close>

function load_loop ::
  "(string \<Rightarrow> passwd option) \<Rightarrow> ctx \<Rightarrow> passwd option \<Rightarrow> string \<Rightarrow> string \<Rightarrow> istream \<Rightarrow> env \<Rightarrow> entry list \<Rightarrow>
     (entry list option \<times> ctx) option" where
  "load_loop getpwnam c pw tab envstr f ev es =
     (case load_env envstr f of
        None \<Rightarrow> None
      | Some (st, envstr1, g) \<Rightarrow>
          if st = ENV_ERR then Some (Some es, c)
          else if st = ENV_FALSE then
            (case load_entry getpwnam c g pw ev of
               (Inr e, c1, h) \<Rightarrow> load_loop getpwnam c1 pw tab envstr1 h ev (e # es)
             | (Inl ec, c1, h) \<Rightarrow>
                 load_loop getpwnam (if ec \<noteq> e_none then log_error tab (ecodes ec) c1 else c1)
                   pw tab envstr1 h ev es)
          else
            (case env_set c ev (cstr envstr1) of
               (None, c1) \<Rightarrow> Some (None, c1)
             | (Some ev1, c1) \<Rightarrow> load_loop getpwnam c1 pw tab envstr1 g ev1 es))"
  by pat_completeness auto

lemma load_loop_dec:
  assumes "load_env envstr f = Some (ENV_FALSE, envstr1, g)"
    and "(r, c1, h) = load_entry getpwnam c g pw ev"
  shows "length (rest h) < length (rest f)"
proof -
  have "length (rest g) < length (rest f)
      \<or> (rest g = rest f \<and> (\<exists>c h. get_char (skip_comments g) = (Some c, h)))"
    using load_env_stream[OF assms(1)] by auto
  then show ?thesis
  proof
    assume "length (rest g) < length (rest f)"
    moreover have "length (rest h) \<le> length (rest g)"
      using load_entry_reads[of g getpwnam c pw ev] assms(2)[symmetric] reads_length by fastforce
    ultimately show ?thesis by simp
  next
    assume "rest g = rest f \<and> (\<exists>c h. get_char (skip_comments g) = (Some c, h))"
    then show ?thesis using load_entry_less[of g _ _ getpwnam c pw ev] assms(2)[symmetric] by auto
  qed
qed

lemma load_loop_dec_env:
  assumes "load_env envstr f = Some (st, envstr1, g)" and "st \<noteq> ENV_ERR" and "st \<noteq> ENV_FALSE"
  shows "length (rest g) < length (rest f)"
  using load_env_stream[OF assms(1,2)] assms(3) by auto

termination load_loop
  by (relation "measure (\<lambda>(getpwnam, c, pw, tab, envstr, f, ev, es). length (rest f))")
     (auto intro: load_loop_dec load_loop_dec_env)

declare load_loop.simps [simp del]

text \<open>
  \<open>load_user\<close>; \<open>file\<close> is the result of \<open>fdopen\<close> and \<open>envstr\<close> the uninitialised buffer. On a failed
  \<open>strdup\<close> or \<open>env_init\<close> the function returns \<open>NULL\<close>.
\<close>

definition load_user ::
  "selinux \<Rightarrow> (string \<Rightarrow> passwd option) \<Rightarrow> ctx \<Rightarrow> istream option \<Rightarrow> passwd option \<Rightarrow> string \<Rightarrow> string \<Rightarrow> string \<Rightarrow>
     string \<Rightarrow> (user option \<times> ctx) option" where
  "load_user se getpwnam c file pw uname fname tab envstr =
     (case file of
        None \<Rightarrow> Some (None, log_msg uname ''FAILED'' ''fdopen on crontab_fd in load_user'' c)
      | Some f \<Rightarrow>
          (case alloc c of
             (False, c1) \<Rightarrow> Some (None, c1)
           | (True, c1) \<Rightarrow>
               (case alloc c1 of
                  (False, c2) \<Rightarrow> Some (None, c2)
                | (True, c2) \<Rightarrow>
                    (case alloc c2 of
                       (False, c3) \<Rightarrow> Some (None, c3)
                     | (True, c3) \<Rightarrow>
                         (case env_init c3 of
                            (None, c4) \<Rightarrow> Some (None, c4)
                          | (Some ev, c4) \<Rightarrow>
                              (case get_security_context se c4 (if pw = None then None else Some uname) tab of
                                 ((st, sc), c5) \<Rightarrow>
                                   if st \<noteq> 0 then Some (None, c5)
                                   else
                                     (case load_loop getpwnam c5 pw tab envstr f ev [] of
                                        None \<Rightarrow> None
                                      | Some (None, c6) \<Rightarrow> Some (None, c6)
                                      | Some (Some es, c6) \<Rightarrow>
                                          Some (Some \<lparr>user_name = fname, tabname = tab, mtime = 0,
                                                      crontab = es, scontext = sc\<rparr>, c6))))))))"

section \<open>Every entry of a table is well formed\<close>

lemma load_loop_wf:
  "load_loop getpwnam c pw tab envstr f ev es = Some (Some es', c') \<Longrightarrow> \<forall>e \<in> set es. entry_wf e \<Longrightarrow>
     (\<forall>e \<in> set es'. entry_wf e) \<and> (\<exists>new. es' = new @ es)"
proof (induction getpwnam c pw tab envstr f ev es arbitrary: es' c' rule: load_loop.induct)
  case (1 getpwnam c pw tab envstr f ev es)
  obtain st envstr1 g where l: "load_env envstr f = Some (st, envstr1, g)"
    using "1.prems"(1) by (auto simp: load_loop.simps[of getpwnam c] split: option.splits)
  show ?case
  proof (cases st)
    case ENV_ERR
    with "1.prems" l show ?thesis by (simp add: load_loop.simps[of getpwnam c])
  next
    case ENV_FALSE
    have ne: "st \<noteq> ENV_ERR" using ENV_FALSE by simp
    obtain r c1 h where e: "load_entry getpwnam c g pw ev = (r, c1, h)" by (metis prod_cases3)
    show ?thesis
    proof (cases r)
      case (Inr en)
      have "entry_wf en" using load_entry_wf e Inr by metis
      with "1.prems" have "\<forall>e \<in> set (en # es). entry_wf e" by simp
      moreover have "load_loop getpwnam c1 pw tab envstr1 h ev (en # es) = Some (Some es', c')"
        using "1.prems"(1) l e Inr ENV_FALSE by (simp add: load_loop.simps[of getpwnam c])
      ultimately have "(\<forall>e \<in> set es'. entry_wf e) \<and> (\<exists>new. es' = new @ en # es)"
        using "1.IH"(2)[OF l refl refl ne ENV_FALSE e[symmetric] Inr refl] by blast
      then show ?thesis by (metis append_Cons append_Nil append_assoc)
    next
      case (Inl ec)
      let ?c1 = "if ec \<noteq> e_none then log_error tab (ecodes ec) c1 else c1"
      have "load_loop getpwnam ?c1 pw tab envstr1 h ev es = Some (Some es', c')"
        using "1.prems"(1) l e Inl ENV_FALSE by (simp add: load_loop.simps[of getpwnam c])
      then show ?thesis
        using "1.IH"(1)[OF l refl refl ne ENV_FALSE e[symmetric] Inl refl] "1.prems"(2) by blast
    qed
  next
    case ENV_TRUE
    obtain r c1 where s: "env_set c ev (cstr envstr1) = (r, c1)" by fastforce
    then obtain ev1 where r: "r = Some ev1"
      using "1.prems"(1) l ENV_TRUE by (cases r) (auto simp: load_loop.simps[of getpwnam c])
    then have "load_loop getpwnam c1 pw tab envstr1 g ev1 es = Some (Some es', c')"
      using "1.prems"(1) l ENV_TRUE s by (simp add: load_loop.simps[of getpwnam c])
    then show ?thesis
      using "1.IH"(3)[OF l refl refl _ _ s[symmetric] r] ENV_TRUE "1.prems"(2) by simp
  qed
qed

definition user_wf :: "user \<Rightarrow> bool" where
  "user_wf u \<longleftrightarrow> (\<forall>e \<in> set (crontab u). entry_wf e)"

lemma load_user_wf:
  "load_user se getpwnam c file pw uname fname tab envstr = Some (Some u, c') \<Longrightarrow>
     user_wf u \<and> user_name u = fname \<and> tabname u = tab"
  by (auto simp: load_user_def user_wf_def dest!: load_loop_wf
      split: option.splits prod.splits bool.splits if_splits)

end
