(* ===== verification/CronCrontab.thy ===== *)
theory CronCrontab
  imports CronUser
begin

text \<open>
  A whole crontab. \<open>cline\<close> is the abstract syntax of a line (a setting or an entry), \<open>render_crontab\<close>
  its text; \<open>run_lines\<close> says what a crontab means: the entries in order, each with the
  environment made of the settings above it. \<open>load_user\<close>'s loop computes exactly that.
\<close>

datatype cline = Setting string string | Entry times string

definition setting_text :: "string \<Rightarrow> string \<Rightarrow> string" where
  "setting_text n v = n @ CHR ''='' # CHR 0x22 # v @ [CHR 0x22]"

fun render_line :: "cline \<Rightarrow> string" where
  "render_line (Setting n v) = setting_text n v @ [NL]"
| "render_line (Entry tm s) = render_times tm @ s @ [NL]"

definition render_crontab :: "cline list \<Rightarrow> string" where
  "render_crontab ls = concat (map render_line ls)"

definition setting_ok :: "string \<Rightarrow> string \<Rightarrow> bool" where
  "setting_ok n v \<longleftrightarrow> n \<noteq> [] \<and> list_all name_char n \<and> \<not> is_quote (hd n) \<and> hd n \<noteq> CHR ''#'' \<and> no_nul n
     \<and> CHR 0x22 \<notin> set v \<and> NL \<notin> set v \<and> no_nul v \<and> length (setting_text n v) < MAX_ENVSTR"

fun line_ok :: "cline \<Rightarrow> bool" where
  "line_ok (Setting n v) \<longleftrightarrow> setting_ok n v"
| "line_ok (Entry tm s) \<longleftrightarrow> times_ok tm \<and> command_ok s \<and> length (render_times tm @ s) < MAX_ENVSTR"

fun run_lines :: "env \<Rightarrow> cline list \<Rightarrow> (times \<times> string \<times> env) list" where
  "run_lines ev [] = []"
| "run_lines ev (Setting n v # ls) = run_lines (env_store ev (glued n v CHR ''='')) ls"
| "run_lines ev (Entry tm s # ls) = (tm, s, ev) # run_lines ev ls"

definition entry_is :: "passwd \<Rightarrow> entry \<Rightarrow> times \<times> string \<times> env \<Rightarrow> bool" where
  "entry_is p e = (\<lambda>(tm, s, ev). entry_times e tm \<and> flags e = time_flags tm 0 \<and> cmd e = s
     \<and> pwd e = p\<lparr>pw_passwd := []\<rparr> \<and> (\<exists>c c'. entry_env c p ev = (Some (envp e), c')))"

section \<open>Single lines through load_env\<close>

lemma env_line_text:
  assumes "rest f = s @ NL # t" and "s \<noteq> []" and "hd s \<notin> {TAB, SP, CHR ''#''}" and "NL \<notin> set s"
    and "no_nul s" and "length s < MAX_ENVSTR"
  shows "\<exists>g. env_line f = (Some NL, s, g) \<and> rest g = t"
proof -
  obtain c u where s: "s = c # u" using assms(2) by (cases s) auto
  have "skip_comments f = f\<lparr>at_eof := False\<rparr>"
    by (rule skip_comments_entry[of f c "u @ NL # t"]) (use assms s in auto)
  then have "rest (skip_comments f) = s @ NL # t" using assms(1) by simp
  then show ?thesis
    using get_string_line[of "skip_comments f" s t MAX_ENVSTR] assms by (auto simp: env_line_def)
qed

lemma parse_setting:
  assumes "setting_ok n v"
  shows "parse_env_line (setting_text n v) = Some (n, v)" "settled (setting_text n v)"
proof -
  let ?s = "setting_text n v"
  have eq: "\<not> name_char CHR ''=''" by (simp add: name_char_def)
  have q: "is_quote CHR 0x22" "\<not> c_isspace CHR 0x22" "\<not> c_isspace CHR ''=''"
    by (auto simp: is_quote_def ctype_simps ord_char_def)
  have n: "n \<noteq> []" "list_all name_char n" "\<not> is_quote (hd n)" "CHR 0x22 \<notin> set v"
    using assms by (auto simp: setting_ok_def)
  have "takeWhile name_char ?s = n" "dropWhile name_char ?s = CHR ''='' # CHR 0x22 # v @ [CHR 0x22]"
    using n(2) eq by (auto simp: setting_text_def list_all_iff takeWhile_append2 dropWhile_append2)
  moreover have "?s \<noteq> []" "\<not> is_quote (hd ?s)" using n by (auto simp: setting_text_def)
  ultimately have pn: "parse_name ?s = Some (n, CHR ''='' # CHR 0x22 # v @ [CHR 0x22])"
    by (simp add: parse_name_def)
  have pe: "parse_eq (CHR ''='' # CHR 0x22 # v @ [CHR 0x22]) = Some (CHR 0x22 # v @ [CHR 0x22])"
    using q by (simp add: parse_eq_def)
  have "takeWhile (\<lambda>c. c \<noteq> CHR 0x22) (v @ [CHR 0x22]) = v"
    using n(4) by (induction v) auto
  moreover have "dropWhile (\<lambda>c. c \<noteq> CHR 0x22) (v @ [CHR 0x22]) = [CHR 0x22]"
    using n(4) by (induction v) auto
  ultimately have pv: "parse_value (CHR 0x22 # v @ [CHR 0x22]) = Some v"
    using q by (simp add: parse_value_def parse_quoted_def)
  show "parse_env_line ?s = Some (n, v)" by (simp add: parse_env_line_def pn pe pv)
  have "length ?s \<noteq> 1" by (simp add: setting_text_def)
  then show "settled ?s" by (simp add: settled_def pn pe)
qed

lemma name_not_special:
  assumes "setting_ok n v"
  shows "hd (setting_text n v) \<notin> {TAB, SP, CHR ''#''}" "NL \<notin> set (setting_text n v)"
    "no_nul (setting_text n v)" "setting_text n v \<noteq> []"
proof -
  have "name_char TAB = False" "name_char SP = False" "name_char NL = False"
    by (auto simp: name_char_def ctype_simps ord_char_def)
  moreover have "name_char (hd n)" using assms by (cases n) (auto simp: setting_ok_def)
  ultimately show "hd (setting_text n v) \<notin> {TAB, SP, CHR ''#''}" "NL \<notin> set (setting_text n v)"
    "no_nul (setting_text n v)" "setting_text n v \<noteq> []"
    using assms
    by (auto simp: setting_ok_def setting_text_def list_all_iff) (metis list.set_sel(1))+
qed

lemma load_env_setting:
  assumes "setting_ok n v" and "rest f = render_line (Setting n v) @ t"
  shows "\<exists>buf g. load_env envstr f = Some (ENV_TRUE, buf, g) \<and> rest g = t
    \<and> cstr buf = glued n v CHR ''=''"
proof -
  have inp: "rest f = setting_text n v @ NL # t" using assms(2) by simp
  obtain g where g: "env_line f = (Some NL, setting_text n v, g)" "rest g = t"
    using env_line_text[OF inp] name_not_special[OF assms(1)] assms(1) by (auto simp: setting_ok_def)
  have "no_nul (glued n v CHR ''='')" using assms(1) by (simp add: glued_def setting_ok_def)
  then show ?thesis
    using load_env_parses[OF g(1) parse_setting(2)[OF assms(1)], of envstr] parse_setting(1)[OF assms(1)] g(2)
    by (simp add: str_store_def cstr_append_nul)
qed

definition time_char :: "char \<Rightarrow> bool" where
  "time_char c \<longleftrightarrow> c_isdigit c \<or> c \<in> {CHR ''*'', CHR ''/'', CHR ''-'', CHR '',''}"

lemma time_char_props:
  assumes "time_char c"
  shows "name_char c" "\<not> is_quote c" "\<not> c_isspace c" "c \<noteq> CHR ''=''" "c \<noteq> NL" "c \<noteq> NUL" "c \<noteq> SP"
    "c \<noteq> TAB" "c \<noteq> CHR ''#''"
  using assms by (auto simp: time_char_def name_char_def is_quote_def ctype_simps ord_char_def)

lemma dec_time_chars: "list_all time_char (dec n)"
  using dec_digits[of n] by (simp add: list_all_iff time_char_def)

lemma render_time_chars: "list_all time_char (render it)"
proof -
  have "list_all time_char (render_step st)" for st
    using dec_time_chars by (cases st) (auto simp: time_char_def)
  then show ?thesis using dec_time_chars by (cases it) (auto simp: time_char_def)
qed

lemma render_list_time_chars: "list_all time_char (render_list its)"
  using render_time_chars by (induction its rule: render_list.induct) (auto simp: time_char_def)

lemma entry_not_setting:
  assumes "times_ok tm"
  shows "parse_env_line (render_times tm @ s) = None" "settled (render_times tm @ s)"
proof -
  let ?m = "render_list (t_minute tm)" and ?l = "render_times tm @ s"
  obtain c u where c: "?m = c # u" using assms render_list_hd unfolding times_ok_def by metis
  obtain d w where d: "render_list (t_hour tm) = d # w"
    using assms render_list_hd unfolding times_ok_def by metis
  have tc: "time_char c" "time_char d"
    using render_list_time_chars[of "t_minute tm"] render_list_time_chars[of "t_hour tm"] c d by auto
  have m: "\<forall>x \<in> set ?m. name_char x"
    using render_list_time_chars[of "t_minute tm"] time_char_props(1) by (auto simp: list_all_iff)
  obtain r where l: "?l = ?m @ SP # d # r" by (simp add: render_times_def d)
  have sp: "c_isspace SP" "\<not> name_char SP" by (auto simp: name_char_def ctype_simps ord_char_def)
  have "takeWhile name_char ?l = ?m" "dropWhile name_char ?l = SP # d # r"
    unfolding l using m sp(2) by (simp_all add: takeWhile_append2 dropWhile_append2)
  moreover have "\<not> is_quote (hd ?l)" unfolding l using c time_char_props(2)[OF tc(1)] by simp
  ultimately have pn: "parse_name ?l = Some (?m, SP # d # r)" by (simp add: parse_name_def)
  have pe: "parse_eq (SP # d # r) = None"
    using sp(1) time_char_props[OF tc(2)] by (simp add: parse_eq_def)
  show "parse_env_line ?l = None" by (simp add: parse_env_line_def pn pe)
  have "length ?l \<noteq> 1" unfolding l using c by simp
  then show "settled ?l" by (simp add: settled_def pn pe)
qed

lemma load_env_entry:
  assumes "line_ok (Entry tm s)" and "rest f = render_line (Entry tm s) @ t"
  shows "\<exists>buf g. load_env envstr f = Some (ENV_FALSE, buf, g) \<and> rest g = rest f"
proof -
  let ?l = "render_times tm @ s"
  have ok: "times_ok tm" "command_ok s" "length ?l < MAX_ENVSTR" using assms(1) by auto
  have inp: "rest f = ?l @ NL # t" using assms(2) by simp
  obtain c u where c: "render_list (t_minute tm) = c # u"
    using ok(1) render_list_hd unfolding times_ok_def by metis
  have tc: "time_char c" using render_list_time_chars[of "t_minute tm"] c by simp
  have all: "\<forall>x \<in> set (render_list its). x \<noteq> NL \<and> x \<noteq> NUL" for its
    using render_list_time_chars[of its] time_char_props(5,6) by (auto simp: list_all_iff)
  then have "NL \<notin> set ?l" "no_nul ?l"
    using ok(2) by (fastforce simp: render_times_def command_ok_def no_nul_def)+
  moreover have "hd ?l \<notin> {TAB, SP, CHR ''#''}" "?l \<noteq> []"
    using time_char_props(7,8,9)[OF tc] by (auto simp: render_times_def c)
  ultimately obtain g where g: "env_line f = (Some NL, ?l, g)"
    using env_line_text[OF inp] ok(3) by blast
  show ?thesis
    using load_env_parses[OF g entry_not_setting(2)[OF ok(1)], of envstr] entry_not_setting(1)[OF ok(1)]
    by simp
qed

section \<open>The whole crontab\<close>

lemma load_env_end:
  assumes "rest f = []"
  shows "\<exists>buf h. load_env envstr f = Some (ENV_ERR, buf, h) \<and> cstr buf = []"
proof -
  obtain r s h where l: "env_line f = (r, s, h)" by (metis prod_cases3)
  have "rest (skip_comments f) = []" using reads_length[OF skip_comments_reads[of f]] assms by simp
  then have "r = None \<and> s = []"
    using l unfolding env_line_def by (subst (asm) get_string.simps) (simp add: get_char_def)
  with l show ?thesis by (simp add: load_env_def env_line_def str_store_def cstr_def)
qed

text \<open>One round of the loop, for a setting and for an entry.\<close>

lemma load_loop_setting:
  assumes "line_ok (Setting n v)" and "allocs c = []" and "rest f = render_line (Setting n v) @ t"
  obtains buf g where "rest g = t" "load_loop getpwnam c (Some p) tab envstr f ev es =
    load_loop getpwnam c (Some p) tab buf g (env_store ev (glued n v CHR ''='')) es"
proof -
  obtain buf g where g: "load_env envstr f = Some (ENV_TRUE, buf, g)" "rest g = t" "cstr buf = glued n v CHR ''=''"
    using load_env_setting[of n v f t envstr] assms(1,3) by auto
  show thesis
    by (rule that[OF g(2)])
       (use g(1,3) env_set_no_alloc_failure[OF assms(2)] in \<open>simp add: load_loop.simps[of getpwnam c _ _ envstr]\<close>)
qed

lemma load_loop_entry:
  assumes ok: "line_ok (Entry tm s)" and "allocs c = []" and "pw_fits p" and inp: "rest f = render_line (Entry tm s) @ t"
  obtains e buf h where "rest h = t" "entry_is p e (tm, s, ev)"
    "load_loop getpwnam c (Some p) tab envstr f ev es = load_loop getpwnam c (Some p) tab buf h ev (e # es)"
proof -
  obtain buf g where g: "load_env envstr f = Some (ENV_FALSE, buf, g)" "rest g = rest f"
    using load_env_entry[OF ok, of f t envstr] inp by auto
  have "rest g = render_times tm @ s @ NL # t" using g(2) inp by simp
  then obtain e h where e: "load_entry getpwnam c g (Some p) ev = (Inr e, c, h)" "rest h = t"
      "entry_times e tm" "flags e = time_flags tm 0" "cmd e = s" "pwd e = p\<lparr>pw_passwd := []\<rparr>"
      "entry_env c p ev = (Some (envp e), c)"
    using load_entry_text[of tm c p s g t getpwnam ev] ok assms(2,3) by auto
  show thesis
    by (rule that[OF e(2)]) (use e g(1) in \<open>auto simp: entry_is_def load_loop.simps[of getpwnam c _ _ envstr]\<close>)
qed

lemma load_loop_text:
  assumes "list_all line_ok ls" and "allocs c = []" and "pw_fits p" and "rest f = render_crontab ls"
  shows "\<exists>new. load_loop getpwnam c (Some p) tab envstr f ev es = Some (Some (rev new @ es), c)
    \<and> list_all2 (entry_is p) new (run_lines ev ls)"
  using assms
proof (induction ls arbitrary: f envstr ev es)
  case Nil
  then have "rest f = []" by (simp add: render_crontab_def)
  then obtain buf h where "load_env envstr f = Some (ENV_ERR, buf, h)" using load_env_end by blast
  then show ?case by (intro exI[of _ "[]"]) (simp add: load_loop.simps[of getpwnam c])
next
  case (Cons l ls)
  have inp: "rest f = render_line l @ render_crontab ls" using Cons.prems(4) by (simp add: render_crontab_def)
  show ?case
  proof (cases l)
    case (Setting n v)
    have ok: "line_ok (Setting n v)" using Cons.prems(1) Setting by simp
    obtain buf g where "rest g = render_crontab ls" "load_loop getpwnam c (Some p) tab envstr f ev es =
        load_loop getpwnam c (Some p) tab buf g (env_store ev (glued n v CHR ''='')) es"
      by (rule load_loop_setting[OF ok Cons.prems(2) inp[unfolded Setting]])
    with Cons.IH[of g buf "env_store ev (glued n v CHR ''='')" es] Cons.prems Setting show ?thesis by simp
  next
    case (Entry tm s)
    have ok: "line_ok (Entry tm s)" using Cons.prems(1) Entry by simp
    obtain e buf h where h: "rest h = render_crontab ls" "entry_is p e (tm, s, ev)"
        "load_loop getpwnam c (Some p) tab envstr f ev es = load_loop getpwnam c (Some p) tab buf h ev (e # es)"
      by (rule load_loop_entry[OF ok Cons.prems(2,3) inp[unfolded Entry]])
    obtain new where "load_loop getpwnam c (Some p) tab buf h ev (e # es) = Some (Some (rev new @ e # es), c)"
        "list_all2 (entry_is p) new (run_lines ev ls)"
      using Cons.IH[of h buf ev "e # es"] Cons.prems h(1) by auto
    with h Entry show ?thesis by (intro exI[of _ "e # new"]) simp
  qed
qed

end
