(* ===== verification/CrontabProps.thy ===== *)
theory CrontabProps
  imports CronCrontab
begin

text \<open>
  The properties of the crontab reader (\<open>misc.c\<close>, \<open>env.c\<close>, \<open>entry.c\<close>, \<open>pw_dup.c\<close>, \<open>user.c\<close>), with
  concrete inputs on which each applies.
\<close>

section \<open>Sample data\<close>

definition sample_pw :: passwd where
  "sample_pw = \<lparr>pw_name = ''joe'', pw_passwd = ''x'', pw_uid = 1000, pw_gid = 100, pw_gecos = ''Joe'',
     pw_dir = ''/home/joe'', pw_shell = ''/bin/sh''\<rparr>"

definition sample_times :: times where
  "sample_times = \<lparr>t_minute = [Num 5, Span 10 20 (Some 5)], t_hour = [Star None], t_dom = [Num 1], t_month = [Star (Some 3)],
     t_dow = [Num 0]\<rparr>"

definition sample_lines :: "cline list" where
  "sample_lines = [Setting ''MAILTO'' ''joe'', Entry sample_times ''run %in'', Setting ''A'' ''b c'',
     Entry sample_times ''other'']"

definition no_selinux :: selinux where
  "no_selinux = \<lparr>is_selinux_enabled = 0, security_getenforce = 0, getseuserbyname = (\<lambda>_. None),
     get_default_context_with_level = (\<lambda>_ _. None), fgetfilecon = (\<lambda>_. None), compute_av = (\<lambda>_ _ _. None),
     context_new = (\<lambda>_. None), context_range_set = (\<lambda>_ _. None), context_str = (\<lambda>_. None),
     setexeccon = (\<lambda>_. True), setkeycreatecon = (\<lambda>_. True), getprevcon = None\<rparr>"

lemma sample_pw_fits: "pw_fits sample_pw"
  by (simp add: pw_fits_def pw_ok_def sample_pw_def no_nul_def macro_defs)

lemma sample_times_ok: "times_ok sample_times"
  by (simp add: times_ok_def sample_times_def field_ok_def step_ok_def macro_defs)

lemma sample_render: "render_times sample_times = ''5,10-20/5 * 1 */3 0 ''"
  by code_simp

lemma sample_lines_ok: "list_all line_ok sample_lines"
  by (simp add: sample_lines_def sample_times_ok sample_render setting_ok_def setting_text_def command_ok_def
      name_char_def is_quote_def no_nul_def ctype_simps ord_char_def macro_defs)

lemma sample_allocs: "allocs ctx0 = []"
  by (simp add: ctx0_def)

section \<open>A whole crontab\<close>

text \<open>\<open>run_lines\<close> only yields well-formed environments, so the variables of every loaded entry are known.\<close>

definition entry_means :: "passwd \<Rightarrow> entry \<Rightarrow> times \<times> string \<times> env \<Rightarrow> bool" where
  "entry_means p e = (\<lambda>(tm, s, ev). entry_times e tm \<and> flags e = time_flags tm 0 \<and> cmd e = s
     \<and> pwd e = p\<lparr>pw_passwd := []\<rparr> \<and> (\<forall>m. valid_name m \<longrightarrow> env_get m (envp e) = entry_lookup p ev m))"

lemma setting_ok_glued:
  assumes "setting_ok n v"
  shows "no_nul (glued n v CHR ''='')" "CHR ''='' \<in> set (glued n v CHR ''='')"
  using assms by (auto simp: setting_ok_def glued_def no_nul_def)

lemma run_lines_wf:
  "list_all line_ok ls \<Longrightarrow> env_wf ev \<Longrightarrow> (tm, s, ev') \<in> set (run_lines ev ls) \<Longrightarrow> env_wf ev'"
  by (induction ev ls rule: run_lines.induct) (auto intro: env_wf_store setting_ok_glued)

lemma entry_is_means:
  "entry_is p e x \<Longrightarrow> pw_fits p \<Longrightarrow> env_wf (snd (snd x)) \<Longrightarrow> entry_means p e x"
  using entry_env_lookup by (cases x) (fastforce simp: entry_is_def entry_means_def)

text \<open>C1. Reading a crontab: for every list of settings and entries, \<open>load_user\<close> applied to its text
  returns a table with exactly one entry per entry line, most recent first, and each entry has the
  minutes, hours, days, months and weekdays its line denotes, its command, its owner, and an
  environment in which every variable has the value given by the settings above the line, completed
  by the defaults of \<open>load_entry\<close>.\<close>

theorem load_user_crontab:
  assumes "list_all line_ok ls" and "allocs c = []" and "pw_fits p"
    and "get_security_context se c (Some uname) tab = ((0, sc), c)"
  shows "\<exists>u. load_user se getpwnam c (Some (open_stream (render_crontab ls))) (Some p) uname fname tab envstr
      = Some (Some u, c)
    \<and> user_name u = fname \<and> tabname u = tab \<and> scontext u = sc
    \<and> list_all2 (entry_means p) (rev (crontab u)) (run_lines [] ls)"
proof -
  have "rest (open_stream (render_crontab ls)) = render_crontab ls" by (simp add: open_stream_def)
  then obtain new where new: "load_loop getpwnam c (Some p) tab envstr (open_stream (render_crontab ls)) [] []
      = Some (Some (rev new), c)" "list_all2 (entry_is p) new (run_lines [] ls)"
    using load_loop_text[OF assms(1-3), of "open_stream (render_crontab ls)" getpwnam tab envstr "[]" "[]"]
    by auto
  have "list_all2 (entry_means p) new (run_lines [] ls)"
    using new(2)
  proof (rule list.rel_mono_strong)
    fix e x assume "e \<in> set new" "x \<in> set (run_lines [] ls)" "entry_is p e x"
    then show "entry_means p e x"
      using run_lines_wf[OF assms(1) env_wf_nil] assms(3) entry_is_means by (metis prod.collapse)
  qed
  then show ?thesis
    using new(1) assms(2,4) by (simp add: load_user_def env_init_def)
qed

theorem load_user_crontab_witness:
  "\<exists>u. load_user no_selinux (\<lambda>_. None) ctx0 (Some (open_stream (render_crontab sample_lines))) (Some sample_pw)
      ''joe'' ''joe'' ''tab'' [] = Some (Some u, ctx0)
    \<and> user_name u = ''joe'' \<and> tabname u = ''tab'' \<and> scontext u = None
    \<and> list_all2 (entry_means sample_pw) (rev (crontab u))
        [(sample_times, ''run %in'', [''MAILTO=joe'']), (sample_times, ''other'', [''MAILTO=joe'', ''A=b c''])]"
proof -
  have s: "get_security_context no_selinux ctx0 (Some ''joe'') ''tab'' = ((0, None), ctx0)"
    by (simp add: get_security_context_def no_selinux_def)
  have r: "run_lines [] sample_lines =
      [(sample_times, ''run %in'', [''MAILTO=joe'']), (sample_times, ''other'', [''MAILTO=joe'', ''A=b c''])]"
    by (simp add: sample_lines_def env_store_def glued_def) code_simp
  show ?thesis
    using load_user_crontab[OF sample_lines_ok sample_allocs sample_pw_fits s,
        of "\<lambda>_. None" "''joe''" "[]"] unfolding r .
qed

section \<open>Settings\<close>

text \<open>C9. \<open>load_env\<close> is a parser for settings: on every line whose quotes are not cut off it accepts exactly
  what the reference parser accepts. A rejected line is given back to the stream whole, for
  \<open>load_entry\<close>; an accepted one leaves the stream behind the line, and \<open>env_set\<close> with the string it
  stored gives an environment in which the parsed name has the parsed value and every other name the
  value it had.\<close>

theorem load_env_reference:
  assumes "env_line f = (Some ch, s, g)" and "settled s" and "env_wf ev"
  shows "case parse_env_line s of
      None \<Rightarrow> (\<exists>buf h. load_env envstr f = Some (ENV_FALSE, buf, h) \<and> rest h = rest f \<and> LineNumber h = LineNumber f)
    | Some (n, v) \<Rightarrow>
        (\<exists>buf. load_env envstr f = Some (ENV_TRUE, buf, g)
           \<and> (\<forall>c ev' c'. env_set c ev (cstr buf) = (Some ev', c') \<longrightarrow>
                env_wf ev' \<and> (\<forall>m. valid_name m \<longrightarrow> env_get m ev' = (if m = n then Some v else env_get m ev))))"
proof (cases "parse_env_line s")
  case None
  then show ?thesis using load_env_parses[OF assms(1,2), of envstr] by simp
next
  case (Some nv)
  obtain n v where nv: "nv = (n, v)" by fastforce
  let ?buf = "str_store (str_store envstr s) (glued n v CHR ''='')"
  have l: "load_env envstr f = Some (ENV_TRUE, ?buf, g)"
    using load_env_parses[OF assms(1,2), of envstr] Some nv by simp
  have "no_nul s" using assms(1) get_string_no_nul unfolding env_line_def by blast
  then have ok: "valid_name n" "no_nul v" using parse_env_line_fits[of s n v] Some nv by auto
  have "no_nul (glued n v CHR ''='')" using ok by (auto simp: glued_def valid_name_def no_nul_def)
  then have "cstr ?buf = glued n v CHR ''=''" by (simp add: str_store_def cstr_append_nul)
  then have "\<forall>c ev' c'. env_set c ev (cstr ?buf) = (Some ev', c') \<longrightarrow>
      env_wf ev' \<and> (\<forall>m. valid_name m \<longrightarrow> env_get m ev' = (if m = n then Some v else env_get m ev))"
    using em.wf_assign[OF assms(3) ok] em.lookup_assign[OF assms(3) ok] by (auto dest!: env_set_Some)
  with l show ?thesis using Some nv by auto
qed

theorem load_env_reference_witness:
  "\<exists>f g buf. rest f = ''A=\"b c\"'' @ [NL] \<and> load_env [] f = Some (ENV_TRUE, buf, g)
     \<and> (\<forall>c ev' c'. env_set c [] (cstr buf) = (Some ev', c') \<longrightarrow>
          env_wf ev' \<and> (\<forall>m. valid_name m \<longrightarrow> env_get m ev' = (if m = ''A'' then Some ''b c'' else env_get m [])))"
proof -
  let ?f = "open_stream (''A=\"b c\"'' @ [NL])"
  have f: "rest ?f = ''A=\"b c\"'' @ NL # []" by (simp add: open_stream_def)
  obtain g where g: "env_line ?f = (Some NL, ''A=\"b c\"'', g)"
    using env_line_text[OF f] by (auto simp: no_nul_def macro_defs)
  have p: "parse_env_line ''A=\"b c\"'' = Some (''A'', ''b c'')" "settled ''A=\"b c\"''"
    by code_simp+
  show ?thesis
    using load_env_reference[OF g p(2) env_wf_nil, of "[]"] f unfolding p(1) by auto
qed

text \<open>A line that ends in an opening quote makes \<open>load_env\<close> read behind the end of the string: whether
  the line \<open>A="\<close> is a setting depends on what the buffer held before.\<close>

theorem load_env_stale:
  "\<exists>f buf g buf' g'. rest f = ''A=\"'' @ [NL]
     \<and> load_env [CHR ''x'', CHR ''x'', CHR ''x'', CHR ''x'', NUL] f = Some (ENV_FALSE, buf, g)
     \<and> load_env [CHR ''x'', CHR ''x'', CHR ''x'', CHR ''x'', CHR 0x22, NUL] f = Some (ENV_TRUE, buf', g')"
proof -
  let ?f = "open_stream (''A=\"'' @ [NL])"
  have f: "rest ?f = ''A=\"'' @ NL # []" by (simp add: open_stream_def)
  obtain g where "env_line ?f = (Some NL, ''A=\"'', g)"
    using env_line_text[OF f] by (auto simp: no_nul_def macro_defs)
  then have g: "get_string MAX_ENVSTR (skip_comments ?f) [NL] = (Some NL, ''A=\"'', g)"
    by (simp add: env_line_def)
  have 1: "map_option env_accept (env_loop (env_scan0 (str_store [CHR ''x'', CHR ''x'', CHR ''x'', CHR ''x'', NUL] ''A=\"'')))
      = Some False"
    by code_simp
  have 2: "map_option (\<lambda>s. (env_accept s, cstr (es_name s), env_value s))
      (env_loop (env_scan0 (str_store [CHR ''x'', CHR ''x'', CHR ''x'', CHR ''x'', CHR 0x22, NUL] ''A=\"'')))
      = Some (True, ''A'', [])"
    by code_simp
  have 3: "glue_strings MAX_ENVSTR ''A'' [] CHR ''='' = Some ''A=''"
    by (simp add: glue_strings_spec glued_def macro_defs)
  show ?thesis
    using f 1 2 3 by (intro exI[of _ ?f]) (auto simp: load_env_def g[simplified] Let_def)
qed

section \<open>Entries\<close>

text \<open>An entry line: the five time fields, whatever lists of numbers, ranges, stars and steps they are,
  are read as the sets they denote (Sunday is both 0 and 7), the flags record the fields that begin
  with a star, the command is the rest of the line and the stream is left at the next line.\<close>

theorem load_entry_line:
  assumes "times_ok tm" and "allocs c = []" and "pw_fits p" and "command_ok s"
    and "rest f = render_times tm @ s @ NL # t"
  shows "\<exists>e g. load_entry getpwnam c f (Some p) e0 = (Inr e, c, g) \<and> rest g = t \<and> entry_times e tm
    \<and> flags e = time_flags tm 0 \<and> cmd e = s \<and> pwd e = p\<lparr>pw_passwd := []\<rparr>"
  using load_entry_text[OF assms, of getpwnam e0] by blast

theorem load_entry_line_witness:
  "\<exists>e g. load_entry (\<lambda>_. None) ctx0 (open_stream (''5,10-20/5 * 1 */3 0 run'' @ [NL])) (Some sample_pw) [] = (Inr e, ctx0, g)
     \<and> rest g = [] \<and> entry_times e sample_times \<and> flags e = time_flags sample_times 0 \<and> cmd e = ''run''
     \<and> pwd e = sample_pw\<lparr>pw_passwd := []\<rparr>"
proof -
  have c: "command_ok ''run''" by (simp add: command_ok_def no_nul_def macro_defs)
  have i: "rest (open_stream (''5,10-20/5 * 1 */3 0 run'' @ [NL])) = render_times sample_times @ ''run'' @ NL # []"
    by (simp add: sample_render open_stream_def)
  show ?thesis by (rule load_entry_line[OF sample_times_ok sample_allocs sample_pw_fits c i])
qed

text \<open>C11. Whatever the input, an entry that \<open>load_entry\<close> returns is well formed: its bit strings have bits set only
  for values in range (up to three spare bits behind the fields), Sunday is set as 0 exactly if it is
  set as 7, the command is a string without newline that fits its buffer, and the password field of
  its owner is blank.\<close>

theorem load_entry_sound:
  assumes "load_entry getpwnam c f pw e0 = (Inr e, c', g)"
  shows "entry_wf e"
  using assms by (rule load_entry_wf)

theorem load_entry_sound_witness:
  "\<exists>e g. load_entry (\<lambda>_. None) ctx0 (open_stream (''5,10-20/5 * 1 */3 0 run'' @ [NL])) (Some sample_pw) [] = (Inr e, ctx0, g)
     \<and> entry_wf e"
proof -
  have c: "command_ok ''run''" by (simp add: command_ok_def no_nul_def macro_defs)
  have i: "rest (open_stream (''5,10-20/5 * 1 */3 0 run'' @ [NL])) = render_times sample_times @ ''run'' @ NL # []"
    by (simp add: sample_render open_stream_def)
  obtain e g where "load_entry (\<lambda>_. None) ctx0 (open_stream (''5,10-20/5 * 1 */3 0 run'' @ [NL])) (Some sample_pw) []
      = (Inr e, ctx0, g)"
    using load_entry_text[OF sample_times_ok sample_allocs sample_pw_fits c i] by blast
  with load_entry_sound show ?thesis by blast
qed

text \<open>C12. Reading an entry, valid or not, only moves the stream forward, keeps the line count in step with the
  newlines passed, and consumes something whenever a character other than blank lines and comments is
  left: the loop of \<open>load_user\<close> ends on every file.\<close>

theorem load_entry_progress:
  assumes "get_char (skip_comments f) = (Some c0, h)"
  shows "suffix (rest (snd (snd (load_entry getpwnam c f pw e)))) (rest f)
    \<and> last_line (snd (snd (load_entry getpwnam c f pw e))) = last_line f
    \<and> length (rest (snd (snd (load_entry getpwnam c f pw e)))) < length (rest f)"
  using load_entry_reads[of f getpwnam c pw e] load_entry_less[OF assms, of getpwnam c pw e]
  by (simp add: reads_def)

theorem load_entry_progress_witness:
  "length (rest (snd (snd (load_entry (\<lambda>_. None) ctx0 (open_stream ''hmm!'') None [])))) < 4"
proof -
  have "get_char (skip_comments (open_stream ''hmm!'')) =
      (Some CHR ''h'', snd (get_char (skip_comments (open_stream ''hmm!''))))"
    by code_simp
  from load_entry_progress[OF this, of "\<lambda>_. None" ctx0 None "[]"] show ?thesis
    by (simp add: open_stream_def)
qed

lemma to_eol_line:
  assumes "rest f = line @ NL # after" and "NL \<notin> set line" and "ch \<noteq> Some NL"
  shows "rest (to_eol ch f) = after"
  using assms
proof (induction line arbitrary: ch f)
  case Nil
  then obtain g where g: "get_char f = (Some NL, g)" "rest g = after" using get_char_Cons[of f NL after] by auto
  have "to_eol ch f = to_eol (Some NL) g" using Nil g(1) by (simp add: to_eol.simps[of ch f] feof_def)
  moreover have "to_eol (Some NL) g = g" by (simp add: to_eol.simps[of "Some NL" g])
  ultimately show ?case using g(2) by simp
next
  case (Cons c line)
  then obtain g where g: "get_char f = (Some c, g)" "rest g = line @ NL # after"
    using get_char_Cons[of f c "line @ NL # after"] by auto
  have "to_eol ch f = to_eol (Some c) g" using Cons.prems g(1) by (simp add: to_eol.simps[of ch f] feof_def)
  then show ?case using Cons.IH[OF g(2), of "Some c"] Cons.prems(2) by auto
qed

lemma bad_range:
  assumes "b < a" and "int a < 2 ^ 31" and "d # rest g = dec a @ CHR ''-'' # dec b @ NL # t" and "d \<noteq> CHR ''*''"
  shows "\<exists>h. get_range m bits low high names (Some d) g = (None, m, h) \<and> rest h = t"
proof -
  obtain g1 where 1: "get_number low names (Some d) g [CHR '','', CHR ''-'', SP, TAB, NL] = (Some (int a, Some CHR ''-''), g1)"
      "rest g1 = dec b @ NL # t"
    using get_number_dec[OF assms(2) _ _ assms(3), of "[CHR '','', CHR ''-'', SP, TAB, NL]" low names]
    by (auto simp: ctype_simps ord_char_def strchr_def)
  obtain e s where e: "dec b = e # s" using dec_hd by blast
  then obtain g2 where 2: "get_char g1 = (Some e, g2)" "e # rest g2 = dec b @ NL # t"
    using 1(2) get_char_Cons by fastforce
  obtain g3 where 3: "get_number low names (Some e) g2 [CHR ''/'', CHR '','', SP, TAB, NL] = (Some (int b, Some NL), g3)"
      "rest g3 = t"
    using get_number_dec[OF _ _ _ 2(2), of "[CHR ''/'', CHR '','', SP, TAB, NL]" low names] assms(1,2)
    by (auto simp: ctype_simps ord_char_def strchr_def)
  show ?thesis using 1 2 3 assms(1,4) by (simp add: get_range_def)
qed

text \<open>A range whose end is below its start and which ends its line is reported only at the end of the next
  line, which is lost: reading goes on behind it.\<close>

theorem bad_range_eats_next_line:
  assumes "b < a" and "int a < 2 ^ 31" and "NL \<notin> set line" and "rest f = dec a @ CHR ''-'' # dec b @ NL # line @ NL # after"
  shows "\<exists>g. load_entry getpwnam c f pw e0 = (Inl e_minute, c, g) \<and> rest g = after"
proof -
  obtain d s where d: "dec a = d # s" "c_isdigit d" using dec_hd by blast
  then have ne: "d \<noteq> TAB" "d \<noteq> SP" "d \<noteq> NL" "d \<noteq> CHR ''#''" "d \<noteq> CHR ''-''" "d \<noteq> CHR ''@''" "d \<noteq> CHR ''*''"
    by (auto simp: ctype_simps ord_char_def)
  have "rest (skip_comments f) = d # s @ CHR ''-'' # dec b @ NL # line @ NL # after"
    using skip_comments_entry[of f d] ne assms(4) d(1) by simp
  then obtain g where g: "get_char (skip_comments f) = (Some d, g)"
      "d # rest g = dec a @ CHR ''-'' # dec b @ NL # line @ NL # after"
    using get_char_Cons d(1) by fastforce
  let ?m0 = "replicate tbits_size 0 :: bytes"
  obtain m h where r: "get_range (bit_nclear ?m0 minute_at 0 (nat (LAST_MINUTE - FIRST_MINUTE + 1))) minute_at
      FIRST_MINUTE LAST_MINUTE None (Some d) g = (None, m, h)" "rest h = line @ NL # after"
    using bad_range[OF assms(1,2) g(2) ne(7)] by blast
  then have "get_list ?m0 minute_at FIRST_MINUTE LAST_MINUTE None (Some d) g = (None, m, h)"
    by (simp add: get_list_def list_loop.simps)
  then have "load_body getpwnam c pw e0 0 (Some d) g = (Inl (e_minute, None, h), c)"
    using ne by (simp add: load_body_def load_times_def Let_def)
  then show ?thesis
    using g(1) ne to_eol_line[OF r(2) assms(3)] by (auto simp: load_entry_def Let_def)
qed

theorem bad_range_eats_next_line_witness:
  "\<exists>g. load_entry (\<lambda>_. None) ctx0 (open_stream (''5-3'' @ NL # ''0 0 * * * root x'' @ NL # ''1 1 1 1 1 root y'')) None [] =
     (Inl e_minute, ctx0, g) \<and> rest g = ''1 1 1 1 1 root y''"
proof -
  have d: "dec 5 = ''5''" "dec 3 = ''3''" by code_simp+
  show ?thesis
    by (rule bad_range_eats_next_line[of 3 5 "''0 0 * * * root x''"]) (auto simp: d open_stream_def)
qed

text \<open>The names after \<open>@\<close>: \<open>@yearly\<close>, \<open>@annually\<close>, \<open>@monthly\<close>, \<open>@weekly\<close>, \<open>@daily\<close>, \<open>@midnight\<close> and \<open>@hourly\<close> set
  exactly the five fields they stand for, \<open>@reboot\<close> sets none and raises \<open>WHEN_REBOOT\<close>, and every other
  name is refused.\<close>

theorem special_names:
  "case special_fields s of
     Some v \<Rightarrow> (\<exists>m fl'. special_bits s (replicate tbits_size 0) fl = Some (m, fl') \<and> fields_of m = v)
   | None \<Rightarrow> special_bits s (replicate tbits_size 0) fl =
       (if s = ''reboot'' then Some (replicate tbits_size 0, fl OR WHEN_REBOOT) else None)"
  by (rule special_bits_spec)

text \<open>C13. The environment of an entry: \<open>LOGNAME\<close> and \<open>USER\<close> are the owner's name whatever the crontab says; the
  crontab's own settings win over the defaults of \<open>SHELL\<close>, \<open>HOME\<close> and \<open>PATH\<close>; nothing else is added.\<close>

theorem entry_environment:
  assumes "env_wf e0" and "pw_fits pw" and "entry_env c pw e0 = (Some e, c')" and "valid_name m"
  shows "env_get m e = entry_lookup pw e0 m"
  using entry_env_lookup[OF assms(1-3)] assms(4) by blast

theorem entry_environment_witness:
  "\<exists>e c'. entry_env ctx0 sample_pw [''USER=eve'', ''HOME=/tmp''] = (Some e, c')
     \<and> env_get ''USER'' e = Some ''joe'' \<and> env_get ''HOME'' e = Some ''/tmp''"
proof -
  let ?e0 = "[''USER=eve'', ''HOME=/tmp'']"
  have w: "env_wf ?e0" "valid_name ''USER''" "valid_name ''HOME''"
    by (simp_all add: env_wf_def no_nul_def env_name_def valid_name_def)
  have g: "env_get ''HOME'' ?e0 = Some ''/tmp''" by code_simp
  obtain e c' where e: "entry_env ctx0 sample_pw ?e0 = (Some e, c')"
    using entry_env_no_alloc_failure[OF sample_allocs sample_pw_fits] by blast
  show ?thesis
    using e g entry_environment[OF w(1) sample_pw_fits e w(2)] entry_environment[OF w(1) sample_pw_fits e w(3)]
    by (simp add: entry_lookup_def sample_pw_def)
qed

end
