(* ===== verification/CronJob.thy ===== *)
theory CronJob
  imports CronPrelude
begin

text \<open>
  \<open>cronie-1.4.6/src/job.c\<close>: the queue of jobs to run, a singly linked list of allocated nodes with a
  head and a tail pointer. Nodes live in a heap (a map from addresses); \<open>chain\<close> relates a pointer to
  the addresses reached from it, and \<open>queue_of\<close> is the list of jobs the queue stands for.

  The locale \<open>job_queue\<close> is the contract the scheduler uses; it is interpreted on the linked list.
\<close>

section \<open>The linked list\<close>

record 'j jnode =
  j_next :: "nat option"
  j_job :: 'j

record 'j jstate =
  jheap :: "nat \<Rightarrow> 'j jnode option"
  jhead :: "nat option"
  jtail :: "nat option"
  jbrk :: nat

definition jempty :: "'j jstate" where
  "jempty = \<lparr>jheap = (\<lambda>_. None), jhead = None, jtail = None, jbrk = 0\<rparr>"

text \<open>The scan for a node with the same pair of pointers; the fuel bounds the number of nodes and
  \<^const>\<open>None\<close> is following a pointer to a node that is not there.\<close>

fun jscan :: "nat \<Rightarrow> (nat \<Rightarrow> 'j jnode option) \<Rightarrow> nat option \<Rightarrow> 'j \<Rightarrow> bool option" where
  "jscan n h None x = Some False"
| "jscan 0 h (Some a) x = None"
| "jscan (Suc n) h (Some a) x =
     (case h a of
        None \<Rightarrow> None
      | Some nd \<Rightarrow> if j_job nd = x then Some True else jscan n h (j_next nd) x)"

definition job_add :: "ctx \<Rightarrow> 'j \<Rightarrow> 'j jstate \<Rightarrow> ('j jstate \<times> ctx) option" where
  "job_add c x q =
     (case jscan (jbrk q) (jheap q) (jhead q) x of
        None \<Rightarrow> None
      | Some True \<Rightarrow> Some (q, c)
      | Some False \<Rightarrow>
          (case alloc c of
             (False, c1) \<Rightarrow> Some (q, c1)
           | (True, c1) \<Rightarrow>
               (let a = jbrk q; h1 = (jheap q)(a \<mapsto> \<lparr>j_next = None, j_job = x\<rparr>) in
                case (if jhead q = None then Some (h1, Some a)
                      else case jtail q of
                        None \<Rightarrow> None
                      | Some t \<Rightarrow>
                          (case h1 t of
                             None \<Rightarrow> None
                           | Some nd \<Rightarrow> Some (h1(t \<mapsto> nd\<lparr>j_next := Some a\<rparr>), jhead q))) of
                  None \<Rightarrow> None
                | Some (h2, hd2) \<Rightarrow>
                    Some (\<lparr>jheap = h2, jhead = hd2, jtail = Some a, jbrk = a + 1\<rparr>, c1))))"

text \<open>The loop of \<open>job_runqueue\<close>: the jobs given to \<open>do_command\<close> in order, each node freed after its
  \<open>next\<close> was read.\<close>

fun jdrain :: "nat \<Rightarrow> (nat \<Rightarrow> 'j jnode option) \<Rightarrow> nat option \<Rightarrow> ('j list \<times> (nat \<Rightarrow> 'j jnode option)) option" where
  "jdrain n h None = Some ([], h)"
| "jdrain 0 h (Some a) = None"
| "jdrain (Suc n) h (Some a) =
     (case h a of
        None \<Rightarrow> None
      | Some nd \<Rightarrow>
          (case jdrain n (h(a := None)) (j_next nd) of
             None \<Rightarrow> None
           | Some (js, h') \<Rightarrow> Some (j_job nd # js, h')))"

definition job_runqueue :: "'j jstate \<Rightarrow> ('j list \<times> 'j jstate) option" where
  "job_runqueue q =
     (case jdrain (jbrk q) (jheap q) (jhead q) of
        None \<Rightarrow> None
      | Some (js, h) \<Rightarrow> Some (js, q\<lparr>jheap := h, jhead := None, jtail := None\<rparr>))"

section \<open>The list it stands for\<close>

fun chain :: "(nat \<Rightarrow> 'j jnode option) \<Rightarrow> nat option \<Rightarrow> nat list \<Rightarrow> bool" where
  "chain h p [] \<longleftrightarrow> p = None"
| "chain h p (a # as) \<longleftrightarrow> p = Some a \<and> (\<exists>nd. h a = Some nd \<and> chain h (j_next nd) as)"

definition jobs_at :: "(nat \<Rightarrow> 'j jnode option) \<Rightarrow> nat list \<Rightarrow> 'j list" where
  "jobs_at h as = map (\<lambda>a. j_job (the (h a))) as"

definition repr :: "'j jstate \<Rightarrow> nat list \<Rightarrow> bool" where
  "repr q as \<longleftrightarrow> chain (jheap q) (jhead q) as \<and> distinct as \<and> (\<forall>a \<in> set as. a < jbrk q)
     \<and> dom (jheap q) \<subseteq> {..<jbrk q} \<and> jtail q = (if as = [] then None else Some (last as))"

definition holds_jobs :: "'j jstate \<Rightarrow> 'j list \<Rightarrow> bool" where
  "holds_jobs q js \<longleftrightarrow> (\<exists>as. repr q as \<and> js = jobs_at (jheap q) as) \<and> distinct js"

lemma chain_length_bound:
  "distinct as \<Longrightarrow> \<forall>a \<in> set as. a < n \<Longrightarrow> length as \<le> n"
proof -
  assume d: "distinct as" and b: "\<forall>a \<in> set as. a < n"
  have "set as \<subseteq> {..<n}" using b by auto
  then have "card (set as) \<le> n" using card_mono[of "{..<n}" "set as"] by simp
  then show ?thesis using distinct_card[OF d] by simp
qed

lemma jscan_chain:
  "chain h p as \<Longrightarrow> length as \<le> n \<Longrightarrow> jscan n h p x = Some (x \<in> set (jobs_at h as))"
proof (induction as arbitrary: n p)
  case Nil
  then show ?case by (simp add: jobs_at_def)
next
  case (Cons a as)
  then obtain nd m where "p = Some a" "h a = Some nd" "chain h (j_next nd) as" "n = Suc m"
    by (cases n) auto
  with Cons show ?case by (auto simp: jobs_at_def)
qed

lemma chain_frame:
  "chain h p as \<Longrightarrow> \<forall>a \<in> set as. h' a = h a \<Longrightarrow> chain h' p as"
  by (induction as arbitrary: p) auto

lemma chain_snoc:
  "chain h p as \<Longrightarrow> as \<noteq> [] \<Longrightarrow> distinct (as @ [b]) \<Longrightarrow> h b = Some nb \<Longrightarrow> j_next nb = None \<Longrightarrow>
     h (last as) = Some nd \<Longrightarrow> chain (h(last as \<mapsto> nd\<lparr>j_next := Some b\<rparr>)) p (as @ [b])"
proof (induction as arbitrary: p)
  case (Cons a as)
  show ?case
  proof (cases "as = []")
    case True
    with Cons show ?thesis by auto
  next
    case False
    then have "last as \<noteq> a" using Cons.prems(3) by (metis append_Cons distinct.simps(2) last_in_set list.set_intros(1) Un_iff set_append)
    with False Cons show ?thesis by auto
  qed
qed simp

lemma jobs_at_frame: "\<forall>a \<in> set as. map_option j_job (h' a) = map_option j_job (h a) \<and> h a \<noteq> None \<Longrightarrow>
    jobs_at h' as = jobs_at h as"
  unfolding jobs_at_def by (rule map_cong[OF refl]) (metis not_None_eq option.map_sel option.map_disc_iff)

lemma chain_dom: "chain h p as \<Longrightarrow> \<forall>a \<in> set as. h a \<noteq> None"
  by (induction as arbitrary: p) auto

lemma jempty_holds: "holds_jobs jempty []"
  by (auto simp: holds_jobs_def repr_def jempty_def jobs_at_def intro!: exI[of _ "[]"])

text \<open>Appending the node of a new job, behind the last node or as the first one.\<close>

lemma job_append:
  assumes r: "repr q as" and d: "distinct (jobs_at (jheap q) as)" and new: "x \<notin> set (jobs_at (jheap q) as)"
  defines "h1 \<equiv> (jheap q)(jbrk q \<mapsto> \<lparr>j_next = None, j_job = x\<rparr>)"
  shows "if as = [] then jhead q = None
      \<and> holds_jobs \<lparr>jheap = h1, jhead = Some (jbrk q), jtail = Some (jbrk q), jbrk = jbrk q + 1\<rparr> [x]
    else jhead q \<noteq> None \<and> jtail q = Some (last as) \<and> (\<exists>nd. h1 (last as) = Some nd
      \<and> holds_jobs \<lparr>jheap = h1(last as \<mapsto> nd\<lparr>j_next := Some (jbrk q)\<rparr>), jhead = jhead q, jtail = Some (jbrk q), jbrk = jbrk q + 1\<rparr>
          (jobs_at (jheap q) as @ [x]))"
proof -
  have ch: "chain (jheap q) (jhead q) as" "distinct as" "\<forall>a \<in> set as. a < jbrk q"
    "dom (jheap q) \<subseteq> {..<jbrk q}" "jtail q = (if as = [] then None else Some (last as))"
    using r by (auto simp: repr_def)
  let ?a = "jbrk q"
  show ?thesis
  proof (cases "as = []")
    case True
    have "repr \<lparr>jheap = h1, jhead = Some ?a, jtail = Some ?a, jbrk = ?a + 1\<rparr> [?a]" using ch(4) by (auto simp: repr_def h1_def)
    then show ?thesis
      using True ch(1) by (auto simp: holds_jobs_def jobs_at_def h1_def intro!: exI[of _ "[?a]"])
  next
    case False
    let ?t = "last as"
    have fresh: "?a \<notin> set as" using ch(3) by auto
    have c1: "chain h1 (jhead q) as" using ch(1) fresh by (auto intro: chain_frame simp: h1_def)
    obtain nd where nd: "h1 ?t = Some nd" using chain_dom[OF c1] False by (metis last_in_set not_None_eq)
    let ?h2 = "h1(?t \<mapsto> nd\<lparr>j_next := Some ?a\<rparr>)"
    have t: "?t \<noteq> ?a" "?t < ?a" using fresh ch(3) False last_in_set by metis+
    have "chain ?h2 (jhead q) (as @ [?a])"
      by (rule chain_snoc[OF c1 False _ _ _ nd, of ?a "\<lparr>j_next = None, j_job = x\<rparr>"]) (use ch(2) fresh in \<open>auto simp: h1_def\<close>)
    then have rp: "repr \<lparr>jheap = ?h2, jhead = jhead q, jtail = Some ?a, jbrk = ?a + 1\<rparr> (as @ [?a])"
      using ch t fresh by (auto simp: repr_def h1_def)
    have "jobs_at ?h2 as = jobs_at h1 as"
      by (rule jobs_at_frame) (use nd t chain_dom[OF c1] in \<open>auto split: if_splits\<close>)
    moreover have "jobs_at h1 as = jobs_at (jheap q) as" using fresh chain_dom[OF ch(1)] by (auto simp: jobs_at_def h1_def)
    ultimately have j: "jobs_at ?h2 (as @ [?a]) = jobs_at (jheap q) as @ [x]" using t by (simp add: jobs_at_def h1_def)
    then have "holds_jobs \<lparr>jheap = ?h2, jhead = jhead q, jtail = Some ?a, jbrk = ?a + 1\<rparr> (jobs_at (jheap q) as @ [x])"
      unfolding holds_jobs_def using rp d new by (intro conjI exI[of _ "as @ [?a]"]) simp_all
    moreover have "jhead q \<noteq> None" using ch(1) False by (cases as) auto
    ultimately show ?thesis using False nd ch(5) by auto
  qed
qed

lemma job_add_holds:
  assumes "holds_jobs q js" and "allocs c = []"
  shows "\<exists>q'. job_add c x q = Some (q', c) \<and>
    holds_jobs q' (if x \<in> set js then js else js @ [x])"
proof -
  obtain as where r: "repr q as" and js: "js = jobs_at (jheap q) as" and d: "distinct js"
    using assms(1) by (auto simp: holds_jobs_def)
  have ch: "chain (jheap q) (jhead q) as" "distinct as" "\<forall>a \<in> set as. a < jbrk q" using r by (auto simp: repr_def)
  have sc: "jscan (jbrk q) (jheap q) (jhead q) x = Some (x \<in> set js)"
    using jscan_chain[OF ch(1) chain_length_bound[OF ch(2,3)]] js by simp
  show ?thesis
  proof (cases "x \<in> set js")
    case True
    with sc assms(1) show ?thesis by (simp add: job_add_def Let_def)
  next
    case False
    from job_append[OF r d[unfolded js] False[unfolded js]] False sc assms(2) show ?thesis
      by (cases "as = []") (auto simp: job_add_def Let_def js jobs_at_def)
  qed
qed

lemma jdrain_chain:
  "chain h p as \<Longrightarrow> distinct as \<Longrightarrow> length as \<le> n \<Longrightarrow>
     jdrain n h p = Some (jobs_at h as, \<lambda>a. if a \<in> set as then None else h a)"
proof (induction as arbitrary: n p h)
  case Nil
  then show ?case by (simp add: jobs_at_def)
next
  case (Cons a as)
  then obtain nd m where p: "p = Some a" "h a = Some nd" "chain h (j_next nd) as" "n = Suc m"
    by (cases n) auto
  have "chain (h(a := None)) (j_next nd) as" using p(3) Cons.prems(2) by (auto intro: chain_frame)
  then have "jdrain m (h(a := None)) (j_next nd) =
      Some (jobs_at (h(a := None)) as, \<lambda>b. if b \<in> set as then None else (h(a := None)) b)"
    using Cons.IH[of "h(a := None)" "j_next nd" m] Cons.prems(2,3) p(4) by (simp del: fun_upd_apply)
  moreover have "jobs_at (h(a := None)) as = jobs_at h as"
    using Cons.prems(2) by (auto simp: jobs_at_def)
  ultimately show ?case using p by (auto simp: jobs_at_def fun_eq_iff)
qed

lemma job_runqueue_holds:
  assumes "holds_jobs q js"
  shows "\<exists>q'. job_runqueue q = Some (js, q') \<and> holds_jobs q' []
    \<and> (\<forall>as. repr q as \<longrightarrow> (\<forall>a \<in> set as. jheap q' a = None))"
proof -
  obtain as where r: "repr q as" and js: "js = jobs_at (jheap q) as"
    using assms by (auto simp: holds_jobs_def)
  then have ch: "chain (jheap q) (jhead q) as" "distinct as" "\<forall>a \<in> set as. a < jbrk q"
    "dom (jheap q) \<subseteq> {..<jbrk q}" by (auto simp: repr_def)
  have dr: "jdrain (jbrk q) (jheap q) (jhead q) =
      Some (js, \<lambda>a. if a \<in> set as then None else jheap q a)"
    using jdrain_chain[OF ch(1,2) chain_length_bound[OF ch(2,3)]] js by simp
  let ?q = "q\<lparr>jheap := (\<lambda>a. if a \<in> set as then None else jheap q a), jhead := None, jtail := None\<rparr>"
  have "repr ?q []" using ch(4) by (auto simp: repr_def dom_def split: if_splits)
  then have "holds_jobs ?q []" by (auto simp: holds_jobs_def jobs_at_def)
  moreover have "as' = as" if "repr q as'" for as'
  proof -
    have "chain h p xs \<Longrightarrow> chain h p ys \<Longrightarrow> xs = ys" for h :: "nat \<Rightarrow> 'a jnode option" and p xs ys
    proof (induction xs arbitrary: ys p)
      case Nil
      then show ?case by (cases ys) auto
    next
      case (Cons x xs)
      then show ?case by (cases ys) auto
    qed
    then show ?thesis using that ch(1) by (auto simp: repr_def)
  qed
  ultimately show ?thesis using dr by (auto simp: job_runqueue_def)
qed

section \<open>The contract\<close>

locale job_queue =
  fixes holds :: "'q \<Rightarrow> 'j list \<Rightarrow> bool"
    and add :: "'j \<Rightarrow> 'q \<Rightarrow> 'q option"
    and drain :: "'q \<Rightarrow> ('j list \<times> 'q) option"
  assumes add_law: "holds q js \<Longrightarrow> \<exists>q'. add x q = Some q' \<and> holds q' (if x \<in> set js then js else js @ [x])"
    and drain_law: "holds q js \<Longrightarrow> \<exists>q'. drain q = Some (js, q') \<and> holds q' []"
    and holds_distinct: "holds q js \<Longrightarrow> distinct js"
begin

fun add_all :: "'j list \<Rightarrow> 'q \<Rightarrow> 'q option" where
  "add_all [] q = Some q"
| "add_all (x # xs) q = (case add x q of None \<Rightarrow> None | Some q' \<Rightarrow> add_all xs q')"

fun enq :: "'j list \<Rightarrow> 'j list \<Rightarrow> 'j list" where
  "enq js [] = js"
| "enq js (x # xs) = enq (if x \<in> set js then js else js @ [x]) xs"

lemma add_all_holds: "holds q js \<Longrightarrow> \<exists>q'. add_all xs q = Some q' \<and> holds q' (enq js xs)"
proof (induction xs arbitrary: q js)
  case (Cons x xs)
  obtain q1 where "add x q = Some q1" "holds q1 (if x \<in> set js then js else js @ [x])"
    using add_law[OF Cons.prems] by blast
  with Cons.IH show ?case by auto
qed simp

lemma set_enq: "set (enq js xs) = set js \<union> set xs"
  by (induction js xs rule: enq.induct) auto

text \<open>Whatever is added, a drained queue runs each job once and is empty afterwards.\<close>

lemma add_all_drain:
  assumes "holds q js"
  obtains q1 q2 where "add_all xs q = Some q1" "drain q1 = Some (enq js xs, q2)" "holds q2 []"
    "distinct (enq js xs)"
  using add_all_holds[OF assms, of xs] drain_law holds_distinct by blast

end

text \<open>Allocation succeeds: a queue that runs out of memory drops the job silently.\<close>

definition job_add_ok :: "'j \<Rightarrow> 'j jstate \<Rightarrow> 'j jstate option" where
  "job_add_ok x q = map_option fst (job_add ctx0 x q)"

interpretation jq: job_queue holds_jobs job_add_ok job_runqueue
proof unfold_locales
  fix q :: "'a jstate" and js x
  assume h: "holds_jobs q js"
  show "\<exists>q'. job_add_ok x q = Some q' \<and> holds_jobs q' (if x \<in> set js then js else js @ [x])"
    using job_add_holds[OF h, of ctx0 x] by (auto simp: job_add_ok_def ctx0_def)
  show "\<exists>q'. job_runqueue q = Some (js, q') \<and> holds_jobs q' []"
    using job_runqueue_holds[OF h] by blast
  show "distinct js" using h by (simp add: holds_jobs_def)
qed

end
