(* ===== verification/CronSched.thy ===== *)
theory CronSched
  imports CronJob CronUser
begin

text \<open>
  \<open>cronie-1.4.6/src/cron.c\<close>: the clocks, the choice of the jobs to run (\<open>find_jobs\<close>), the main
  loop with its four kinds of wake-up, signals, \<open>@reboot\<close> jobs and the options; \<open>get_gmtoff\<close> of \<open>misc.c\<close>.

  A job is the pair of pointers \<open>(e, u)\<close>: the address of a table and the position of the entry in
  it. \<open>localtime\<close> (of a value of \<open>TZ\<close> and a time), \<open>gmtime\<close>, \<open>getpwnam\<close> and the readings of the clock are
  arguments. The field \<open>finds\<close> of the state records the calls of \<open>find_jobs\<close>, and \<open>ran\<close> what was
  given to \<open>do_command\<close>.
\<close>

section \<open>Clocks\<close>

record tm =
  tm_sec :: int
  tm_min :: int
  tm_hour :: int
  tm_mday :: int
  tm_mon :: int
  tm_year :: int
  tm_wday :: int
  tm_yday :: int
  tm_isdst :: int

definition tm_wf :: "tm \<Rightarrow> bool" where
  "tm_wf t \<longleftrightarrow> 0 \<le> tm_min t \<and> tm_min t \<le> 59 \<and> 0 \<le> tm_hour t \<and> tm_hour t \<le> 23
     \<and> 1 \<le> tm_mday t \<and> tm_mday t \<le> 31 \<and> 0 \<le> tm_mon t \<and> tm_mon t \<le> 11
     \<and> 0 \<le> tm_wday t \<and> tm_wday t \<le> 6"

definition get_gmtoff :: "tm \<Rightarrow> tm \<Rightarrow> int" where
  "get_gmtoff gmt loc =
     (let off = (tm_sec loc - tm_sec gmt) + (tm_min loc - tm_min gmt) * 60 + (tm_hour loc - tm_hour gmt) * 3600 in
      if tm_year loc < tm_year gmt then off - 24 * 3600
      else if tm_year loc > tm_year gmt then off + 24 * 3600
      else if tm_yday loc < tm_yday gmt then off - 24 * 3600
      else if tm_yday loc > tm_yday gmt then off + 24 * 3600
      else off)"

type_synonym job = "nat \<times> nat"
type_synonym cron_users = "(nat \<times> user) list"

record sched =
  StartTime :: int
  clockTime :: int
  timeRunning :: int
  virtualTime :: int
  GMToff :: int
  isdst :: int
  queue :: "job jstate"
  ran :: "job list"
  naps :: nat
  finds :: "(int \<times> bool \<times> bool) list"

record world =
  localtime :: "string option \<Rightarrow> int \<Rightarrow> tm"
  gmtime :: "int \<Rightarrow> tm"
  pwnam :: "string \<Rightarrow> passwd option"
  orig_tz :: "string option"

text \<open>\<open>set_time\<close>, with the value \<open>time (NULL)\<close> returns.\<close>

definition set_time :: "world \<Rightarrow> bool \<Rightarrow> int \<Rightarrow> sched \<Rightarrow> sched" where
  "set_time w initialize now s =
     (let t = localtime w (orig_tz w) now;
          s1 = s\<lparr>StartTime := now\<rparr>;
          s2 = (if initialize \<or> tm_isdst t \<noteq> isdst s1
                then s1\<lparr>isdst := tm_isdst t, GMToff := get_gmtoff (gmtime w now) t\<rparr> else s1)
      in s2\<lparr>clockTime := c_div (now + GMToff s2) 60\<rparr>)"

section \<open>find_jobs\<close>

text \<open>The value of \<open>TZ\<close> \<open>maketime\<close> sets (\<^const>\<open>None\<close>: unset).\<close>

definition maketime_tz :: "string option \<Rightarrow> string option \<Rightarrow> string option" where
  "maketime_tz tz1 tz2 = (case tz1 of Some t \<Rightarrow> if t \<noteq> [] then Some t else tz2 | None \<Rightarrow> tz2)"

definition time_matches :: "tm \<Rightarrow> entry \<Rightarrow> bool" where
  "time_matches t e \<longleftrightarrow>
     (let minute = nat (tm_min t - FIRST_MINUTE); hour = nat (tm_hour t - FIRST_HOUR);
          dom = nat (tm_mday t - FIRST_DOM); month = nat (tm_mon t + 1 - FIRST_MONTH);
          dow = nat (tm_wday t - FIRST_DOW); m = tbits e
      in bit_test m minute_at minute \<and> bit_test m hour_at hour \<and> bit_test m month_at month \<and>
         (if flags e AND DOM_STAR \<noteq> 0 \<or> flags e AND DOW_STAR \<noteq> 0
          then bit_test m dow_at dow \<and> bit_test m dom_at dom
          else bit_test m dow_at dow \<or> bit_test m dom_at dom))"

definition wild :: "entry \<Rightarrow> bool" where
  "wild e \<longleftrightarrow> flags e AND (MIN_STAR OR HR_STAR) \<noteq> 0"

definition entry_due :: "world \<Rightarrow> int \<Rightarrow> bool \<Rightarrow> bool \<Rightarrow> entry \<Rightarrow> bool" where
  "entry_due w start doWild doNonWild e \<longleftrightarrow>
     pwnam w (pw_name (pwd e)) \<noteq> None \<and>
     time_matches (localtime w (maketime_tz (env_get ''CRON_TZ'' (envp e)) (orig_tz w)) start) e \<and>
     ((doNonWild \<and> \<not> wild e) \<or> (doWild \<and> wild e))"

fun find_entries ::
  "(entry \<Rightarrow> bool) \<Rightarrow> nat \<Rightarrow> nat \<Rightarrow> entry list \<Rightarrow> job jstate \<Rightarrow> job jstate option" where
  "find_entries p u i [] q = Some q"
| "find_entries p u i (e # es) q =
     (if p e then (case job_add_ok (u, i) q of None \<Rightarrow> None | Some q' \<Rightarrow> find_entries p u (i + 1) es q')
      else find_entries p u (i + 1) es q)"

fun find_users :: "(entry \<Rightarrow> bool) \<Rightarrow> cron_users \<Rightarrow> job jstate \<Rightarrow> job jstate option" where
  "find_users p [] q = Some q"
| "find_users p ((a, u) # us) q =
     (case find_entries p a 0 (crontab u) q of None \<Rightarrow> None | Some q' \<Rightarrow> find_users p us q')"

text \<open>\<open>vtime\<close> is only used to call \<open>gmtime\<close>, whose result \<open>maketime\<close> overwrites.\<close>

definition find_jobs :: "world \<Rightarrow> cron_users \<Rightarrow> int \<Rightarrow> bool \<Rightarrow> bool \<Rightarrow> sched \<Rightarrow> sched option" where
  "find_jobs w db vtime doWild doNonWild s =
     map_option (\<lambda>q. s\<lparr>queue := q, finds := finds s @ [(vtime, doWild, doNonWild)]\<rparr>)
       (find_users (entry_due w (StartTime s) doWild doNonWild) db (queue s))"

definition run_queue :: "sched \<Rightarrow> (nat \<times> sched) option" where
  "run_queue s =
     (case job_runqueue (queue s) of
        None \<Rightarrow> None
      | Some (js, q) \<Rightarrow> Some (length js, s\<lparr>queue := q, ran := ran s @ js\<rparr>))"

text \<open>\<open>if (job_runqueue()) sleep(10);\<close>\<close>

definition run_and_nap :: "sched \<Rightarrow> sched option" where
  "run_and_nap s =
     (case run_queue s of
        None \<Rightarrow> None
      | Some (n, s1) \<Rightarrow> Some (if n \<noteq> 0 then s1\<lparr>naps := naps s1 + 1\<rparr> else s1))"

section \<open>The main loop\<close>

datatype timejump = negative | small | medium | large

definition wakeup_kind :: "int \<Rightarrow> timejump" where
  "wakeup_kind timeDiff =
     (if timeDiff > 3 * 60 \<or> timeDiff < - (3 * 60) then large
      else if timeDiff > 5 then medium
      else if timeDiff > 0 then small
      else negative)"

lemma run_and_nap_times:
  assumes "run_and_nap s = Some s'"
  shows "virtualTime s' = virtualTime s \<and> timeRunning s' = timeRunning s \<and> StartTime s' = StartTime s
    \<and> finds s' = finds s \<and> clockTime s' = clockTime s"
  using assms by (auto simp: run_and_nap_def run_queue_def split: option.splits)

lemma find_jobs_times:
  assumes "find_jobs w db v a b s = Some s'"
  shows "virtualTime s' = virtualTime s \<and> timeRunning s' = timeRunning s \<and> StartTime s' = StartTime s
    \<and> finds s' = finds s @ [(v, a, b)] \<and> clockTime s' = clockTime s \<and> ran s' = ran s"
  using assms by (auto simp: find_jobs_def)

lemma set_time_times:
  "virtualTime (set_time w i now s) = virtualTime s" "timeRunning (set_time w i now s) = timeRunning s"
  "StartTime (set_time w i now s) = now" "finds (set_time w i now s) = finds s"
  "queue (set_time w i now s) = queue s" "ran (set_time w i now s) = ran s"
  by (simp_all add: set_time_def Let_def)

text \<open>One round of the loop of case \<open>small\<close>.\<close>

definition small_round :: "world \<Rightarrow> cron_users \<Rightarrow> sched \<Rightarrow> sched option" where
  "small_round w db s =
     (case run_and_nap s of
        None \<Rightarrow> None
      | Some s1 \<Rightarrow>
          (let s2 = s1\<lparr>virtualTime := virtualTime s1 + 1\<rparr> in
           find_jobs w db (virtualTime s2) True True s2))"

lemma small_round_times:
  assumes "small_round w db s = Some s'"
  shows "virtualTime s' = virtualTime s + 1 \<and> timeRunning s' = timeRunning s \<and> StartTime s' = StartTime s
    \<and> finds s' = finds s @ [(virtualTime s + 1, True, True)]"
  using assms by (auto simp: small_round_def Let_def split: option.splits
      dest!: run_and_nap_times find_jobs_times)

function small_loop :: "world \<Rightarrow> cron_users \<Rightarrow> sched \<Rightarrow> sched option" where
  "small_loop w db s =
     (case small_round w db s of
        None \<Rightarrow> None
      | Some s1 \<Rightarrow> if virtualTime s1 < timeRunning s1 then small_loop w db s1 else Some s1)"
  by pat_completeness auto
termination
  by (relation "measure (\<lambda>(w, db, s). nat (timeRunning s - virtualTime s))")
     (auto dest!: small_round_times)

declare small_loop.simps [simp del]

text \<open>Case \<open>medium\<close>: the clock is read after every round; \<open>ts\<close> are the readings (the last one
  repeats).\<close>

definition medium_round :: "world \<Rightarrow> cron_users \<Rightarrow> int \<Rightarrow> sched \<Rightarrow> sched option" where
  "medium_round w db now s =
     (case run_and_nap s of
        None \<Rightarrow> None
      | Some s1 \<Rightarrow>
          (let s2 = s1\<lparr>virtualTime := virtualTime s1 + 1\<rparr> in
           map_option (set_time w False now) (find_jobs w db (virtualTime s2) False True s2)))"

lemma medium_round_times:
  assumes "medium_round w db now s = Some s'"
  shows "virtualTime s' = virtualTime s + 1 \<and> timeRunning s' = timeRunning s \<and> StartTime s' = now
    \<and> finds s' = finds s @ [(virtualTime s + 1, False, True)]"
  using assms by (auto simp: medium_round_def Let_def set_time_times split: option.splits
      dest!: run_and_nap_times find_jobs_times)

function medium_loop :: "world \<Rightarrow> cron_users \<Rightarrow> int list \<Rightarrow> sched \<Rightarrow> sched option" where
  "medium_loop w db ts s =
     (let now = (case ts of [] \<Rightarrow> StartTime s | t # _ \<Rightarrow> t) in
      case medium_round w db now s of
        None \<Rightarrow> None
      | Some s1 \<Rightarrow>
          if virtualTime s1 < timeRunning s1 \<and> clockTime s1 = timeRunning s1
          then medium_loop w db (tl ts) s1 else Some s1)"
  by pat_completeness auto
termination
  by (relation "measure (\<lambda>(w, db, ts, s). nat (timeRunning s - virtualTime s))")
     (auto dest!: medium_round_times)

declare medium_loop.simps [simp del]

text \<open>Lines 300 to 404: \<open>set_time\<close> has just read a clock minute different from \<open>timeRunning\<close>, and \<open>db\<close>
  is the reloaded database.\<close>

definition wake :: "world \<Rightarrow> cron_users \<Rightarrow> int list \<Rightarrow> sched \<Rightarrow> sched option" where
  "wake w db ts s =
     (let s0 = s\<lparr>timeRunning := clockTime s\<rparr>;
          timeDiff = timeRunning s0 - virtualTime s0;
          jobs =
            (if timeDiff = 1 then
               (let s1 = s0\<lparr>virtualTime := timeRunning s0\<rparr> in find_jobs w db (virtualTime s1) True True s1)
             else case wakeup_kind timeDiff of
               small \<Rightarrow> small_loop w db s0
             | medium \<Rightarrow>
                 (case find_jobs w db (timeRunning s0) True False s0 of
                    None \<Rightarrow> None
                  | Some s1 \<Rightarrow> medium_loop w db ts s1)
             | negative \<Rightarrow> find_jobs w db (timeRunning s0) True False s0
             | large \<Rightarrow>
                 (let s1 = s0\<lparr>virtualTime := timeRunning s0\<rparr> in find_jobs w db (timeRunning s1) True True s1))
      in case jobs of
           None \<Rightarrow> None
         | Some s1 \<Rightarrow> map_option snd (run_queue s1))"

section \<open>Sleeping and signals\<close>

record daemon =
  got_sighup :: bool
  got_sigchld :: bool
  inotify_enabled :: bool
  EnableClustering :: bool
  db_mtime :: int
  wd :: "int list"
  removed :: "int list"
  log_open :: bool

text \<open>The loop over \<open>wd\<close>; \<open>removed\<close> collects what is given to \<open>inotify_rm_watch\<close>.\<close>

definition set_cron_unwatched :: "daemon \<Rightarrow> daemon" where
  "set_cron_unwatched d =
     d\<lparr>removed := removed d @ filter (\<lambda>x. x < 0) (wd d), wd := map (\<lambda>x. if x < 0 then -1 else x) (wd d)\<rparr>"

text \<open>\<open>add_watch\<close> gives the result of \<open>inotify_add_watch\<close> for each path.\<close>

fun watch_loop :: "(string \<Rightarrow> int) \<Rightarrow> nat \<Rightarrow> string list \<Rightarrow> ctx \<Rightarrow> daemon \<Rightarrow> bool \<times> ctx \<times> daemon" where
  "watch_loop add_watch i [] c d = (True, c, d)"
| "watch_loop add_watch i (p # ps) c d =
     (let w = add_watch p in
      if w < 0 then
        let c1 = (if wd d ! i \<noteq> -1 then
                    log_msg ''CRON'' ''INFO'' ''running without inotify support''
                      (log_msg ''CRON'' ''This directory or file can't be watched'' p c) else c)
        in (False, c1, set_cron_unwatched (d\<lparr>inotify_enabled := False\<rparr>))
      else watch_loop add_watch (i + 1) ps c (d\<lparr>wd := (wd d)[i := w]\<rparr>))"

definition set_cron_watched :: "(string \<Rightarrow> int) \<Rightarrow> string list \<Rightarrow> int \<Rightarrow> ctx \<Rightarrow> daemon \<Rightarrow> ctx \<times> daemon" where
  "set_cron_watched add_watch watchpaths fd c d =
     (if fd < 0 then (c, d\<lparr>inotify_enabled := False\<rparr>)
      else case watch_loop add_watch 0 watchpaths c d of
        (False, c1, d1) \<Rightarrow> (c1, d1)
      | (True, c1, d1) \<Rightarrow>
          ((if \<not> inotify_enabled d1 then log_msg ''CRON'' ''INFO'' ''running with inotify support'' c1 else c1),
           d1\<lparr>inotify_enabled := True\<rparr>))"

text \<open>\<open>waitpid\<close> results until none is positive; \<open>continue\<close> in a \<open>do\<close> loop goes to its condition, so an
  interrupted call ends the loop as well.\<close>

fun sigchld_reaper :: "int list \<Rightarrow> int list" where
  "sigchld_reaper [] = []"
| "sigchld_reaper (pid # pids) = (if pid > 0 then pid # sigchld_reaper pids else [])"

definition handle_signals :: "daemon \<Rightarrow> daemon" where
  "handle_signals d =
     (let d1 =
        (if got_sighup d then
           let d2 = d\<lparr>got_sighup := False\<rparr>;
               d3 = (if inotify_enabled d2 \<and> \<not> EnableClustering d2
                     then (set_cron_unwatched d2)\<lparr>inotify_enabled := False\<rparr> else d2)
           in d3\<lparr>db_mtime := 0, log_open := False\<rparr>
         else d)
      in if got_sigchld d1 then d1\<lparr>got_sigchld := False\<rparr> else d1)"

text \<open>\<open>cron_sleep\<close>: the readings \<open>t2\<close> after each \<open>sleep\<close>; the result is the last one and the number of
  times \<open>handle_signals\<close> ran. \<^const>\<open>None\<close>: no more readings were given.\<close>

fun sleep_loop :: "int \<Rightarrow> int \<Rightarrow> int list \<Rightarrow> (int \<times> nat) option" where
  "sleep_loop secs t1 [] = (if 0 < secs \<and> secs < 65 then None else Some (t1, 0))"
| "sleep_loop secs t1 (t2 # ts) =
     (if 0 < secs \<and> secs < 65 then
        map_option (\<lambda>(t, n). (t, n + 1)) (sleep_loop (s32 (secs - s32 (t2 - t1))) t2 ts)
      else Some (t1, 0))"

definition cron_sleep :: "int \<Rightarrow> int \<Rightarrow> int list \<Rightarrow> (int \<times> nat) option" where
  "cron_sleep target t1 ts = sleep_loop (s32 (s32 (s32 (target * 60) - t1) + 1)) t1 ts"

section \<open>Start-up\<close>

fun reboot_entries :: "nat \<Rightarrow> nat \<Rightarrow> entry list \<Rightarrow> job jstate \<Rightarrow> job jstate option" where
  "reboot_entries u i [] q = Some q"
| "reboot_entries u i (e # es) q =
     (if flags e AND WHEN_REBOOT \<noteq> 0
      then (case job_add_ok (u, i) q of None \<Rightarrow> None | Some q' \<Rightarrow> reboot_entries u (i + 1) es q')
      else reboot_entries u (i + 1) es q)"

fun reboot_users :: "cron_users \<Rightarrow> job jstate \<Rightarrow> job jstate option" where
  "reboot_users [] q = Some q"
| "reboot_users ((a, u) # us) q =
     (case reboot_entries a 0 (crontab u) q of None \<Rightarrow> None | Some q' \<Rightarrow> reboot_users us q')"

text \<open>The lock file exists or not; creating it may fail. The first component is whether it exists
  afterwards.\<close>

definition run_reboot_jobs :: "bool \<Rightarrow> bool \<Rightarrow> cron_users \<Rightarrow> ctx \<Rightarrow> sched \<Rightarrow> (bool \<times> ctx \<times> sched) option" where
  "run_reboot_jobs lock creat_ok db c s =
     (if lock then Some (True, log_msg ''CRON'' ''INFO'' ''@reboot jobs will be run at computer's startup.'' c, s)
      else
        let c1 = (if creat_ok then c else log_msg ''CRON'' ''INFO'' ''Can't create lock for reboot jobs.'' c)
        in case reboot_users db (queue s) of
             None \<Rightarrow> None
           | Some q \<Rightarrow> map_option (\<lambda>(n, s1). (creat_ok, c1, s1)) (run_queue (s\<lparr>queue := q\<rparr>)))"

record cron_opts =
  NoFork :: bool
  PermitAnyCrontab :: bool
  SyslogOutput :: bool
  DisableInotify :: bool
  Clustering :: bool
  MailCmd :: string
  DebugFlags :: nat

text \<open>The options \<open>getopt\<close> delivers, with their arguments; \<^const>\<open>None\<close> is \<open>usage ()\<close>, which exits.\<close>

fun parse_args :: "(char \<times> string) list \<Rightarrow> cron_opts \<Rightarrow> cron_opts option" where
  "parse_args [] o' = Some o'"
| "parse_args ((ch, optarg) # as) o' =
     (if ch = CHR ''x'' then
        (case set_debug_flags optarg of None \<Rightarrow> None | Some m \<Rightarrow> parse_args as (o'\<lparr>DebugFlags := m\<rparr>))
      else if ch = CHR ''n'' then parse_args as (o'\<lparr>NoFork := True\<rparr>)
      else if ch = CHR ''p'' then parse_args as (o'\<lparr>PermitAnyCrontab := True\<rparr>)
      else if ch = CHR ''s'' then parse_args as (o'\<lparr>SyslogOutput := True\<rparr>)
      else if ch = CHR ''i'' then parse_args as (o'\<lparr>DisableInotify := True\<rparr>)
      else if ch = CHR ''m'' then parse_args as (o'\<lparr>MailCmd := take MAX_COMMAND optarg\<rparr>)
      else if ch = CHR ''c'' then parse_args as (o'\<lparr>Clustering := True\<rparr>)
      else None)"

end
