(* ===== verification/CronDatabase.thy ===== *)
theory CronDatabase
  imports CronSched
begin

text \<open>
  \<open>cronie-1.4.6/src/database.c\<close>: the tables in memory, a doubly linked list of users, and its
  update from the crontab files. The nodes live in one heap that the old and the new database share;
  the file system is the argument \<open>fs\<close> (what \<open>stat\<close>, \<open>open\<close>, \<open>opendir\<close> and \<open>readdir\<close> return), and the paths of the
  generated \<open>cron-paths.h\<close> are fields of \<open>dbcfg\<close>.
\<close>

section \<open>Data\<close>

record unode =
  u_next :: "nat option"
  u_prev :: "nat option"
  u_data :: user

type_synonym uheap = "nat \<Rightarrow> unode option"

record cron_db =
  db_head :: "nat option"
  db_tail :: "nat option"
  mtime_db :: int

record fstat =
  st_mtime :: int
  st_reg :: bool
  st_mode :: "32 word"
  st_uid :: int
  st_nlink :: int

record fs =
  fs_stat :: "string \<Rightarrow> fstat option"
  fs_open :: "string \<Rightarrow> (fstat option \<times> string) option"
  fs_dir :: "string \<Rightarrow> string list option"

record dbcfg =
  SPOOL_DIR :: string
  SYS_CROND_DIR :: string
  SYSCRONTAB :: string
  CRON_HOSTNAME :: string
  permit_any :: bool
  clustering :: bool
  gethostname :: "string option"
  lib_selinux :: selinux
  lib_getpwnam :: "string \<Rightarrow> passwd option"
  stale :: string

definition watchpaths :: "dbcfg \<Rightarrow> string list" where
  "watchpaths cfg = [SPOOL_DIR cfg, SYS_CROND_DIR cfg, SYSCRONTAB cfg]"

definition MAXNAMLEN :: nat where [macro_defs]: "MAXNAMLEN = 255"
definition MAXHOSTNAMELEN :: nat where [macro_defs]: "MAXHOSTNAMELEN = 64"

section \<open>The linked list\<close>

text \<open>Writes through a pointer; \<^const>\<open>None\<close> when there is no node.\<close>

definition upd_node :: "nat \<Rightarrow> (unode \<Rightarrow> unode) \<Rightarrow> uheap \<Rightarrow> uheap option" where
  "upd_node a f h = (case h a of None \<Rightarrow> None | Some nd \<Rightarrow> Some (h(a \<mapsto> f nd)))"

definition link_user :: "uheap \<Rightarrow> cron_db \<Rightarrow> nat \<Rightarrow> (uheap \<times> cron_db) option" where
  "link_user h db u =
     (let db1 = (if db_head db = None then db\<lparr>db_head := Some u\<rparr> else db) in
      case (case db_tail db1 of None \<Rightarrow> Some h | Some t \<Rightarrow> upd_node t (\<lambda>n. n\<lparr>u_next := Some u\<rparr>) h) of
        None \<Rightarrow> None
      | Some h1 \<Rightarrow>
          (case upd_node u (\<lambda>n. n\<lparr>u_prev := db_tail db1, u_next := None\<rparr>) h1 of
             None \<Rightarrow> None
           | Some h2 \<Rightarrow> Some (h2, db1\<lparr>db_tail := Some u\<rparr>)))"

definition unlink_user :: "uheap \<Rightarrow> cron_db \<Rightarrow> nat \<Rightarrow> (uheap \<times> cron_db) option" where
  "unlink_user h db u =
     (case h u of
        None \<Rightarrow> None
      | Some n \<Rightarrow>
          (case (case u_prev n of
                   None \<Rightarrow> Some (h, db\<lparr>db_head := u_next n\<rparr>)
                 | Some p \<Rightarrow> map_option (\<lambda>h. (h, db)) (upd_node p (\<lambda>m. m\<lparr>u_next := u_next n\<rparr>) h)) of
             None \<Rightarrow> None
           | Some (h1, db1) \<Rightarrow>
               (case u_next n of
                  None \<Rightarrow> Some (h1, db1\<lparr>db_tail := u_prev n\<rparr>)
                | Some x \<Rightarrow> map_option (\<lambda>h. (h, db1)) (upd_node x (\<lambda>m. m\<lparr>u_prev := u_prev n\<rparr>) h1))))"

text \<open>The scan; the fuel bounds the number of nodes.\<close>

fun find_from :: "nat \<Rightarrow> uheap \<Rightarrow> nat option \<Rightarrow> (user \<Rightarrow> bool) \<Rightarrow> nat option option" where
  "find_from k h None p = Some None"
| "find_from 0 h (Some a) p = None"
| "find_from (Suc k) h (Some a) p =
     (case h a of
        None \<Rightarrow> None
      | Some nd \<Rightarrow> if p (u_data nd) then Some (Some a) else find_from k h (u_next nd) p)"

definition user_match :: "string \<Rightarrow> string option \<Rightarrow> user \<Rightarrow> bool" where
  "user_match name tab u \<longleftrightarrow> user_name u = name \<and> (tab = None \<or> tab = Some (tabname u))"

definition find_user :: "nat \<Rightarrow> uheap \<Rightarrow> cron_db \<Rightarrow> string \<Rightarrow> string option \<Rightarrow> nat option option" where
  "find_user brk h db name tab = find_from brk h (db_head db) (user_match name tab)"

text \<open>\<open>free_user\<close>: the node is gone.\<close>

definition free_node :: "nat \<Rightarrow> uheap \<Rightarrow> uheap" where
  "free_node a h = h(a := None)"

fun junk_loop :: "nat \<Rightarrow> uheap \<Rightarrow> cron_db \<Rightarrow> nat option \<Rightarrow> uheap option" where
  "junk_loop k h db None = Some h"
| "junk_loop 0 h db (Some u) = None"
| "junk_loop (Suc k) h db (Some u) =
     (case h u of
        None \<Rightarrow> None
      | Some n \<Rightarrow>
          (case unlink_user h db u of
             None \<Rightarrow> None
           | Some (h1, db1) \<Rightarrow> junk_loop k (free_node u h1) db1 (u_next n)))"

definition overwrite_database :: "nat \<Rightarrow> uheap \<Rightarrow> cron_db \<Rightarrow> cron_db \<Rightarrow> (uheap \<times> cron_db) option" where
  "overwrite_database brk h old_db new_db =
     map_option (\<lambda>h1. (h1, new_db)) (junk_loop brk h old_db (db_head old_db))"

section \<open>Crontab files\<close>

definition check_open ::
  "dbcfg \<Rightarrow> fs \<Rightarrow> ctx \<Rightarrow> string \<Rightarrow> string \<Rightarrow> passwd option \<Rightarrow> (int \<times> string) option \<times> ctx" where
  "check_open cfg f c tab uname pw =
     (case fs_open f tab of
        None \<Rightarrow> (None, log_msg uname ''CAN'T OPEN'' tab c)
      | Some (None, _) \<Rightarrow> (None, log_msg uname ''STAT FAILED'' tab c)
      | Some (Some st, txt) \<Rightarrow>
          if permit_any cfg then (Some (st_mtime st, txt), c)
          else if \<not> st_reg st then (None, log_msg uname ''NOT REGULAR'' tab c)
          else if st_mode st AND 0xF5B \<noteq> 0x100 then (None, log_msg uname ''BAD FILE MODE'' tab c)
          else if st_uid st \<noteq> 0 \<and>
              (pw = None \<or> st_uid st \<noteq> pw_uid (the pw) \<or> uname \<noteq> pw_name (the pw))
          then (None, log_msg uname ''WRONG FILE OWNER'' tab c)
          else if pw \<noteq> None \<and> st_nlink st \<noteq> 1 then (None, log_msg uname ''BAD LINK COUNT'' tab c)
          else (Some (st_mtime st, txt), c))"

definition has_suffix :: "string \<Rightarrow> string \<Rightarrow> bool" where
  "has_suffix s x \<longleftrightarrow> length s > length x \<and> drop (length s - length x) s = x"

definition not_a_crontab :: "dbcfg \<Rightarrow> string \<Rightarrow> bool" where
  "not_a_crontab cfg d_name \<longleftrightarrow>
     hd0 d_name = CHR ''.'' \<or> hd0 d_name = CHR ''#'' \<or> d_name = CRON_HOSTNAME cfg \<or>
     length d_name \<ge> MAXNAMLEN \<or>
     (d_name \<noteq> [] \<and> last d_name = CHR ''~'') \<or>
     has_suffix d_name ''.rpmsave'' \<or> has_suffix d_name ''.rpmorig'' \<or> has_suffix d_name ''.rpmnew''"

definition tab_path :: "string \<Rightarrow> string \<Rightarrow> string option" where
  "tab_path dir d_name = glue_strings (MAXNAMLEN + 1) dir d_name CHR ''/''"

text \<open>\<open>max_st->st_mtime\<close> after the loop.\<close>

fun max_mtime_loop :: "dbcfg \<Rightarrow> fs \<Rightarrow> string \<Rightarrow> string list \<Rightarrow> int \<Rightarrow> int" where
  "max_mtime_loop cfg f dir [] t = t"
| "max_mtime_loop cfg f dir (d # ds) t =
     max_mtime_loop cfg f dir ds
       (if not_a_crontab cfg d \<and> d \<noteq> CRON_HOSTNAME cfg then t
        else case tab_path dir d of
          None \<Rightarrow> t
        | Some tab \<Rightarrow>
            (case fs_stat f tab of None \<Rightarrow> t | Some st \<Rightarrow> if st_mtime st > t then st_mtime st else t))"

definition max_mtime :: "dbcfg \<Rightarrow> fs \<Rightarrow> string \<Rightarrow> int \<Rightarrow> int" where
  "max_mtime cfg f dir t =
     (case fs_dir f dir of None \<Rightarrow> 0 | Some ds \<Rightarrow> max_mtime_loop cfg f dir ds t)"

definition cluster_host_is_local :: "dbcfg \<Rightarrow> fs \<Rightarrow> bool" where
  "cluster_host_is_local cfg f =
     (if \<not> clustering cfg then True
      else case tab_path (SPOOL_DIR cfg) (CRON_HOSTNAME cfg) of
        None \<Rightarrow> False
      | Some filename \<Rightarrow>
          (case fs_open f filename of
             None \<Rightarrow> False
           | Some (_, txt) \<Rightarrow>
               (case get_string MAXHOSTNAMELEN (open_stream txt) [NL] of
                  (r, hostname, _) \<Rightarrow> r \<noteq> None \<and> gethostname cfg = Some hostname)))"

record dbstate =
  ds_heap :: uheap
  ds_brk :: nat
  ds_ctx :: ctx
  ds_new :: cron_db
  ds_old :: cron_db

text \<open>The part of \<open>process_crontab\<close> from line 148 on; a new table gets a fresh address.\<close>

definition load_and_link ::
  "dbcfg \<Rightarrow> dbstate \<Rightarrow> passwd option \<Rightarrow> string \<Rightarrow> string \<Rightarrow> string \<Rightarrow> int \<Rightarrow> string \<Rightarrow> dbstate option" where
  "load_and_link cfg s pw uname fname tab mt txt =
     (case load_user (lib_selinux cfg) (lib_getpwnam cfg) (ds_ctx s) (Some (open_stream txt)) pw uname fname
             tab (stale cfg) of
        None \<Rightarrow> None
      | Some (None, c1) \<Rightarrow> Some (s\<lparr>ds_ctx := c1\<rparr>)
      | Some (Some u, c1) \<Rightarrow>
          (let a = ds_brk s;
               h1 = (ds_heap s)(a \<mapsto> \<lparr>u_next = None, u_prev = None, u_data = u\<lparr>mtime := mt\<rparr>\<rparr>)
           in map_option (\<lambda>(h2, db). s\<lparr>ds_heap := h2, ds_brk := a + 1, ds_ctx := c1, ds_new := db\<rparr>)
                (link_user h1 (ds_new s) a)))"

definition process_crontab ::
  "dbcfg \<Rightarrow> fs \<Rightarrow> string \<Rightarrow> string option \<Rightarrow> string \<Rightarrow> dbstate \<Rightarrow> dbstate option" where
  "process_crontab cfg f uname fname0 tab s =
     (let crond_crontab = (fname0 = None \<and> tab \<noteq> SYSCRONTAB cfg);
          fname = (case fname0 of None \<Rightarrow> ''*system*'' | Some n \<Rightarrow> n);
          pw = (if fname0 = None then None else lib_getpwnam cfg uname)
      in
      if fname0 \<noteq> None \<and> pw = None then
        Some (s\<lparr>ds_ctx := log_msg uname ''ORPHAN'' ''no passwd entry'' (ds_ctx s)\<rparr>)
      else case check_open cfg f (ds_ctx s) tab uname pw of
        (None, c1) \<Rightarrow> Some (s\<lparr>ds_ctx := c1\<rparr>)
      | (Some (mt, txt), c1) \<Rightarrow>
          (let s1 = s\<lparr>ds_ctx := c1\<rparr> in
           case find_user (ds_brk s1) (ds_heap s1) (ds_old s1) fname (if crond_crontab then Some tab else None) of
             None \<Rightarrow> None
           | Some None \<Rightarrow> load_and_link cfg s1 pw uname fname tab mt txt
           | Some (Some u) \<Rightarrow>
               (case ds_heap s1 u of
                  None \<Rightarrow> None
                | Some nd \<Rightarrow>
                    (case unlink_user (ds_heap s1) (ds_old s1) u of
                       None \<Rightarrow> None
                     | Some (h2, old2) \<Rightarrow>
                         if mtime (u_data nd) = mt then
                           map_option (\<lambda>(h3, new3). s1\<lparr>ds_heap := h3, ds_new := new3, ds_old := old2\<rparr>)
                             (link_user h2 (ds_new s1) u)
                         else
                           load_and_link cfg
                             (s1\<lparr>ds_heap := free_node u h2, ds_old := old2,
                                 ds_ctx := log_msg fname ''RELOAD'' tab (ds_ctx s1)\<rparr>)
                             pw uname fname tab mt txt))))"

fun crond_loop :: "dbcfg \<Rightarrow> fs \<Rightarrow> string list \<Rightarrow> dbstate \<Rightarrow> dbstate option" where
  "crond_loop cfg f [] s = Some s"
| "crond_loop cfg f (d # ds) s =
     (if not_a_crontab cfg d then crond_loop cfg f ds s
      else case tab_path (SYS_CROND_DIR cfg) d of
        None \<Rightarrow> crond_loop cfg f ds s
      | Some tab \<Rightarrow>
          (case process_crontab cfg f ''root'' None tab s of None \<Rightarrow> None | Some s1 \<Rightarrow> crond_loop cfg f ds s1))"

fun spool_loop :: "dbcfg \<Rightarrow> fs \<Rightarrow> string list \<Rightarrow> dbstate \<Rightarrow> dbstate option" where
  "spool_loop cfg f [] s = Some s"
| "spool_loop cfg f (d # ds) s =
     (if not_a_crontab cfg d then spool_loop cfg f ds s
      else case tab_path (SPOOL_DIR cfg) d of
        None \<Rightarrow> spool_loop cfg f ds s
      | Some tab \<Rightarrow>
          (case process_crontab cfg f d (Some d) tab s of None \<Rightarrow> None | Some s1 \<Rightarrow> spool_loop cfg f ds s1))"

definition scan_dir ::
  "fs \<Rightarrow> string \<Rightarrow> (string list \<Rightarrow> dbstate \<Rightarrow> dbstate option) \<Rightarrow> dbstate \<Rightarrow> dbstate option" where
  "scan_dir f dir loop s =
     (case fs_dir f dir of
        None \<Rightarrow> Some (s\<lparr>ds_ctx := log_msg ''CRON'' ''OPENDIR FAILED'' dir (ds_ctx s)\<rparr>)
      | Some ds \<Rightarrow> loop ds s)"

text \<open>The new modification time, and the messages of the failed \<open>stat\<close>s.\<close>

definition db_stamp :: "dbcfg \<Rightarrow> fs \<Rightarrow> ctx \<Rightarrow> int \<times> ctx \<times> int" where
  "db_stamp cfg f c =
     (let (sp, c1) = (case fs_stat f (SPOOL_DIR cfg) of
            None \<Rightarrow> (0, log_msg ''CRON'' ''STAT FAILED'' (SPOOL_DIR cfg) c)
          | Some st \<Rightarrow> (max_mtime cfg f (SPOOL_DIR cfg) (st_mtime st), c));
          (cd, c2) = (case fs_stat f (SYS_CROND_DIR cfg) of
            None \<Rightarrow> (0, log_msg ''CRON'' ''STAT FAILED'' (SYS_CROND_DIR cfg) c1)
          | Some st \<Rightarrow> (max_mtime cfg f (SYS_CROND_DIR cfg) (st_mtime st), c1));
          sy = (case fs_stat f (SYSCRONTAB cfg) of None \<Rightarrow> 0 | Some st \<Rightarrow> st_mtime st)
      in (max cd (max sp sy), c2, sy))"

definition empty_db :: "int \<Rightarrow> cron_db" where
  "empty_db t = \<lparr>db_head = None, db_tail = None, mtime_db = t\<rparr>"

definition finish_load :: "dbstate \<Rightarrow> dbstate option" where
  "finish_load s =
     map_option (\<lambda>(h, db). s\<lparr>ds_heap := h, ds_old := db\<rparr>)
       (overwrite_database (ds_brk s) (ds_heap s) (ds_old s) (ds_new s))"

text \<open>The result and the state, in which \<open>ds_old\<close> is the database of the caller.\<close>

definition load_database :: "dbcfg \<Rightarrow> fs \<Rightarrow> dbstate \<Rightarrow> (bool \<times> dbstate) option" where
  "load_database cfg f s =
     (case db_stamp cfg f (ds_ctx s) of
        (stamp, c1, sy) \<Rightarrow>
          if mtime_db (ds_old s) = stamp then Some (False, s\<lparr>ds_ctx := c1\<rparr>)
          else
            let s1 = s\<lparr>ds_ctx := c1, ds_new := empty_db stamp\<rparr> in
            case (if sy \<noteq> 0 then process_crontab cfg f ''root'' None (SYSCRONTAB cfg) s1 else Some s1) of
              None \<Rightarrow> None
            | Some s2 \<Rightarrow>
                (case scan_dir f (SYS_CROND_DIR cfg) (crond_loop cfg f) s2 of
                   None \<Rightarrow> None
                 | Some s3 \<Rightarrow>
                     (case scan_dir f (SPOOL_DIR cfg)
                             (\<lambda>ds s. if cluster_host_is_local cfg f then spool_loop cfg f ds s else Some s) s3 of
                        None \<Rightarrow> None
                      | Some s4 \<Rightarrow> map_option (\<lambda>s5. (True, s5)) (finish_load s4))))"

text \<open>What \<open>select\<close> and \<open>read\<close> say: nothing to do, an error to report, a fatal read, or events. \<open>garbage\<close> is
  the member \<open>mtime\<close> of \<open>new_db\<close>, which the function never sets. The first component is true when the
  process exits with \<open>ERROR_EXIT\<close>.\<close>

datatype inotify = Quiet | SelectFailed | ReadFailed | Events

definition check_inotify_database ::
  "dbcfg \<Rightarrow> fs \<Rightarrow> (string \<Rightarrow> int) \<Rightarrow> int \<Rightarrow> inotify \<Rightarrow> int \<Rightarrow> daemon \<Rightarrow> dbstate \<Rightarrow> (bool \<times> daemon \<times> dbstate) option" where
  "check_inotify_database cfg f add_watch ifd ev garbage d s =
     (case ev of
        Quiet \<Rightarrow> Some (False, d, s)
      | SelectFailed \<Rightarrow> Some (False, d, s\<lparr>ds_ctx := log_msg ''CRON'' ''INOTIFY'' ''select failed'' (ds_ctx s)\<rparr>)
      | ReadFailed \<Rightarrow> Some (True, d, s\<lparr>ds_ctx := log_msg ''CRON'' ''INOTIFY'' ''read failed'' (ds_ctx s)\<rparr>)
      | Events \<Rightarrow>
          (case set_cron_watched add_watch (watchpaths cfg) ifd (ds_ctx s) d of
             (c1, d1) \<Rightarrow>
               (case process_crontab cfg f ''root'' None (SYSCRONTAB cfg) (s\<lparr>ds_ctx := c1, ds_new := empty_db garbage\<rparr>) of
                  None \<Rightarrow> None
                | Some s2 \<Rightarrow>
                    (case scan_dir f (SYS_CROND_DIR cfg) (crond_loop cfg f) s2 of
                       None \<Rightarrow> None
                     | Some s3 \<Rightarrow>
                         (case scan_dir f (SPOOL_DIR cfg) (spool_loop cfg f) s3 of
                            None \<Rightarrow> None
                          | Some s4 \<Rightarrow> map_option (\<lambda>s5. (False, d1, s5)) (finish_load s4))))))"

end
