(* ===== verification/CronAccess.thy ===== *)
theory CronAccess
  imports CronSecurity CronEntryTimes
begin

text \<open>
  The rest of \<open>cronie-1.4.6/src/misc.c\<close>: the lists of users in \<open>cron.allow\<close> and \<open>cron.deny\<close> (\<open>in_file\<close>,
  \<open>allowed\<close>), the lock of the daemon (\<open>acquire_daemonlock\<close>), the log (\<open>log_it\<close>, \<open>log_close\<close>), the identity
  (\<open>set_cron_uid\<close>, \<open>swap_uids\<close>, \<open>swap_uids_back\<close>) and the spool directory (\<open>set_cron_cwd\<close>). What system calls
  return is an argument.
\<close>

section \<open>The lists of users\<close>

text \<open>\<open>fgets (line, sz, file)\<close>: up to \<open>sz - 1\<close> bytes, up to and including a newline; \<^const>\<open>None\<close> at the end.\<close>

fun fgets_take :: "nat \<Rightarrow> string \<Rightarrow> string \<times> string" where
  "fgets_take n [] = ([], [])"
| "fgets_take 0 s = ([], s)"
| "fgets_take (Suc n) (c # s) =
     (if c = NL then ([c], s) else case fgets_take n s of (l, r) \<Rightarrow> (c # l, r))"

lemma fgets_take_app: "fgets_take n s = (l, r) \<Longrightarrow> s = l @ r"
  by (induction n s arbitrary: l rule: fgets_take.induct) (auto split: if_splits prod.splits)

lemma fgets_take_pos: "fgets_take (Suc n) (c # s) = (l, r) \<Longrightarrow> length r < length (c # s)"
  by (auto split: if_splits prod.splits dest: fgets_take_app)

definition fgets :: "nat \<Rightarrow> string \<Rightarrow> (string \<times> string) option" where
  "fgets sz s = (if s = [] then None else Some (fgets_take (sz - 1) s))"

lemma fgets_shorter:
  assumes "fgets sz s = Some (l, r)" and "1 < sz"
  shows "length r < length s"
proof -
  obtain n where "sz - 1 = Suc n" using assms(2) by (cases "sz - 1") auto
  moreover obtain c s' where "s = c # s'" using assms(1) by (cases s) (auto simp: fgets_def)
  ultimately show ?thesis using assms(1) fgets_take_pos[of n c s' l r] by (simp add: fgets_def)
qed

text \<open>
  The loop of \<open>in_file\<close> on the contents of a file that \<open>fseek\<close> has rewound. A line is what a C string sees of
  the bytes read; \<open>err\<close> is the result on an error (a last line without newline, a line that fills the buffer,
  a failed read at the end).
\<close>

function in_file_loop :: "string \<Rightarrow> bool \<Rightarrow> bool \<Rightarrow> string \<Rightarrow> bool" where
  "in_file_loop str read_err err file =
     (case fgets MAX_TEMPSTR file of
        None \<Rightarrow> if read_err then err else False
      | Some (bytes, r) \<Rightarrow>
          (let line = cstr bytes in
           if line \<noteq> [] then
             if last line \<noteq> NL then err
             else if butlast line = str then True
             else in_file_loop str read_err err r
           else in_file_loop str read_err err r))"
  by pat_completeness auto
termination
proof (relation "measure (\<lambda>(str, read_err, err, file). length file)", goal_cases)
  case (2 str read_err err d x bytes r)
  then show ?case by (auto intro!: fgets_shorter simp: macro_defs)
next
  case (3 str read_err err d x bytes r)
  then show ?case by (auto intro!: fgets_shorter simp: macro_defs)
qed simp

declare in_file_loop.simps [simp del]

record ufile =
  uf_seek_ok :: bool
  uf_read_err :: bool
  uf_text :: string

definition in_file :: "string \<Rightarrow> ufile \<Rightarrow> bool \<Rightarrow> bool" where
  "in_file str file err = (if \<not> uf_seek_ok file then err else in_file_loop str (uf_read_err file) err (uf_text file))"

text \<open>\<open>allowed\<close>: the two files as \<open>fopen\<close> finds them. After the first test the caller is not root, so the
  two warnings about root cannot be reached.\<close>

definition allowed :: "int \<Rightarrow> string \<Rightarrow> ufile option \<Rightarrow> ufile option \<Rightarrow> bool" where
  "allowed uid username allow_file deny_file =
     (if uid = 0 then True
      else case allow_file of
        Some fp \<Rightarrow> in_file username fp False
      | None \<Rightarrow>
          (case deny_file of
             Some fp \<Rightarrow> \<not> in_file username fp False
           | None \<Rightarrow> False))"

section \<open>The lock of the daemon\<close>

text \<open>
  The static \<open>fd\<close>, the contents of the pid file, and whether the process holds the lock. The arguments say
  whether \<open>open\<close>, \<open>trylock_file\<close>, \<open>write\<close> and \<open>ftruncate\<close> succeed; \<open>write\<close> writes everything or fails.
\<close>

record pidlock =
  pl_fd :: bool
  pl_text :: string
  pl_held :: bool

record locksys =
  ls_open :: bool
  ls_lock :: bool
  ls_write :: bool
  ls_trunc :: bool
  ls_pid :: nat

definition PATH_MAX :: nat where [macro_defs]: "PATH_MAX = 4096"

text \<open>Where \<open>strtol\<close> stops: behind the digits, or at the start when there is none.\<close>

definition strtol_end :: "string \<Rightarrow> string" where
  "strtol_end s =
     (let t = dropWhile c_isspace s;
          u = (if t \<noteq> [] \<and> (hd t = CHR ''-'' \<or> hd t = CHR ''+'') then tl t else t)
      in if takeWhile c_isdigit u = [] then s else dropWhile c_isdigit u)"

text \<open>The process id in the pid file, as the message reports it.\<close>

definition other_pid :: "string \<Rightarrow> int option" where
  "other_pid txt =
     (let buf = cstr (take (3 * PATH_MAX - 1) txt);
          v = fst (strtol10 buf); ep = strtol_end buf
      in if take (3 * PATH_MAX - 1) txt \<noteq> [] \<and> v > 0 \<and> ep \<noteq> buf \<and> hd0 ep = NL \<and> v \<noteq> LONG_MAX then Some v else None)"

definition lock_msg :: "string \<Rightarrow> int option \<Rightarrow> string" where
  "lock_msg pidfile o' =
     (case o' of
        Some v \<Rightarrow> ''can't lock '' @ pidfile @ '', otherpid may be '' @ dec (nat v)
      | None \<Rightarrow> ''can't lock '' @ pidfile @ '', otherpid unknown'')"

text \<open>\<^const>\<open>None\<close> is \<open>exit (ERROR_EXIT)\<close>, with the message logged before.\<close>

definition acquire_daemonlock ::
  "string \<Rightarrow> locksys \<Rightarrow> bool \<Rightarrow> ctx \<Rightarrow> pidlock \<Rightarrow> pidlock option \<times> ctx" where
  "acquire_daemonlock pidfile sy closeflag c p =
     (if closeflag then (Some (if pl_fd p then p\<lparr>pl_fd := False\<rparr> else p), c)
      else
        let put = (\<lambda>p.
          let buf = dec (ls_pid sy) @ [NL] in
          if \<not> ls_write sy then (Some p, log_msg ''CRON'' ''ERROR'' ''write() failed'' c)
          else if \<not> ls_trunc sy
          then (Some (p\<lparr>pl_text := buf @ drop (length buf) (pl_text p)\<rparr>), log_msg ''CRON'' ''ERROR'' ''ftruncate() failed'' c)
          else (Some (p\<lparr>pl_text := buf\<rparr>), c))
        in
        if pl_fd p then put p
        else if \<not> ls_open sy then (None, log_msg ''CRON'' ''DEATH'' (''can't open or create '' @ pidfile) c)
        else if \<not> ls_lock sy then (None, log_msg ''CRON'' ''DEATH'' (lock_msg pidfile (other_pid (pl_text p))) c)
        else put (p\<lparr>pl_fd := True, pl_held := True\<rparr>))"

section \<open>The log\<close>

record logstate =
  syslog_open :: bool
  syslog_lines :: "(bool \<times> string) list"
  LogFD_open :: bool

text \<open>The \<open>syslog\<close> branch of \<open>log_it\<close>; the flag is true for \<open>LOG_ERR\<close>, \<open>strerror\<close> is an argument.\<close>

definition log_it :: "(int \<Rightarrow> string) \<Rightarrow> string \<Rightarrow> string \<Rightarrow> string \<Rightarrow> int \<Rightarrow> logstate \<Rightarrow> logstate" where
  "log_it strerror username event detail err l =
     (let l1 = (if \<not> syslog_open l then l\<lparr>syslog_open := True\<rparr> else l) in
      l1\<lparr>syslog_lines := syslog_lines l1 @
        [(err \<noteq> 0, ''('' @ username @ '') '' @ event @ '' ('' @ detail @ '')'' @ (if err \<noteq> 0 then '': '' @ strerror err else []))]\<rparr>)"

definition log_close :: "logstate \<Rightarrow> logstate" where
  "log_close l = (if LogFD_open l then l\<lparr>LogFD_open := False\<rparr> else l)\<lparr>syslog_open := False\<rparr>"

section \<open>Identity and directory\<close>

record ids =
  i_ruid :: int
  i_euid :: int
  i_rgid :: int
  i_egid :: int
  save_euid :: int
  save_egid :: int

definition set_cron_uid :: "bool \<Rightarrow> ids \<Rightarrow> ids option" where
  "set_cron_uid seteuid_ok p = (if seteuid_ok then Some (p\<lparr>i_euid := 0\<rparr>) else None)"

text \<open>The variant with saved ids; the arguments are the results of \<open>setegid\<close> and \<open>seteuid\<close>.\<close>

definition swap_uids :: "bool \<Rightarrow> bool \<Rightarrow> ids \<Rightarrow> int \<times> ids" where
  "swap_uids g_ok u_ok p =
     (let p1 = p\<lparr>save_egid := i_egid p, save_euid := i_euid p\<rparr> in
      if \<not> g_ok then (-1, p1)
      else if \<not> u_ok then (-1, p1\<lparr>i_egid := i_rgid p1\<rparr>)
      else (0, p1\<lparr>i_egid := i_rgid p1, i_euid := i_ruid p1\<rparr>))"

definition swap_uids_back :: "bool \<Rightarrow> bool \<Rightarrow> ids \<Rightarrow> int \<times> ids" where
  "swap_uids_back g_ok u_ok p =
     (if \<not> g_ok then (-1, p)
      else if \<not> u_ok then (-1, p\<lparr>i_egid := save_egid p\<rparr>)
      else (0, p\<lparr>i_egid := save_egid p, i_euid := save_euid p\<rparr>))"

record spooldir =
  sd_mode :: "32 word"
  sd_gid :: int

text \<open>
  \<open>set_cron_cwd\<close>, with \<open>CRON_GROUP\<close> given as the group id \<open>grp\<close> or absent: the directory as \<open>stat\<close> finds it
  (\<^const>\<open>None\<close>: \<open>ENOENT\<close>), the results of \<open>mkdir\<close>, \<open>chown\<close> and \<open>chmod\<close>, and the directory that \<open>mkdir\<close> makes. The result
  is the directory afterwards, or \<^const>\<open>None\<close> for \<open>exit (ERROR_EXIT)\<close>.
\<close>

definition set_cron_cwd :: "int option \<Rightarrow> spooldir option \<Rightarrow> spooldir option \<Rightarrow> bool \<Rightarrow> bool \<Rightarrow> spooldir option" where
  "set_cron_cwd grp dir made chown_ok chmod_ok =
     (case (case dir of Some sb \<Rightarrow> Some sb | None \<Rightarrow> made) of
        None \<Rightarrow> None
      | Some sb \<Rightarrow>
          if sd_mode sb AND 0xF000 \<noteq> 0x4000 then None
          else case grp of
            None \<Rightarrow> Some sb
          | Some g \<Rightarrow>
              if sd_gid sb \<noteq> g \<and> \<not> chown_ok then None
              else
                let sb1 = sb\<lparr>sd_gid := g\<rparr> in
                if sd_mode sb \<noteq> 0x3D8 then
                  if \<not> chmod_ok then None else Some (sb1\<lparr>sd_mode := 0x43D8\<rparr>)
                else Some sb1)"

section \<open>Properties\<close>

definition good_line :: "string \<Rightarrow> bool" where
  "good_line l \<longleftrightarrow> NL \<notin> set l \<and> no_nul l \<and> length l + 1 < MAX_TEMPSTR"

definition lines_text :: "string list \<Rightarrow> string" where
  "lines_text ls = concat (map (\<lambda>l. l @ [NL]) ls)"

text \<open>A file of complete lines and a last line that lacks its newline.\<close>

definition list_file :: "string list \<Rightarrow> string \<Rightarrow> ufile" where
  "list_file ls t = \<lparr>uf_seek_ok = True, uf_read_err = False, uf_text = lines_text ls @ t\<rparr>"

lemma fgets_take_line: "NL \<notin> set l \<Longrightarrow> length l < n \<Longrightarrow> fgets_take n (l @ NL # r) = (l @ [NL], r)"
proof (induction l arbitrary: n)
  case Nil
  then show ?case by (cases n) auto
next
  case (Cons c l)
  then show ?case by (cases n) auto
qed

lemma fgets_take_all: "NL \<notin> set l \<Longrightarrow> length l \<le> n \<Longrightarrow> fgets_take n l = (l, [])"
proof (induction l arbitrary: n)
  case (Cons c l)
  then show ?case by (cases n) auto
qed simp

lemma in_file_loop_line:
  assumes "good_line l"
  shows "in_file_loop u re err (l @ NL # r) = (if l = u then True else in_file_loop u re err r)"
proof -
  have "fgets MAX_TEMPSTR (l @ NL # r) = Some (l @ [NL], r)"
    using assms fgets_take_line[of l "MAX_TEMPSTR - 1" r] by (simp add: fgets_def good_line_def less_diff_conv)
  moreover have "cstr (l @ [NL]) = l @ [NL]" using assms by (intro cstr_id) (auto simp: good_line_def no_nul_def)
  ultimately show ?thesis by (simp add: in_file_loop.simps[of u re err "l @ NL # r"])
qed

lemma in_file_loop_tail:
  assumes "good_line l"
  shows "in_file_loop u re False l = False"
proof (cases "l = []")
  case True
  then show ?thesis by (simp add: in_file_loop.simps[of u re False "[]"] fgets_def)
next
  case False
  have "fgets MAX_TEMPSTR l = Some (l, [])"
    using assms False fgets_take_all[of l "MAX_TEMPSTR - 1"] by (auto simp: fgets_def good_line_def)
  moreover have "last l \<noteq> NL" using assms last_in_set[OF False] by (auto simp: good_line_def)
  ultimately show ?thesis using assms False
    by (simp add: in_file_loop.simps[of u re False l] cstr_id good_line_def)
qed

lemma in_file_lines:
  assumes "list_all good_line ls" and "good_line t"
  shows "in_file u (list_file ls t) False \<longleftrightarrow> u \<in> set ls"
proof -
  have "in_file_loop u False False (lines_text ls @ t) \<longleftrightarrow> u \<in> set ls"
    using assms by (induction ls) (auto simp: lines_text_def in_file_loop_line in_file_loop_tail)
  then show ?thesis by (simp add: in_file_def list_file_def)
qed

text \<open>C26. Who may use \<open>crontab\<close>: root always; with a \<open>cron.allow\<close> exactly the users on its complete lines, whatever
  \<open>cron.deny\<close> says; otherwise, with a \<open>cron.deny\<close>, everybody except the users on its complete lines;
  with neither file nobody. In particular a name on a last line without newline is neither allowed
  nor denied.\<close>

theorem access_lists:
  assumes "list_all good_line ls" and "good_line t"
  shows "(allowed uid u (Some (list_file ls t)) d \<longleftrightarrow> uid = 0 \<or> u \<in> set ls)
    \<and> (allowed uid u None (Some (list_file ls t)) \<longleftrightarrow> uid = 0 \<or> u \<notin> set ls)
    \<and> (allowed uid u None None \<longleftrightarrow> uid = 0)"
  using in_file_lines[OF assms] by (simp add: allowed_def)

theorem access_lists_witness:
  "allowed 7 ''eve'' None (Some (list_file [''bob'', ''joe''] ''eve'')) \<and> \<not> allowed 7 ''joe'' None (Some (list_file [''bob'', ''joe''] ''eve''))"
  using access_lists[of "[''bob'', ''joe'']" "''eve''" 7 "''eve''" None]
    access_lists[of "[''bob'', ''joe'']" "''eve''" 7 "''joe''" None]
  by (simp add: good_line_def no_nul_def macro_defs)

lemma other_pid_dec:
  assumes "0 < n" and "int n < LONG_MAX"
  shows "other_pid (dec n @ [NL]) = Some (int n)"
proof -
  have d: "list_all c_isdigit (dec n)" "dec n \<noteq> []" by (simp_all add: dec_digits dec_nonempty)
  obtain c s where c: "dec n = c # s" "c_isdigit c" using d by (cases "dec n") auto
  have nl: "\<not> c_isdigit NL" by (simp add: ctype_simps ord_char_def)
  have tw: "takeWhile c_isdigit (dec n @ [NL]) = dec n" "dropWhile c_isdigit (dec n @ [NL]) = [NL]"
    using d(1) nl by (simp_all add: list_all_iff takeWhile_append2 dropWhile_append2)
  have sp: "dropWhile c_isspace (dec n @ [NL]) = dec n @ [NL]" using c c_isdigit_not_special(1)[OF c(2)] by simp
  have sg: "hd (dec n @ [NL]) \<noteq> CHR ''-''" "hd (dec n @ [NL]) \<noteq> CHR ''+''" using c c_isdigit_not_special(2,3)[OF c(2)] by auto
  have "length (dec n) \<le> 19" using assms(2) by (intro dec_length) (auto simp: macro_defs)
  then have tk: "take (3 * PATH_MAX - 1) (dec n @ [NL]) = dec n @ [NL]" by (simp add: macro_defs)
  have "no_nul (dec n @ [NL])" using d(1) c_isdigit_not_special(4) by (auto simp: no_nul_def list_all_iff)
  then have cs: "cstr (dec n @ [NL]) = dec n @ [NL]" by (rule cstr_id)
  have v: "strtol10 (dec n @ [NL]) = (int n, False)"
    using assms(2) sg d(2) unfolding strtol10_def Let_def sp
    by (simp add: tw digits_val_dec) (simp add: macro_defs)
  have e: "strtol_end (dec n @ [NL]) = [NL]"
    using sg d(2) unfolding strtol_end_def Let_def sp by (simp add: tw)
  show ?thesis using assms d(2) unfolding other_pid_def tk cs Let_def v e by (simp add: hd0_def)
qed

text \<open>The daemon's lock: a process that gets it has its own id in the pid file, in the form in which another
  daemon that fails to lock reports it; a process that cannot get it exits and changes nothing; and
  the second call, after the fork, writes the new id through the open descriptor.\<close>

theorem daemonlock_pid:
  assumes "0 < ls_pid sy" and "int (ls_pid sy) < LONG_MAX" and "ls_write sy" and "ls_trunc sy"
  shows "case acquire_daemonlock pidfile sy False c p of
      (Some p', c') \<Rightarrow> c' = c \<and> pl_fd p' \<and> other_pid (pl_text p') = Some (int (ls_pid sy)) \<and> (pl_held p' \<or> pl_fd p)
    | (None, c') \<Rightarrow> \<not> pl_fd p \<and> \<not> (ls_open sy \<and> ls_lock sy) \<and> length (logs c') = length (logs c) + 1"
  using assms other_pid_dec[OF assms(1,2)]
  by (simp add: acquire_daemonlock_def Let_def log_msg_def)

theorem daemonlock_pid_witness:
  "case acquire_daemonlock ''p'' \<lparr>ls_open = True, ls_lock = True, ls_write = True, ls_trunc = True, ls_pid = 42\<rparr> False ctx0
      \<lparr>pl_fd = False, pl_text = ''17'', pl_held = False\<rparr> of
     (Some p', c') \<Rightarrow> other_pid (pl_text p') = Some 42 | _ \<Rightarrow> False"
  using daemonlock_pid[of "\<lparr>ls_open = True, ls_lock = True, ls_write = True, ls_trunc = True, ls_pid = 42\<rparr>"
      "\<lparr>pl_fd = False, pl_text = ''17'', pl_held = False\<rparr>" ctx0 "''p''"]
  by (simp add: macro_defs acquire_daemonlock_def Let_def)

text \<open>Swapping the ids: while they are swapped the process acts with its real ids, and swapping back restores
  the effective ones exactly.\<close>

theorem swap_uids_roundtrip:
  "\<exists>p1 p2. swap_uids True True p = (0, p1) \<and> i_euid p1 = i_ruid p \<and> i_egid p1 = i_rgid p
     \<and> swap_uids_back True True p1 = (0, p2) \<and> i_euid p2 = i_euid p \<and> i_egid p2 = i_egid p
     \<and> i_ruid p2 = i_ruid p \<and> i_rgid p2 = i_rgid p"
  by (simp add: swap_uids_def swap_uids_back_def)

end
