(* ===== verification/CronMain.thy ===== *)
theory CronMain
  imports CronDatabase CronAccess
begin

text \<open>
  \<open>main\<close> of \<open>cronie-1.4.6/src/cron.c\<close>: the start of the daemon and one round of its loop, composed of the
  operations of \<open>CronSched\<close>, \<open>CronDatabase\<close> and \<open>CronAccess\<close>. The state is what the globals and the local
  variables of \<open>main\<close> hold; what system calls return is given by \<open>startup\<close> and \<open>round_in\<close>. A step ends the process
  (\<^const>\<open>Inl\<close>, with the status of \<open>exit\<close>) or goes on (\<^const>\<open>Inr\<close>).
\<close>

section \<open>The state of the daemon\<close>

record cron_state =
  m_opts :: cron_opts
  m_cfg :: dbcfg
  m_lock :: pidlock
  m_pidfile :: bool
  m_ids :: ids
  m_spool :: "spooldir option"
  m_charset :: string
  m_db :: dbstate
  m_ifd :: int
  m_daemon :: daemon
  m_sched :: sched
  m_reboot :: bool

type_synonym cron_result = "int \<times> cron_state + cron_state"

record startup =
  su_args :: "(char \<times> string) list"
  su_pidpath :: string
  su_lock1 :: locksys
  su_lock2 :: locksys
  su_seteuid :: bool
  su_group :: "int option"
  su_dir :: "spooldir option"
  su_made :: "spooldir option"
  su_chown :: bool
  su_chmod :: bool
  su_putenv :: bool
  su_codeset :: "string option"
  su_fork :: int
  su_version :: string
  su_sendmail :: bool
  su_fs :: fs
  su_inotify :: int
  su_watch :: "string \<Rightarrow> int"
  su_now :: int
  su_creat :: bool

text \<open>
  One round: the attempts to sleep until the minute changes (the time before the sleep, the naps with the signals
  \<open>(SIGHUP, SIGCHLD)\<close> that ended them and the time after, and the time \<open>set_time\<close> reads), the files, what \<open>inotify\<close> says,
  the readings of a medium jump, and the signals that arrived during the round.
\<close>

record round_in =
  ri_waits :: "(int \<times> ((bool \<times> bool) \<times> int) list \<times> int) list"
  ri_fs :: fs
  ri_event :: inotify
  ri_garbage :: int
  ri_watch :: "string \<Rightarrow> int"
  ri_ts :: "int list"
  ri_sigs :: "bool \<times> bool"

definition ERROR_EXIT :: int where [macro_defs]: "ERROR_EXIT = 1"

definition main_log :: "string \<Rightarrow> string \<Rightarrow> cron_state \<Rightarrow> cron_state" where
  "main_log event detail s = s\<lparr>m_db := (m_db s)\<lparr>ds_ctx := log_msg ''CRON'' event detail (ds_ctx (m_db s))\<rparr>\<rparr>"

definition opts0 :: cron_opts where
  "opts0 = \<lparr>NoFork = False, PermitAnyCrontab = False, SyslogOutput = False, DisableInotify = False, Clustering = False,
     MailCmd = [], DebugFlags = 0\<rparr>"

section \<open>Start-up\<close>

definition grab_lock :: "string \<Rightarrow> locksys \<Rightarrow> cron_state \<Rightarrow> cron_result" where
  "grab_lock pidpath sy s =
     (case acquire_daemonlock pidpath sy False (ds_ctx (m_db s)) (m_lock s) of
        (None, c) \<Rightarrow> Inl (ERROR_EXIT, s\<lparr>m_db := (m_db s)\<lparr>ds_ctx := c\<rparr>\<rparr>)
      | (Some p, c) \<Rightarrow> Inr (s\<lparr>m_lock := p, m_pidfile := True, m_db := (m_db s)\<lparr>ds_ctx := c\<rparr>\<rparr>))"

text \<open>The options are globals that \<open>database.c\<close> and the watches read.\<close>

definition set_options :: "cron_opts \<Rightarrow> cron_state \<Rightarrow> cron_state" where
  "set_options o' s =
     s\<lparr>m_opts := o', m_cfg := (m_cfg s)\<lparr>permit_any := PermitAnyCrontab o', clustering := Clustering o'\<rparr>,
       m_daemon := (m_daemon s)\<lparr>EnableClustering := Clustering o'\<rparr>\<rparr>"

definition mail_charset :: "string option \<Rightarrow> string" where
  "mail_charset cs = (case cs of Some c \<Rightarrow> take MAX_ENVSTR c | None \<Rightarrow> ''US-ASCII'')"

text \<open>Options, lock, identity, spool directory, environment.\<close>

definition set_up :: "startup \<Rightarrow> cron_state \<Rightarrow> cron_result" where
  "set_up y s =
     (case parse_args (su_args y) opts0 of
        None \<Rightarrow> Inl (ERROR_EXIT, s)
      | Some o' \<Rightarrow>
          (case grab_lock (su_pidpath y) (su_lock1 y) (set_options o' s) of
             Inl x \<Rightarrow> Inl x
           | Inr s1 \<Rightarrow>
               (case set_cron_uid (su_seteuid y) (m_ids s1) of
                  None \<Rightarrow> Inl (ERROR_EXIT, s1)
                | Some ids1 \<Rightarrow>
                    (let s2 = s1\<lparr>m_ids := ids1\<rparr> in
                     case set_cron_cwd (su_group y) (su_dir y) (su_made y) (su_chown y) (su_chmod y) of
                       None \<Rightarrow> Inl (ERROR_EXIT, s2)
                     | Some dir \<Rightarrow>
                         (let s3 = s2\<lparr>m_spool := Some dir\<rparr> in
                          if \<not> su_putenv y then Inl (1, main_log ''DEATH'' ''can't putenv PATH'' s3)
                          else Inr (s3\<lparr>m_charset := mail_charset (su_codeset y)\<rparr>))))))"

text \<open>The process that goes on: the child, or the caller itself when it does not fork.\<close>

definition daemonize :: "startup \<Rightarrow> cron_state \<Rightarrow> cron_result" where
  "daemonize y s =
     (if DebugFlags (m_opts s) \<noteq> 0 then Inr s
      else if \<not> NoFork (m_opts s) then
        if su_fork y = -1 then Inl (0, main_log ''DEATH'' ''can't fork'' s)
        else if su_fork y = 0 then Inr (main_log ''STARTUP'' (su_version y) s)
        else Inl (0, s)
      else Inr s)"

definition check_mailer :: "startup \<Rightarrow> cron_state \<Rightarrow> cron_state" where
  "check_mailer y s =
     (if su_sendmail y then s
      else main_log ''INFO'' ''Syslog will be used instead of sendmail.'' (s\<lparr>m_opts := (m_opts s)\<lparr>SyslogOutput := True\<rparr>\<rparr>))"

definition first_load :: "startup \<Rightarrow> cron_state \<Rightarrow> cron_state option" where
  "first_load y s =
     map_option (\<lambda>(_, db). s\<lparr>m_db := db\<rparr>)
       (load_database (m_cfg s) (su_fs y) ((m_db s)\<lparr>ds_old := empty_db 0\<rparr>))"

definition start_watching :: "startup \<Rightarrow> cron_state \<Rightarrow> cron_state" where
  "start_watching y s =
     (if DisableInotify (m_opts s) \<or> Clustering (m_opts s)
      then (main_log ''No inotify - daemon runs with -i or -c option'' [] s)\<lparr>m_ifd := -1\<rparr>
      else
        let fd = su_inotify y;
            s1 = s\<lparr>m_daemon := (m_daemon s)\<lparr>wd := [-2, -2, -2]\<rparr>, m_ifd := fd\<rparr>;
            s2 = (if fd < 0 then main_log ''INFO'' ''Inotify init failed'' s1 else s1)
        in case set_cron_watched (su_watch y) (watchpaths (m_cfg s2)) fd (ds_ctx (m_db s2)) (m_daemon s2) of
             (c, d) \<Rightarrow> s2\<lparr>m_daemon := d, m_db := (m_db s2)\<lparr>ds_ctx := c\<rparr>\<rparr>)"

text \<open>The walk \<open>for (u = db->head; u != NULL; u = u->next)\<close>; the fuel bounds the number of nodes.\<close>

fun walk_users :: "nat \<Rightarrow> uheap \<Rightarrow> nat option \<Rightarrow> cron_users option" where
  "walk_users k h None = Some []"
| "walk_users 0 h (Some a) = None"
| "walk_users (Suc k) h (Some a) =
     (case h a of
        None \<Rightarrow> None
      | Some nd \<Rightarrow> map_option (\<lambda>us. (a, u_data nd) # us) (walk_users k h (u_next nd)))"

definition db_users :: "dbstate \<Rightarrow> cron_users option" where
  "db_users db = walk_users (ds_brk db) (ds_heap db) (db_head (ds_old db))"

definition first_jobs :: "world \<Rightarrow> startup \<Rightarrow> cron_state \<Rightarrow> cron_state option" where
  "first_jobs w y s =
     (let sc = set_time w True (su_now y) (m_sched s) in
      case db_users (m_db s) of
        None \<Rightarrow> None
      | Some us \<Rightarrow>
          map_option (\<lambda>(l, c, sc1).
              s\<lparr>m_reboot := l, m_db := (m_db s)\<lparr>ds_ctx := c\<rparr>,
                m_sched := sc1\<lparr>timeRunning := clockTime sc1, virtualTime := clockTime sc1\<rparr>\<rparr>)
            (run_reboot_jobs (m_reboot s) (su_creat y) us (ds_ctx (m_db s)) sc))"

definition start_up :: "world \<Rightarrow> startup \<Rightarrow> cron_state \<Rightarrow> cron_result option" where
  "start_up w y s =
     (case set_up y s of
        Inl x \<Rightarrow> Some (Inl x)
      | Inr s1 \<Rightarrow>
          (case daemonize y s1 of
             Inl x \<Rightarrow> Some (Inl x)
           | Inr s2 \<Rightarrow>
               (case grab_lock (su_pidpath y) (su_lock2 y) (check_mailer y s2) of
                  Inl x \<Rightarrow> Some (Inl x)
                | Inr s3 \<Rightarrow>
                    (case first_load y s3 of
                       None \<Rightarrow> None
                     | Some s4 \<Rightarrow> map_option Inr (first_jobs w y (start_watching y s4))))))"

section \<open>One round of the loop\<close>

text \<open>\<open>handle_signals\<close> on the state of \<open>main\<close>, after the handlers have set their flags.\<close>

definition signals :: "bool \<times> bool \<Rightarrow> cron_state \<Rightarrow> cron_state" where
  "signals sg s =
     (let d0 = m_daemon s; old = ds_old (m_db s);
          d = handle_signals (d0\<lparr>got_sighup := got_sighup d0 \<or> fst sg, got_sigchld := got_sigchld d0 \<or> snd sg,
                db_mtime := mtime_db old\<rparr>)
      in s\<lparr>m_daemon := d, m_db := (m_db s)\<lparr>ds_old := old\<lparr>mtime_db := db_mtime d\<rparr>\<rparr>\<rparr>)"

text \<open>\<open>do { cron_sleep(timeRunning + 1, &database); set_time(FALSE); } while (clockTime == timeRunning);\<close>
  \<^const>\<open>None\<close> while the clock has not passed the minute.\<close>

fun wait_minute :: "world \<Rightarrow> (int \<times> ((bool \<times> bool) \<times> int) list \<times> int) list \<Rightarrow> cron_state \<Rightarrow> cron_state option" where
  "wait_minute w [] s = None"
| "wait_minute w ((t1, ns, now) # ws) s =
     (let off = GMToff (m_sched s) in
      case cron_sleep (timeRunning (m_sched s) + 1) (t1 + off) (map (\<lambda>(_, t). t + off) ns) of
        None \<Rightarrow> None
      | Some (_, n) \<Rightarrow>
          (let s1 = fold signals (map fst (take n ns)) s;
               s2 = s1\<lparr>m_sched := set_time w False now (m_sched s1)\<rparr>
           in if clockTime (m_sched s2) = timeRunning (m_sched s2) then wait_minute w ws s2 else Some s2))"

definition reload :: "round_in \<Rightarrow> cron_state \<Rightarrow> cron_result option" where
  "reload r s =
     (if inotify_enabled (m_daemon s) then
        case check_inotify_database (m_cfg s) (ri_fs r) (ri_watch r) (m_ifd s) (ri_event r) (ri_garbage r)
               (m_daemon s) (m_db s) of
          None \<Rightarrow> None
        | Some (dies, d, db) \<Rightarrow>
            (let s1 = s\<lparr>m_daemon := d, m_db := db\<rparr> in Some (if dies then Inl (ERROR_EXIT, s1) else Inr s1))
      else
        case load_database (m_cfg s) (ri_fs r) (m_db s) of
          None \<Rightarrow> None
        | Some (loaded, db) \<Rightarrow>
            (let s1 = s\<lparr>m_db := db\<rparr> in
             if loaded \<and> \<not> EnableClustering (m_daemon s1) then
               (case set_cron_watched (ri_watch r) (watchpaths (m_cfg s1)) (m_ifd s1) (ds_ctx (m_db s1)) (m_daemon s1) of
                  (c, d) \<Rightarrow> Some (Inr (s1\<lparr>m_daemon := d, m_db := (m_db s1)\<lparr>ds_ctx := c\<rparr>\<rparr>)))
             else Some (Inr s1)))"

definition main_round :: "world \<Rightarrow> round_in \<Rightarrow> cron_state \<Rightarrow> cron_result option" where
  "main_round w r s =
     (case wait_minute w (ri_waits r) s of
        None \<Rightarrow> None
      | Some s1 \<Rightarrow>
          (case reload r s1 of
             None \<Rightarrow> None
           | Some (Inl x) \<Rightarrow> Some (Inl x)
           | Some (Inr s2) \<Rightarrow>
               (case db_users (m_db s2) of
                  None \<Rightarrow> None
                | Some us \<Rightarrow>
                    map_option (\<lambda>sc. Inr (signals (ri_sigs r) (s2\<lparr>m_sched := sc\<rparr>)))
                      (wake w us (ri_ts r) (m_sched s2)))))"

text \<open>The handler of \<open>SIGINT\<close> and \<open>SIGTERM\<close>.\<close>

definition quit :: "cron_state \<Rightarrow> cron_result" where
  "quit s = Inl (0, s\<lparr>m_pidfile := False\<rparr>)"

end
