(* ===== verification/CronSchedProps.thy ===== *)
theory CronSchedProps
  imports CronSched
begin

text \<open>
  What the scheduler does: which entries a call of \<open>find_jobs\<close> queues, what each kind of wake-up
  runs, what a round keeps of the clocks and the queue, and the sleeping loop.
\<close>

section \<open>The jobs of a call\<close>

fun due_in :: "(entry \<Rightarrow> bool) \<Rightarrow> nat \<Rightarrow> nat \<Rightarrow> entry list \<Rightarrow> job list" where
  "due_in p u i [] = []"
| "due_in p u i (e # es) = (if p e then [(u, i)] else []) @ due_in p u (i + 1) es"

definition due_jobs :: "(entry \<Rightarrow> bool) \<Rightarrow> cron_users \<Rightarrow> job list" where
  "due_jobs p db = concat (map (\<lambda>(a, u). due_in p a 0 (crontab u)) db)"

lemma set_due_in:
  "(a, k) \<in> set (due_in p u i es) \<longleftrightarrow> a = u \<and> i \<le> k \<and> k < i + length es \<and> p (es ! (k - i))"
proof (induction es arbitrary: i)
  case (Cons e es)
  show ?case
  proof (cases "k = i")
    case True
    then show ?thesis using Cons[of "i + 1"] by auto
  next
    case False
    then have "i \<le> k \<Longrightarrow> (e # es) ! (k - i) = es ! (k - (i + 1))" by (simp add: nth_Cons')
    with False Cons[of "i + 1"] show ?thesis by auto
  qed
qed simp

lemma distinct_due_in: "distinct (due_in p u i es)"
  by (induction es arbitrary: i) (auto simp: set_due_in)

lemma distinct_due_jobs: "distinct (map fst db) \<Longrightarrow> distinct (due_jobs p db)"
proof (induction db)
  case (Cons au db)
  obtain a u where au: "au = (a, u)" by fastforce
  have "b \<in> fst ` set db" if "(b, k) \<in> set (due_jobs p db)" for b k
    using that by (force simp: due_jobs_def set_due_in)
  moreover have "b = a" if "(b, k) \<in> set (due_in p a 0 (crontab u))" for b k
    using that by (simp add: set_due_in)
  ultimately have "set (due_in p a 0 (crontab u)) \<inter> set (due_jobs p db) = {}"
    using Cons.prems au by auto
  moreover have "due_jobs p (au # db) = due_in p a 0 (crontab u) @ due_jobs p db"
    by (simp add: due_jobs_def au)
  ultimately show ?case using Cons distinct_due_in by simp
qed (simp add: due_jobs_def)

lemma add_all_append:
  "jq.add_all (xs @ ys) q = (case jq.add_all xs q of None \<Rightarrow> None | Some q' \<Rightarrow> jq.add_all ys q')"
  by (induction xs arbitrary: q) (auto split: option.splits)

lemma find_entries_add_all: "find_entries p u i es q = jq.add_all (due_in p u i es) q"
  by (induction es arbitrary: i q) (auto split: option.splits)

lemma find_users_add_all: "find_users p db q = jq.add_all (due_jobs p db) q"
  by (induction p db q rule: find_users.induct)
     (auto simp: due_jobs_def find_entries_add_all add_all_append split: option.splits)

lemma reboot_find: "reboot_entries u i es q = find_entries (\<lambda>e. flags e AND WHEN_REBOOT \<noteq> 0) u i es q"
  by (induction u i es q rule: reboot_entries.induct) (auto split: option.splits)

lemma reboot_users_find: "reboot_users db q = find_users (\<lambda>e. flags e AND WHEN_REBOOT \<noteq> 0) db q"
  by (induction db q rule: reboot_users.induct) (auto simp: reboot_find split: option.splits)

lemma find_jobs_holds:
  assumes "holds_jobs (queue s) js"
  shows "\<exists>s'. find_jobs w db v a b s = Some s'
    \<and> holds_jobs (queue s') (jq.enq js (due_jobs (entry_due w (StartTime s) a b) db))"
  using jq.add_all_holds[OF assms, of "due_jobs (entry_due w (StartTime s) a b) db"]
  by (auto simp: find_jobs_def find_users_add_all)

lemma run_queue_holds:
  assumes "holds_jobs (queue s) js"
  shows "\<exists>s'. run_queue s = Some (length js, s') \<and> holds_jobs (queue s') [] \<and> ran s' = ran s @ js
    \<and> virtualTime s' = virtualTime s \<and> timeRunning s' = timeRunning s \<and> StartTime s' = StartTime s
    \<and> finds s' = finds s \<and> clockTime s' = clockTime s"
  using jq.drain_law[OF assms] by (auto simp: run_queue_def)

lemma run_and_nap_holds:
  assumes "holds_jobs (queue s) js"
  shows "\<exists>s'. run_and_nap s = Some s' \<and> holds_jobs (queue s') [] \<and> ran s' = ran s @ js
    \<and> virtualTime s' = virtualTime s \<and> timeRunning s' = timeRunning s \<and> StartTime s' = StartTime s
    \<and> finds s' = finds s \<and> clockTime s' = clockTime s"
  using run_queue_holds[OF assms] by (auto simp: run_and_nap_def)

lemma enq_nil_distinct: "distinct xs \<Longrightarrow> set ys \<inter> set xs = {} \<Longrightarrow> jq.enq ys xs = ys @ xs"
  by (induction xs arbitrary: ys) auto

abbreviation now_jobs :: "world \<Rightarrow> cron_users \<Rightarrow> sched \<Rightarrow> bool \<Rightarrow> bool \<Rightarrow> job list" where
  "now_jobs w db s a b \<equiv> due_jobs (entry_due w (StartTime s) a b) db"

lemma find_jobs_empty:
  assumes "holds_jobs (queue s) []" and "distinct (map fst db)"
  shows "\<exists>s'. find_jobs w db v a b s = Some s' \<and> holds_jobs (queue s') (now_jobs w db s a b)"
  using find_jobs_holds[OF assms(1), of w db v a b]
    enq_nil_distinct[OF distinct_due_jobs[OF assms(2)], of "[]"] by simp

lemma small_round_holds:
  assumes "holds_jobs (queue s) js" and "distinct (map fst db)"
  shows "\<exists>s'. small_round w db s = Some s' \<and> holds_jobs (queue s') (now_jobs w db s True True)
    \<and> ran s' = ran s @ js"
proof -
  obtain s1 where s1: "run_and_nap s = Some s1" "holds_jobs (queue s1) []" "ran s1 = ran s @ js"
      "StartTime s1 = StartTime s"
    using run_and_nap_holds[OF assms(1)] by blast
  let ?s2 = "s1\<lparr>virtualTime := virtualTime s1 + 1\<rparr>"
  obtain s3 where s3: "find_jobs w db (virtualTime ?s2) True True ?s2 = Some s3"
      "holds_jobs (queue s3) (now_jobs w db ?s2 True True)"
    using find_jobs_empty[of ?s2 db w "virtualTime ?s2" True True] s1(2) assms(2) by auto
  then show ?thesis using s1 find_jobs_times[OF s3(1)] by (auto simp: small_round_def Let_def)
qed

text \<open>The loop of case \<open>small\<close>: the jobs due at \<open>StartTime\<close> are queued once per missed minute and
  run before each further round.\<close>

lemma small_loop_holds:
  assumes "holds_jobs (queue s) js" and "distinct (map fst db)" and "virtualTime s < timeRunning s"
  shows "\<exists>s'. small_loop w db s = Some s' \<and> holds_jobs (queue s') (now_jobs w db s True True)
    \<and> ran s' = ran s @ js @
        concat (replicate (nat (timeRunning s - virtualTime s) - 1) (now_jobs w db s True True))
    \<and> virtualTime s' = timeRunning s \<and> timeRunning s' = timeRunning s
    \<and> finds s' = finds s @ map (\<lambda>v. (v, True, True)) [virtualTime s + 1..timeRunning s]"
  using assms
proof (induction "nat (timeRunning s - virtualTime s)" arbitrary: s js)
  case 0
  then show ?case by simp
next
  case (Suc k)
  let ?D = "now_jobs w db s True True"
  obtain s1 where s1: "small_round w db s = Some s1" "holds_jobs (queue s1) ?D" "ran s1 = ran s @ js"
    using small_round_holds[OF Suc.prems(1,2)] by blast
  note t1 = small_round_times[OF s1(1)]
  show ?case
  proof (cases "virtualTime s1 < timeRunning s1")
    case False
    then have e: "timeRunning s = virtualTime s + 1" using t1 Suc.prems(3) by linarith
    have "small_loop w db s = Some s1" using s1(1) False by (subst small_loop.simps) simp
    with s1 t1 e show ?thesis by simp
  next
    case True
    have k: "k = nat (timeRunning s1 - virtualTime s1)" using Suc.hyps(2) t1 by linarith
    have D1: "now_jobs w db s1 True True = ?D" using t1 by simp
    obtain s' where s': "small_loop w db s1 = Some s'" "holds_jobs (queue s') ?D"
        "ran s' = ran s1 @ ?D @ concat (replicate (nat (timeRunning s1 - virtualTime s1) - 1) ?D)"
        "virtualTime s' = timeRunning s1" "timeRunning s' = timeRunning s1"
        "finds s' = finds s1 @ map (\<lambda>v. (v, True, True)) [virtualTime s1 + 1..timeRunning s1]"
      using Suc.hyps(1)[OF k s1(2) Suc.prems(2) True] D1 by auto
    have n: "nat (timeRunning s - virtualTime s) - 1 = Suc (nat (timeRunning s1 - virtualTime s1) - 1)"
      using t1 True by linarith
    have u: "[virtualTime s + 1..timeRunning s] = (virtualTime s + 1) # [virtualTime s1 + 1..timeRunning s]"
      using t1 Suc.prems(3) by (subst upto.simps) simp
    have "small_loop w db s = Some s'" using s1(1) True s'(1) by (subst small_loop.simps) simp
    moreover have "concat (replicate (nat (timeRunning s - virtualTime s) - 1) ?D) =
        ?D @ concat (replicate (nat (timeRunning s1 - virtualTime s1) - 1) ?D)"
      unfolding n by simp
    ultimately show ?thesis using s' s1(3) t1 u by simp
  qed
qed

section \<open>One wake-up\<close>

lemma medium_loop_holds:
  assumes "holds_jobs (queue s) js" and "distinct (map fst db)"
  shows "\<exists>s' js' k. medium_loop w db ts s = Some s' \<and> holds_jobs (queue s') js'
    \<and> virtualTime s' = virtualTime s + int k \<and> 0 < k \<and> timeRunning s' = timeRunning s
    \<and> (virtualTime s < timeRunning s \<longrightarrow> virtualTime s' \<le> timeRunning s)
    \<and> finds s' = finds s @ map (\<lambda>v. (v, False, True)) [virtualTime s + 1..virtualTime s']
    \<and> (clockTime s' = timeRunning s \<and> virtualTime s < timeRunning s \<longrightarrow> virtualTime s' = timeRunning s)"
  using assms
proof (induction w db ts s arbitrary: js rule: medium_loop.induct)
  case (1 w db ts s)
  define now where "now = (case ts of [] \<Rightarrow> StartTime s | t # _ \<Rightarrow> t)"
  obtain s1 where s1: "run_and_nap s = Some s1" "holds_jobs (queue s1) []"
    using run_and_nap_holds[OF "1.prems"(1)] by blast
  let ?s2 = "s1\<lparr>virtualTime := virtualTime s1 + 1\<rparr>"
  obtain s3 where s3: "find_jobs w db (virtualTime ?s2) False True ?s2 = Some s3"
      "holds_jobs (queue s3) (now_jobs w db ?s2 False True)"
    using find_jobs_empty[of ?s2 db w "virtualTime ?s2" False True] s1(2) "1.prems"(2) by auto
  define s4 where "s4 = set_time w False now s3"
  have r: "medium_round w db now s = Some s4" using s1 s3 by (simp add: medium_round_def Let_def s4_def)
  have h4: "holds_jobs (queue s4) (now_jobs w db ?s2 False True)" using s3 by (simp add: s4_def set_time_times)
  note t4 = medium_round_times[OF r]
  show ?case
  proof (cases "virtualTime s4 < timeRunning s4 \<and> clockTime s4 = timeRunning s4")
    case False
    then have "medium_loop w db ts s = Some s4"
      using r by (subst medium_loop.simps) (auto simp: Let_def now_def[symmetric])
    then show ?thesis using h4 t4 False by (intro exI[of _ s4] exI[of _ "now_jobs w db ?s2 False True"] exI[of _ 1]) auto
  next
    case True
    have ml: "medium_loop w db ts s = medium_loop w db (tl ts) s4"
      using r True by (subst medium_loop.simps) (simp add: Let_def now_def[symmetric])
    obtain s' js' k where s': "medium_loop w db (tl ts) s4 = Some s'" "holds_jobs (queue s') js'"
        "virtualTime s' = virtualTime s4 + int k" "0 < k" "timeRunning s' = timeRunning s4"
        "virtualTime s' \<le> timeRunning s4"
        "finds s' = finds s4 @ map (\<lambda>v. (v, False, True)) [virtualTime s4 + 1..virtualTime s']"
        "clockTime s' = timeRunning s4 \<longrightarrow> virtualTime s' = timeRunning s4"
      using "1.IH"[OF now_def r _ h4 "1.prems"(2)] True by auto
    have "[virtualTime s + 1..virtualTime s'] = (virtualTime s + 1) # [virtualTime s4 + 1..virtualTime s']"
      using s'(3) t4 by (subst upto.simps) simp
    then show ?thesis
      using ml s' t4 by (intro exI[of _ s'] exI[of _ js'] exI[of _ "k + 1"]) auto
  qed
qed

text \<open>The invariant of the main loop.\<close>

definition sched_inv :: "sched \<Rightarrow> bool" where
  "sched_inv s \<longleftrightarrow> holds_jobs (queue s) [] \<and> \<bar>timeRunning s - virtualTime s\<bar> \<le> 180"

lemma wakeup_kind_cases:
  "wakeup_kind d = large \<longleftrightarrow> d > 180 \<or> d < - 180"
  "wakeup_kind d = medium \<longleftrightarrow> 5 < d \<and> d \<le> 180"
  "wakeup_kind d = small \<longleftrightarrow> 0 < d \<and> d \<le> 5"
  "wakeup_kind d = negative \<longleftrightarrow> - 180 \<le> d \<and> d \<le> 0"
  by (auto simp: wakeup_kind_def)

text \<open>The expected calls of \<open>find_jobs\<close>, by kind.\<close>

definition expected_finds :: "int \<Rightarrow> int \<Rightarrow> int \<Rightarrow> (int \<times> bool \<times> bool) list" where
  "expected_finds old new v' =
     (let d = new - old in
      case wakeup_kind d of
        large \<Rightarrow> [(new, True, True)]
      | negative \<Rightarrow> [(new, True, False)]
      | small \<Rightarrow> map (\<lambda>v. (v, True, True)) [old + 1..new]
      | medium \<Rightarrow> (new, True, False) # map (\<lambda>v. (v, False, True)) [old + 1..v'])"

lemma wake_finish:
  assumes "holds_jobs (queue s1) js"
  shows "\<exists>s'. map_option snd (run_queue s1) = Some s' \<and> holds_jobs (queue s') [] \<and> ran s' = ran s1 @ js
    \<and> virtualTime s' = virtualTime s1 \<and> timeRunning s' = timeRunning s1 \<and> finds s' = finds s1
    \<and> StartTime s' = StartTime s1"
  using run_queue_holds[OF assms] by auto

text \<open>What a wake-up has done once the jobs are queued; running the queue keeps it.\<close>

definition asked :: "sched \<Rightarrow> sched \<Rightarrow> bool" where
  "asked s s' \<longleftrightarrow> (\<exists>js. holds_jobs (queue s') js) \<and> timeRunning s' = clockTime s
    \<and> finds s' = finds s @ expected_finds (virtualTime s) (clockTime s) (virtualTime s')
    \<and> (case wakeup_kind (clockTime s - virtualTime s) of
         large \<Rightarrow> virtualTime s' = clockTime s
       | small \<Rightarrow> virtualTime s' = clockTime s
       | negative \<Rightarrow> virtualTime s' = virtualTime s
       | medium \<Rightarrow> virtualTime s < virtualTime s' \<and> virtualTime s' \<le> clockTime s)"

lemma asked_run:
  assumes "asked s s1"
  shows "\<exists>s'. map_option snd (run_queue s1) = Some s' \<and> holds_jobs (queue s') [] \<and> asked s s'"
proof -
  obtain js where "holds_jobs (queue s1) js" using assms by (auto simp: asked_def)
  from wake_finish[OF this] assms show ?thesis unfolding asked_def by metis
qed

lemma asked_once:
  assumes "holds_jobs (queue s) []" and "distinct (map fst db)" and "s0 = s\<lparr>timeRunning := clockTime s, virtualTime := v\<rparr>"
    and "v = (if wakeup_kind (clockTime s - virtualTime s) = negative then virtualTime s else clockTime s)"
    and "clockTime s - virtualTime s = 1 \<or> wakeup_kind (clockTime s - virtualTime s) \<in> {negative, large}"
    and "b \<longleftrightarrow> wakeup_kind (clockTime s - virtualTime s) \<noteq> negative"
  shows "\<exists>s1. find_jobs w db (clockTime s) True b s0 = Some s1 \<and> asked s s1"
proof -
  obtain s1 where s1: "find_jobs w db (clockTime s) True b s0 = Some s1" "holds_jobs (queue s1) (now_jobs w db s0 True b)"
    using find_jobs_empty[of s0 db w "clockTime s" True b] assms(1-3) by auto
  have "wakeup_kind (clockTime s - virtualTime s) = small \<and> [virtualTime s + 1..clockTime s] = [clockTime s]"
    if "clockTime s - virtualTime s = 1"
  proof -
    have v: "virtualTime s + 1 = clockTime s" using that by simp
    show ?thesis unfolding v using that by (simp add: wakeup_kind_cases)
  qed
  then show ?thesis
    using s1 find_jobs_times[OF s1(1)] assms(3-6) by (auto simp: asked_def expected_finds_def Let_def)
qed

lemma asked_small:
  assumes "holds_jobs (queue s) []" and "distinct (map fst db)" and "wakeup_kind (clockTime s - virtualTime s) = small"
  shows "\<exists>s1. small_loop w db (s\<lparr>timeRunning := clockTime s\<rparr>) = Some s1 \<and> asked s s1"
proof -
  have "virtualTime s < clockTime s" using assms(3) by (simp add: wakeup_kind_cases)
  then show ?thesis
    using small_loop_holds[of "s\<lparr>timeRunning := clockTime s\<rparr>" "[]" db w] assms
    by (auto simp: asked_def expected_finds_def Let_def)
qed

lemma asked_medium:
  assumes "holds_jobs (queue s) []" and "distinct (map fst db)" and k: "wakeup_kind (clockTime s - virtualTime s) = medium"
  shows "\<exists>s1 s2. find_jobs w db (clockTime s) True False (s\<lparr>timeRunning := clockTime s\<rparr>) = Some s1
    \<and> medium_loop w db ts s1 = Some s2 \<and> asked s s2"
proof -
  let ?s0 = "s\<lparr>timeRunning := clockTime s\<rparr>"
  obtain s1 where s1: "find_jobs w db (clockTime s) True False ?s0 = Some s1" "holds_jobs (queue s1) (now_jobs w db ?s0 True False)"
    using find_jobs_empty[of ?s0 db w "clockTime s" True False] assms(1,2) by auto
  note t1 = find_jobs_times[OF s1(1)]
  have "virtualTime s < clockTime s" using k by (simp add: wakeup_kind_cases)
  then show ?thesis
    using medium_loop_holds[OF s1(2) assms(2), of w ts] s1(1) t1 k by (auto simp: asked_def expected_finds_def Let_def)
qed

lemma wake_asked:
  assumes "holds_jobs (queue s) []" and "distinct (map fst db)"
  shows "\<exists>s'. wake w db ts s = Some s' \<and> holds_jobs (queue s') [] \<and> asked s s'"
proof (cases "clockTime s - virtualTime s = 1")
  case True
  then show ?thesis using asked_once[OF assms refl refl, of True w] asked_run[of s] by (fastforce simp: wake_def Let_def wakeup_kind_cases)
next
  case False
  then show ?thesis
    using asked_once[OF assms refl refl, of _ w] asked_small[OF assms, of w] asked_medium[OF assms, of w ts] asked_run[of s]
    by (cases "wakeup_kind (clockTime s - virtualTime s)") (fastforce simp: wake_def Let_def)+
qed

lemma wake_holds:
  assumes "holds_jobs (queue s) []" and "distinct (map fst db)"
  shows "\<exists>s'. wake w db ts s = Some s' \<and> holds_jobs (queue s') [] \<and> timeRunning s' = clockTime s
    \<and> finds s' = finds s @ expected_finds (virtualTime s) (clockTime s) (virtualTime s')
    \<and> (case wakeup_kind (clockTime s - virtualTime s) of
         large \<Rightarrow> virtualTime s' = clockTime s
       | small \<Rightarrow> virtualTime s' = clockTime s
       | negative \<Rightarrow> virtualTime s' = virtualTime s
       | medium \<Rightarrow> virtualTime s < virtualTime s' \<and> virtualTime s' \<le> clockTime s)"
  using wake_asked[OF assms, of w ts] unfolding asked_def by blast

lemma wake_inv:
  assumes "holds_jobs (queue s) []" and "distinct (map fst db)"
  shows "\<exists>s'. wake w db ts s = Some s' \<and> sched_inv s'"
proof -
  obtain s' where s': "wake w db ts s = Some s'" "holds_jobs (queue s') []" "timeRunning s' = clockTime s"
      "case wakeup_kind (clockTime s - virtualTime s) of
         large \<Rightarrow> virtualTime s' = clockTime s
       | small \<Rightarrow> virtualTime s' = clockTime s
       | negative \<Rightarrow> virtualTime s' = virtualTime s
       | medium \<Rightarrow> virtualTime s < virtualTime s' \<and> virtualTime s' \<le> clockTime s"
    using wake_holds[OF assms, of w ts] by blast
  then have "\<bar>timeRunning s' - virtualTime s'\<bar> \<le> 180" by (auto simp: wakeup_kind_def split: if_splits)
  with s'(1,2) show ?thesis by (simp add: sched_inv_def)
qed

lemma set_due_jobs:
  "(a, i) \<in> set (due_jobs p db) \<longleftrightarrow> (\<exists>u. (a, u) \<in> set db \<and> i < length (crontab u) \<and> p (crontab u ! i))"
  by (auto simp: due_jobs_def set_due_in)

lemma wake_runs_due:
  assumes "holds_jobs (queue s) []" and "distinct (map fst db)" and "clockTime s = virtualTime s + 1"
  shows "\<exists>s'. wake w db ts s = Some s' \<and> ran s' = ran s @ now_jobs w db s True True \<and> StartTime s' = StartTime s"
proof -
  let ?s1 = "s\<lparr>timeRunning := clockTime s, virtualTime := clockTime s\<rparr>"
  obtain s2 where s2: "find_jobs w db (virtualTime ?s1) True True ?s1 = Some s2"
      "holds_jobs (queue s2) (now_jobs w db ?s1 True True)"
    using find_jobs_empty[of ?s1 db w "virtualTime ?s1" True True] assms(1,2) by auto
  obtain s' where s': "map_option snd (run_queue s2) = Some s'" "StartTime s' = StartTime s2"
      "ran s' = ran s2 @ now_jobs w db ?s1 True True"
    using wake_finish[OF s2(2)] by blast
  have "wake w db ts s = Some s'" using s2(1) s'(1) assms(3) by (simp add: wake_def Let_def)
  then show ?thesis using s'(2,3) find_jobs_times[OF s2(1)] by simp
qed

section \<open>Only entries of the tables\<close>

text \<open>The jobs queued, and those run since \<open>r\<close>, are in \<open>E\<close>.\<close>

definition only_from :: "job set \<Rightarrow> job list \<Rightarrow> sched \<Rightarrow> bool" where
  "only_from E r s \<longleftrightarrow> (\<exists>js new. holds_jobs (queue s) js \<and> set js \<subseteq> E \<and> ran s = r @ new \<and> set new \<subseteq> E)"

abbreviation all_jobs :: "cron_users \<Rightarrow> job set" where
  "all_jobs db \<equiv> set (due_jobs (\<lambda>_. True) db)"

lemma only_from_upd [simp]:
  "only_from E r (s\<lparr>virtualTime := v\<rparr>) = only_from E r s" "only_from E r (s\<lparr>timeRunning := v\<rparr>) = only_from E r s"
  "only_from E r (set_time w i now s) = only_from E r s" "only_from E r (s\<lparr>naps := n\<rparr>) = only_from E r s"
  by (simp_all add: only_from_def set_time_times)

lemma only_from_find:
  assumes "only_from (all_jobs db) r s" and "find_jobs w db v a b s = Some s'"
  shows "only_from (all_jobs db) r s'"
proof -
  obtain js new where js: "holds_jobs (queue s) js" "set js \<subseteq> all_jobs db" "ran s = r @ new" "set new \<subseteq> all_jobs db"
    using assms(1) by (auto simp: only_from_def)
  have "holds_jobs (queue s') (jq.enq js (now_jobs w db s a b))"
    using find_jobs_holds[OF js(1), of w db v a b] assms(2) by auto
  moreover have "set (jq.enq js (now_jobs w db s a b)) \<subseteq> all_jobs db"
    using js(2) by (auto simp: jq.set_enq set_due_jobs)
  ultimately show ?thesis
    using js(3,4) find_jobs_times[OF assms(2)] unfolding only_from_def by metis
qed

lemma only_from_run:
  assumes "only_from E r s" and "run_queue s = Some (n, s')"
  shows "only_from E r s'"
proof -
  obtain js new where js: "holds_jobs (queue s) js" "set js \<subseteq> E" "ran s = r @ new" "set new \<subseteq> E"
    using assms(1) by (auto simp: only_from_def)
  then have "holds_jobs (queue s') []" "ran s' = r @ new @ js" using run_queue_holds[OF js(1)] assms(2) by auto
  with js(2,4) show ?thesis unfolding only_from_def by (metis empty_set empty_subsetI le_sup_iff set_append)
qed

lemma only_from_nap: "only_from E r s \<Longrightarrow> run_and_nap s = Some s' \<Longrightarrow> only_from E r s'"
  by (auto simp: run_and_nap_def split: option.splits if_splits dest: only_from_run)

lemma only_from_small_round:
  assumes "only_from (all_jobs db) r s" and "small_round w db s = Some s'"
  shows "only_from (all_jobs db) r s'"
proof -
  obtain s1 where s1: "run_and_nap s = Some s1"
      "find_jobs w db (virtualTime s1 + 1) True True (s1\<lparr>virtualTime := virtualTime s1 + 1\<rparr>) = Some s'"
    using assms(2) by (auto simp: small_round_def Let_def split: option.splits)
  show ?thesis by (rule only_from_find[OF _ s1(2)]) (simp add: only_from_nap[OF assms(1) s1(1)])
qed

lemma only_from_medium_round:
  assumes "only_from (all_jobs db) r s" and "medium_round w db now s = Some s'"
  shows "only_from (all_jobs db) r s'"
proof -
  obtain s1 s2 where s1: "run_and_nap s = Some s1" "s' = set_time w False now s2"
      "find_jobs w db (virtualTime s1 + 1) False True (s1\<lparr>virtualTime := virtualTime s1 + 1\<rparr>) = Some s2"
    using assms(2) by (auto simp: medium_round_def Let_def split: option.splits)
  have "only_from (all_jobs db) r s2"
    by (rule only_from_find[OF _ s1(3)]) (simp add: only_from_nap[OF assms(1) s1(1)])
  then show ?thesis by (simp add: s1(2))
qed

lemma only_from_small:
  "only_from (all_jobs db) r s \<Longrightarrow> small_loop w db s = Some s' \<Longrightarrow> only_from (all_jobs db) r s'"
proof (induction w db s rule: small_loop.induct)
  case (1 w db s)
  show ?case
  proof (cases "small_round w db s")
    case None
    with "1.prems"(2) show ?thesis by (subst (asm) small_loop.simps) simp
  next
    case (Some s1)
    note o = only_from_small_round[OF "1.prems"(1) Some]
    show ?thesis
      using "1.IH"[OF Some _ o] "1.prems"(2) Some o by (subst (asm) (2) small_loop.simps) (simp split: if_splits)
  qed
qed

lemma only_from_medium:
  "only_from (all_jobs db) r s \<Longrightarrow> medium_loop w db ts s = Some s' \<Longrightarrow> only_from (all_jobs db) r s'"
proof (induction w db ts s rule: medium_loop.induct)
  case (1 w db ts s)
  define now where "now = (case ts of [] \<Rightarrow> StartTime s | t # _ \<Rightarrow> t)"
  have eq: "medium_loop w db ts s = (case medium_round w db now s of None \<Rightarrow> None
      | Some s1 \<Rightarrow> if virtualTime s1 < timeRunning s1 \<and> clockTime s1 = timeRunning s1
          then medium_loop w db (tl ts) s1 else Some s1)"
    by (subst medium_loop.simps) (simp only: now_def[symmetric] Let_def)
  show ?case
  proof (cases "medium_round w db now s")
    case None
    with "1.prems"(2) show ?thesis by (simp add: eq)
  next
    case (Some s1)
    note o = only_from_medium_round[OF "1.prems"(1) Some]
    show ?thesis
      using "1.IH"[OF now_def Some _ o] "1.prems"(2) Some o by (simp add: eq split: if_splits)
  qed
qed

text \<open>Whatever the clock did, a round only runs entries of the tables it was given.\<close>

lemma wake_only_from:
  assumes "holds_jobs (queue s) []" and "wake w db ts s = Some s'"
  shows "only_from (all_jobs db) (ran s) s'"
proof -
  let ?o = "only_from (all_jobs db) (ran s)"
  have o: "?o s" "?o (s\<lparr>timeRunning := x\<rparr>)" "?o (s\<lparr>timeRunning := x, virtualTime := y\<rparr>)" for x y
    using assms(1) by (auto simp: only_from_def)
  note keep = only_from_find[OF o(2)] only_from_find[OF o(3)] only_from_small[OF o(2)]
    only_from_medium[OF only_from_find[OF o(2)]]
  have "\<exists>s1 n. run_queue s1 = Some (n, s') \<and> ?o s1"
  proof (cases "clockTime s - virtualTime s = 1")
    case True
    with assms(2) show ?thesis by (auto simp: wake_def Let_def split: option.splits dest: keep)
  next
    case False
    with assms(2) show ?thesis
      by (cases "wakeup_kind (clockTime s - virtualTime s)")
         (auto simp: wake_def Let_def split: option.splits dest: keep)
  qed
  then show ?thesis using only_from_run by blast
qed

section \<open>Start-up\<close>

definition sched0 :: sched where
  "sched0 = \<lparr>StartTime = 0, clockTime = 0, timeRunning = 0, virtualTime = 0, GMToff = 0, isdst = 0,
     queue = jempty, ran = [], naps = 0, finds = []\<rparr>"

lemma run_reboot_holds:
  assumes "holds_jobs (queue s) []" and "distinct (map fst db)"
  shows "\<exists>l c' s'. run_reboot_jobs lock creat_ok db c s = Some (l, c', s') \<and> holds_jobs (queue s') []
    \<and> clockTime s' = clockTime s
    \<and> ran s' = ran s @ (if lock then [] else due_jobs (\<lambda>e. flags e AND WHEN_REBOOT \<noteq> 0) db)
    \<and> (l \<longleftrightarrow> lock \<or> creat_ok)"
proof (cases lock)
  case True
  then show ?thesis using assms by (auto simp: run_reboot_jobs_def)
next
  case False
  let ?D = "due_jobs (\<lambda>e. flags e AND WHEN_REBOOT \<noteq> 0) db"
  obtain q where q: "reboot_users db (queue s) = Some q" "holds_jobs q ?D"
    using jq.add_all_holds[OF assms(1), of ?D] enq_nil_distinct[OF distinct_due_jobs[OF assms(2)], of "[]"]
    by (auto simp: reboot_users_find find_users_add_all)
  then obtain s' where "run_queue (s\<lparr>queue := q\<rparr>) = Some (length ?D, s')" "holds_jobs (queue s') []"
      "ran s' = ran s @ ?D" "clockTime s' = clockTime s"
    using run_queue_holds[of "s\<lparr>queue := q\<rparr>" ?D] by auto
  with False q(1) show ?thesis by (simp add: run_reboot_jobs_def Let_def)
qed

section \<open>When an entry is due\<close>

lemma time_matches_values:
  assumes "tm_wf t"
  shows "time_matches t e \<longleftrightarrow>
    tm_min t \<in> minutes (tbits e) \<and> tm_hour t \<in> hours (tbits e) \<and> tm_mon t + 1 \<in> months (tbits e) \<and>
    (if flags e AND DOM_STAR \<noteq> 0 \<or> flags e AND DOW_STAR \<noteq> 0
     then tm_wday t \<in> dows (tbits e) \<and> tm_mday t \<in> doms (tbits e)
     else tm_wday t \<in> dows (tbits e) \<or> tm_mday t \<in> doms (tbits e))"
  using assms by (auto simp: time_matches_def tm_wf_def field_values_def macro_defs Let_def)

section \<open>Sleeping\<close>

lemma s32_diff: "s32 (s32 a - b) = s32 (a - b)"
proof -
  have "s32 a = a - 2 ^ 32 * ((a + 2 ^ 31) div 2 ^ 32)"
    by (simp add: s32_def minus_div_mult_eq_mod[symmetric] algebra_simps)
  then have "s32 a - b + 2 ^ 31 = (a - b + 2 ^ 31) + 2 ^ 32 * (- ((a + 2 ^ 31) div 2 ^ 32))"
    by (simp add: algebra_simps)
  then show ?thesis unfolding s32_def[of "s32 a - b"] s32_def[of "a - b"] by (simp only: mod_mult_self2)
qed

text \<open>The product \<open>target * SECONDS_PER_MINUTE\<close> overflows from 2038 on; the difference is still right.\<close>

lemma seconds_to_wait:
  assumes "\<bar>target * 60 - t1\<bar> < 2 ^ 30"
  shows "s32 (s32 (s32 (target * 60) - t1) + 1) = target * 60 - t1 + 1"
proof -
  have "s32 (s32 (target * 60) - t1) = target * 60 - t1"
    using assms by (simp add: s32_diff s32_id)
  then show ?thesis using assms by (simp add: s32_id)
qed

lemma sleep_loop_ends:
  assumes "sleep_loop secs t1 ts = Some (t, n)" and "secs = goal - t1" and "\<bar>goal - t1\<bar> < 2 ^ 30"
    and "\<forall>x \<in> set ts. \<bar>goal - x\<bar> < 2 ^ 30"
  shows "goal \<le> t \<or> 65 \<le> goal - t"
  using assms
proof (induction ts arbitrary: secs t1 n)
  case Nil
  then show ?case by (auto split: if_splits)
next
  case (Cons t2 ts)
  show ?case
  proof (cases "0 < secs \<and> secs < 65")
    case False
    with Cons.prems show ?thesis by auto
  next
    case True
    have b: "\<bar>t2 - t1\<bar> < 2 ^ 31" using Cons.prems(3,4) by auto
    have "s32 (t2 - t1) = t2 - t1" using b by (simp add: s32_id)
    moreover have "s32 (secs - (t2 - t1)) = goal - t2"
    proof -
      have "secs - (t2 - t1) = goal - t2" using Cons.prems(2) by simp
      moreover have "s32 (goal - t2) = goal - t2" using Cons.prems(4) by (intro s32_id) auto
      ultimately show ?thesis by (simp only:)
    qed
    ultimately obtain k where "sleep_loop (goal - t2) t2 ts = Some (t, k)"
      using Cons.prems(1) True by auto
    then show ?thesis using Cons.IH[of "goal - t2" t2 k] Cons.prems(4) by auto
  qed
qed

end
