(* ===== verification/CronDatabaseList.thy ===== *)
theory CronDatabaseList
  imports CronDatabase
begin

text \<open>
  The doubly linked list of users as a list of addresses: \<open>dlist\<close> is the representation relation, and
  linking, unlinking, searching and freeing are appending, removing, finding and clearing. The locale \<open>user_list\<close>
  is the interface of \<open>process_crontab\<close> to it.
\<close>

section \<open>Representation\<close>

fun dchain :: "uheap \<Rightarrow> nat option \<Rightarrow> nat option \<Rightarrow> nat list \<Rightarrow> bool" where
  "dchain h prv p [] \<longleftrightarrow> p = None"
| "dchain h prv p (a # as) \<longleftrightarrow>
     p = Some a \<and> (\<exists>nd. h a = Some nd \<and> u_prev nd = prv \<and> dchain h (Some a) (u_next nd) as)"

definition last_of :: "nat option \<Rightarrow> nat list \<Rightarrow> nat option" where
  "last_of prv as = (if as = [] then prv else Some (last as))"

definition first_of :: "nat list \<Rightarrow> nat option \<Rightarrow> nat option" where
  "first_of as nxt = (case as of [] \<Rightarrow> nxt | a # _ \<Rightarrow> Some a)"

definition dlist :: "uheap \<Rightarrow> cron_db \<Rightarrow> nat list \<Rightarrow> bool" where
  "dlist h db as \<longleftrightarrow> dchain h None (db_head db) as \<and> db_tail db = last_of None as \<and> distinct as"

lemma dchain_frame:
  "dchain h prv p as \<Longrightarrow> \<forall>a \<in> set as. h' a = h a \<Longrightarrow> dchain h' prv p as"
  by (induction as arbitrary: prv p) auto

lemma dchain_nodes: "dchain h prv p as \<Longrightarrow> a \<in> set as \<Longrightarrow> h a \<noteq> None"
  by (induction as arbitrary: prv p) auto

lemma dchain_head: "dchain h prv p as \<Longrightarrow> p = first_of as None"
  by (cases as) (auto simp: first_of_def)

text \<open>A segment that ends in \<open>nxt\<close>; the whole list is a segment that ends in \<open>NULL\<close>.\<close>

fun dseg :: "uheap \<Rightarrow> nat option \<Rightarrow> nat option \<Rightarrow> nat list \<Rightarrow> nat option \<Rightarrow> bool" where
  "dseg h prv p [] nxt \<longleftrightarrow> p = nxt"
| "dseg h prv p (a # as) nxt \<longleftrightarrow>
     p = Some a \<and> (\<exists>nd. h a = Some nd \<and> u_prev nd = prv \<and> dseg h (Some a) (u_next nd) as nxt)"

lemma dchain_append:
  "dchain h prv p (as @ bs) \<longleftrightarrow>
     dseg h prv p as (first_of bs None) \<and> dchain h (last_of prv as) (first_of bs None) bs"
proof (induction as arbitrary: prv p)
  case Nil
  then show ?case by (auto simp: last_of_def dest: dchain_head)
next
  case (Cons a as)
  have "last_of (Some a) as = last_of prv (a # as)" by (simp add: last_of_def)
  with Cons show ?case by auto
qed

lemma dseg_frame:
  "dseg h prv p as nxt \<Longrightarrow> \<forall>a \<in> set as. h' a = h a \<Longrightarrow> dseg h' prv p as nxt"
  by (induction as arbitrary: prv p) auto

text \<open>Redirecting the end of a segment.\<close>

lemma dseg_retarget:
  assumes "dseg h prv p (as @ [a]) nxt" and "distinct (as @ [a])" and "h a = Some nd"
  shows "dseg (h(a \<mapsto> nd\<lparr>u_next := nxt'\<rparr>)) prv p (as @ [a]) nxt'"
  using assms
proof (induction as arbitrary: prv p)
  case (Cons b as)
  then have "b \<noteq> a" by auto
  with Cons show ?case by auto
qed auto

lemma upd_node_Some: "h a = Some nd \<Longrightarrow> upd_node a f h = Some (h(a \<mapsto> f nd))"
  by (simp add: upd_node_def)

definition same_data :: "uheap \<Rightarrow> uheap \<Rightarrow> bool" where
  "same_data h h' \<longleftrightarrow> (\<forall>a. map_option u_data (h' a) = map_option u_data (h a))"

definition keeps :: "nat set \<Rightarrow> uheap \<Rightarrow> uheap \<Rightarrow> bool" where
  "keeps A h h' \<longleftrightarrow> (\<forall>a. a \<notin> A \<longrightarrow> h' a = h a)"

lemma keeps_dlist: "keeps A h h' \<Longrightarrow> dlist h db as \<Longrightarrow> A \<inter> set as = {} \<Longrightarrow> dlist h' db as"
  using dchain_frame[of h None "db_head db" as h'] unfolding keeps_def dlist_def by blast

section \<open>Linking and unlinking\<close>

lemma link_user_dlist:
  assumes l: "dlist h db as" and u: "h u = Some nu" "u \<notin> set as"
  shows "\<exists>h' db'. link_user h db u = Some (h', db') \<and> dlist h' db' (as @ [u]) \<and> same_data h h'
    \<and> keeps (insert u (set as)) h h' \<and> mtime_db db' = mtime_db db"
proof (cases as rule: rev_cases)
  case Nil
  let ?nu = "nu\<lparr>u_prev := None, u_next := None\<rparr>"
  have "db_head db = None" "db_tail db = None" using l Nil by (auto simp: dlist_def last_of_def)
  then have "link_user h db u = Some (h(u \<mapsto> ?nu), db\<lparr>db_head := Some u, db_tail := Some u\<rparr>)"
    using u by (simp add: link_user_def upd_node_Some Let_def)
  moreover have "dlist (h(u \<mapsto> ?nu)) (db\<lparr>db_head := Some u, db_tail := Some u\<rparr>) [u]"
    by (simp add: dlist_def last_of_def)
  ultimately show ?thesis using Nil u by (auto simp: same_data_def keeps_def)
next
  case (snoc bs t)
  have ch: "dchain h None (db_head db) as" using l by (simp add: dlist_def)
  obtain x where hd: "db_head db = Some x"
    using dchain_head[OF ch] snoc that by (cases bs) (auto simp: first_of_def)
  have tl: "db_tail db = Some t" using l snoc by (simp add: dlist_def last_of_def)
  have d: "distinct (bs @ [t])" "u \<noteq> t" "u \<notin> set bs" using l u snoc by (auto simp: dlist_def)
  have seg: "dseg h None (db_head db) (bs @ [t]) None"
    using l snoc dchain_append[of h None "db_head db" "bs @ [t]" "[]"] by (simp add: dlist_def first_of_def)
  obtain nt where nt: "h t = Some nt" using dchain_nodes[OF ch, of t] snoc by auto
  define h1 where "h1 = h(t \<mapsto> nt\<lparr>u_next := Some u\<rparr>)"
  define h2 where "h2 = h1(u \<mapsto> nu\<lparr>u_prev := Some t, u_next := None\<rparr>)"
  have lk: "link_user h db u = Some (h2, db\<lparr>db_tail := Some u\<rparr>)"
    using hd tl nt u d by (simp add: link_user_def upd_node_def h1_def h2_def)
  have "dseg h1 None (db_head db) (bs @ [t]) (Some u)"
    unfolding h1_def using dseg_retarget[OF seg d(1) nt] .
  then have "dseg h2 None (db_head db) (bs @ [t]) (Some u)"
    by (rule dseg_frame) (use d in \<open>auto simp: h2_def\<close>)
  then have "dchain h2 None (db_head db) ((bs @ [t]) @ [u])"
    unfolding dchain_append by (simp add: first_of_def last_of_def h2_def)
  then have "dlist h2 (db\<lparr>db_tail := Some u\<rparr>) (as @ [u])"
    using d snoc by (simp add: dlist_def last_of_def)
  moreover have "same_data h h2" using nt u d by (auto simp: same_data_def h1_def h2_def)
  moreover have "keeps (insert u (set as)) h h2" using snoc by (auto simp: keeps_def h1_def h2_def)
  ultimately show ?thesis using lk by auto
qed

text \<open>Unlinking, first half: the predecessor, or the head, is led past the node.\<close>

lemma unlink_prev:
  assumes "dseg h None (db_head db) xs (Some u)" and "distinct xs" and "\<forall>a \<in> set xs. h a \<noteq> None"
  obtains h1 db1 where "(case last_of None xs of
        None \<Rightarrow> Some (h, db\<lparr>db_head := nxt\<rparr>)
      | Some p \<Rightarrow> map_option (\<lambda>h. (h, db)) (upd_node p (\<lambda>m. m\<lparr>u_next := nxt\<rparr>) h)) = Some (h1, db1)"
    "dseg h1 None (db_head db1) xs nxt" "keeps (set xs) h h1" "same_data h h1" "mtime_db db1 = mtime_db db" "db_tail db1 = db_tail db"
proof (cases xs rule: rev_cases)
  case Nil
  then show thesis using that[of h "db\<lparr>db_head := nxt\<rparr>"] by (simp add: last_of_def keeps_def same_data_def)
next
  case (snoc bs t)
  obtain nt where nt: "h t = Some nt" using assms(3) snoc by auto
  have "dseg (h(t \<mapsto> nt\<lparr>u_next := nxt\<rparr>)) None (db_head db) (bs @ [t]) nxt"
    using dseg_retarget[OF assms(1,2)[unfolded snoc] nt] .
  then show thesis
    using that[of "h(t \<mapsto> nt\<lparr>u_next := nxt\<rparr>)" db] nt snoc by (auto simp: last_of_def upd_node_def keeps_def same_data_def)
qed

text \<open>Second half: the successor, or the tail, is led back.\<close>

lemma unlink_next:
  assumes "dseg h None (db_head db) xs (first_of ys None)" and "dchain h prv (first_of ys None) ys" and "distinct (xs @ ys)"
    and "ys \<noteq> [] \<Longrightarrow> db_tail db = Some (last ys)"
  obtains h2 db2 where "(case first_of ys None of
        None \<Rightarrow> Some (h, db\<lparr>db_tail := last_of None xs\<rparr>)
      | Some x \<Rightarrow> map_option (\<lambda>h. (h, db)) (upd_node x (\<lambda>m. m\<lparr>u_prev := last_of None xs\<rparr>) h)) = Some (h2, db2)"
    "dlist h2 db2 (xs @ ys)" "keeps (set ys) h h2" "same_data h h2" "mtime_db db2 = mtime_db db"
proof (cases ys)
  case Nil
  have "dlist h (db\<lparr>db_tail := last_of None xs\<rparr>) (xs @ ys)"
    using assms(1,3) Nil dchain_append[of h None "db_head db" xs "[]"] by (simp add: dlist_def first_of_def)
  then show thesis using that[of h "db\<lparr>db_tail := last_of None xs\<rparr>"] Nil by (simp add: first_of_def keeps_def same_data_def)
next
  case (Cons y zs)
  obtain ny where ny: "h y = Some ny" "dchain h (Some y) (u_next ny) zs" using assms(2) Cons by (auto simp: first_of_def)
  define h2 where "h2 = h(y \<mapsto> ny\<lparr>u_prev := last_of None xs\<rparr>)"
  have "dseg h2 None (db_head db) xs (Some y)"
    by (rule dseg_frame[of h]) (use assms(1,3) Cons in \<open>auto simp: h2_def first_of_def\<close>)
  moreover have "dchain h2 (Some y) (u_next ny) zs"
    using ny(2) by (rule dchain_frame) (use assms(3) Cons in \<open>auto simp: h2_def\<close>)
  ultimately have "dlist h2 db (xs @ ys)"
    using assms(3,4) Cons by (simp add: dlist_def dchain_append first_of_def last_of_def h2_def)
  then show thesis
    using that[of h2 db] ny(1) Cons by (simp add: first_of_def upd_node_def h2_def keeps_def same_data_def)
qed

lemma unlink_user_dlist:
  assumes l: "dlist h db (xs @ u # ys)"
  shows "\<exists>h' db'. unlink_user h db u = Some (h', db') \<and> dlist h' db' (xs @ ys) \<and> same_data h h'
    \<and> keeps (set xs \<union> set ys) h h' \<and> mtime_db db' = mtime_db db"
proof -
  have d: "distinct (xs @ u # ys)" and tl: "db_tail db = Some (last (u # ys))" using l by (simp_all add: dlist_def last_of_def)
  have seg: "dseg h None (db_head db) xs (Some u)" "dchain h (last_of None xs) (Some u) (u # ys)"
    using l by (auto simp: dlist_def dchain_append first_of_def)
  then obtain nu where nu: "h u = Some nu" "u_prev nu = last_of None xs" "dchain h (Some u) (u_next nu) ys" by auto
  have nx: "u_next nu = first_of ys None" using dchain_head[OF nu(3)] .
  have nodes: "\<forall>a \<in> set xs. h a \<noteq> None" using l dchain_nodes by (fastforce simp: dlist_def)
  obtain h1 db1 where s1: "(case u_prev nu of
        None \<Rightarrow> Some (h, db\<lparr>db_head := u_next nu\<rparr>)
      | Some p \<Rightarrow> map_option (\<lambda>h. (h, db)) (upd_node p (\<lambda>m. m\<lparr>u_next := u_next nu\<rparr>) h)) = Some (h1, db1)"
    and g1: "dseg h1 None (db_head db1) xs (u_next nu)" "keeps (set xs) h h1" "same_data h h1" "mtime_db db1 = mtime_db db"
      "db_tail db1 = db_tail db"
    using unlink_prev[OF seg(1) _ nodes, of "u_next nu"] d unfolding nu(2) by auto
  have "\<forall>a \<in> set ys. h1 a = h a" using g1(2) d unfolding keeps_def by auto
  then have c1: "dchain h1 (Some u) (first_of ys None) ys" using dchain_frame[OF nu(3)] nx by simp
  obtain h2 db2 where "(case u_next nu of
        None \<Rightarrow> Some (h1, db1\<lparr>db_tail := u_prev nu\<rparr>)
      | Some x \<Rightarrow> map_option (\<lambda>h. (h, db1)) (upd_node x (\<lambda>m. m\<lparr>u_prev := u_prev nu\<rparr>) h1)) = Some (h2, db2)"
    and g2: "dlist h2 db2 (xs @ ys)" "keeps (set ys) h1 h2" "same_data h1 h2" "mtime_db db2 = mtime_db db1"
    using unlink_next[OF g1(1)[unfolded nx] c1] d tl g1(5) unfolding nx nu(2) by auto
  then have "unlink_user h db u = Some (h2, db2)" using nu(1) s1 by (simp add: unlink_user_def)
  then show ?thesis using g1(2-4) g2 by (auto simp: keeps_def same_data_def)
qed

section \<open>Searching and clearing\<close>

definition data_at :: "uheap \<Rightarrow> nat \<Rightarrow> user" where
  "data_at h a = u_data (the (h a))"

lemma find_from_dchain:
  "dchain h prv p as \<Longrightarrow> length as \<le> k \<Longrightarrow> find_from k h p q = Some (List.find (\<lambda>a. q (data_at h a)) as)"
proof (induction as arbitrary: k prv p)
  case (Cons a as)
  then obtain nd m where "p = Some a" "h a = Some nd" "dchain h (Some a) (u_next nd) as" "k = Suc m"
    by (cases k) auto
  with Cons show ?case by (auto simp: data_at_def)
qed simp

lemma unlink_head_next:
  assumes "dlist h db (u # ys)"
  shows "\<exists>nu. h u = Some nu \<and> u_next nu = first_of ys None"
  using assms by (auto simp: dlist_def dest: dchain_head)

lemma junk_loop_dlist:
  "dlist h db as \<Longrightarrow> length as \<le> k \<Longrightarrow>
     \<exists>h'. junk_loop k h db (first_of as None) = Some h' \<and> (\<forall>a \<in> set as. h' a = None) \<and> keeps (set as) h h'"
proof (induction as arbitrary: k h db)
  case Nil
  then show ?case by (simp add: first_of_def keeps_def)
next
  case (Cons u ys)
  then obtain m where k: "k = Suc m" by (cases k) auto
  obtain nu where nu: "h u = Some nu" "u_next nu = first_of ys None" using unlink_head_next[OF Cons.prems(1)] by blast
  obtain h1 db1 where h1: "unlink_user h db u = Some (h1, db1)" "dlist h1 db1 ys" "keeps (set ys) h h1"
    using unlink_user_dlist[of h db "[]" u ys] Cons.prems(1) by auto
  have u: "u \<notin> set ys" using Cons.prems(1) by (simp add: dlist_def)
  have "keeps {u} h1 (free_node u h1)" by (simp add: keeps_def free_node_def)
  then have "dlist (free_node u h1) db1 ys" using keeps_dlist[OF _ h1(2)] u by simp
  then obtain h' where h': "junk_loop m (free_node u h1) db1 (first_of ys None) = Some h'"
      "\<forall>a \<in> set ys. h' a = None" "keeps (set ys) (free_node u h1) h'"
    using Cons.IH[of "free_node u h1" db1 m] Cons.prems(2) k by auto
  have "h' u = None" using h'(3) u by (simp add: keeps_def free_node_def)
  then show ?case
    using k nu h1 h' u by (auto simp: first_of_def keeps_def free_node_def)
qed

section \<open>The interface\<close>

locale user_list =
  fixes rep :: "uheap \<Rightarrow> 'd \<Rightarrow> nat list \<Rightarrow> bool"
    and link :: "uheap \<Rightarrow> 'd \<Rightarrow> nat \<Rightarrow> (uheap \<times> 'd) option"
    and unlink :: "uheap \<Rightarrow> 'd \<Rightarrow> nat \<Rightarrow> (uheap \<times> 'd) option"
  assumes link_law: "rep h db as \<Longrightarrow> h u \<noteq> None \<Longrightarrow> u \<notin> set as \<Longrightarrow>
      \<exists>h' db'. link h db u = Some (h', db') \<and> rep h' db' (as @ [u]) \<and> same_data h h'
        \<and> keeps (insert u (set as)) h h'"
    and unlink_law: "rep h db (xs @ u # ys) \<Longrightarrow>
      \<exists>h' db'. unlink h db u = Some (h', db') \<and> rep h' db' (xs @ ys) \<and> same_data h h'
        \<and> keeps (set xs \<union> set ys) h h'"
    and rep_frame: "keeps A h h' \<Longrightarrow> rep h db as \<Longrightarrow> A \<inter> set as = {} \<Longrightarrow> rep h' db as"
    and rep_node: "rep h db as \<Longrightarrow> a \<in> set as \<Longrightarrow> h a \<noteq> None"
    and rep_distinct: "rep h db as \<Longrightarrow> distinct as"
begin

text \<open>Two lists in one heap: adding a node to one leaves the other alone, and a node can be moved from one to
  the other.\<close>

lemma link_beside:
  assumes "rep h new ns" and "rep h old os" and "set ns \<inter> set os = {}"
    and "h u \<noteq> None" and "u \<notin> set ns" and "u \<notin> set os"
  shows "\<exists>h' new'. link h new u = Some (h', new') \<and> rep h' new' (ns @ [u]) \<and> rep h' old os \<and> same_data h h'
    \<and> keeps (insert u (set ns)) h h'"
proof -
  obtain h' new' where h': "link h new u = Some (h', new')" "rep h' new' (ns @ [u])" "same_data h h'"
      "keeps (insert u (set ns)) h h'" using link_law[OF assms(1,4,5)] by blast
  moreover have "rep h' old os" by (rule rep_frame[OF h'(4) assms(2)]) (use assms in auto)
  ultimately show ?thesis by blast
qed

lemma unlink_beside:
  assumes "rep h new ns" and "rep h old (xs @ u # ys)" and "set ns \<inter> set (xs @ u # ys) = {}"
  shows "\<exists>h' old'. unlink h old u = Some (h', old') \<and> rep h' new ns \<and> rep h' old' (xs @ ys) \<and> same_data h h'
    \<and> keeps (set xs \<union> set ys) h h'"
proof -
  obtain h' old' where h': "unlink h old u = Some (h', old')" "rep h' old' (xs @ ys)" "same_data h h'"
      "keeps (set xs \<union> set ys) h h'" using unlink_law[OF assms(2)] by blast
  moreover have "rep h' new ns" by (rule rep_frame[OF h'(4) assms(1)]) (use assms(3) in auto)
  ultimately show ?thesis by blast
qed

lemma move:
  assumes "rep h new ns" and "rep h old (xs @ u # ys)" and "set ns \<inter> set (xs @ u # ys) = {}"
  shows "\<exists>h1 old' h2 new'. unlink h old u = Some (h1, old') \<and> link h1 new u = Some (h2, new')
    \<and> rep h2 new' (ns @ [u]) \<and> rep h2 old' (xs @ ys) \<and> same_data h h2
    \<and> keeps (set ns \<union> set (xs @ u # ys)) h h2"
proof -
  obtain h1 old' where h1: "unlink h old u = Some (h1, old')" "rep h1 new ns" "rep h1 old' (xs @ ys)"
      "same_data h h1" "keeps (set xs \<union> set ys) h h1" using unlink_beside[OF assms] by blast
  have d: "distinct (xs @ u # ys)" using rep_distinct[OF assms(2)] .
  have "h u \<noteq> None" using rep_node[OF assms(2)] by simp
  then have u: "h1 u \<noteq> None" using h1(5) d by (simp add: keeps_def)
  have "set ns \<inter> set (xs @ ys) = {}" "u \<notin> set ns" "u \<notin> set (xs @ ys)" using assms(3) d by auto
  then obtain h2 new' where h2: "link h1 new u = Some (h2, new')" "rep h2 new' (ns @ [u])"
      "rep h2 old' (xs @ ys)" "same_data h1 h2" "keeps (insert u (set ns)) h1 h2"
    using link_beside[OF h1(2,3) _ u] by blast
  have "same_data h h2" using h1(4) h2(4) by (simp add: same_data_def)
  moreover have "keeps (set ns \<union> set (xs @ u # ys)) h h2" using h1(5) h2(5) by (simp add: keeps_def)
  ultimately show ?thesis using h1(1) h2(1-3) by blast
qed

end

interpretation ul: user_list dlist link_user unlink_user
proof unfold_locales
  fix h db as u
  assume "dlist h db as" "h u \<noteq> None" "u \<notin> set as"
  then show "\<exists>h' db'. link_user h db u = Some (h', db') \<and> dlist h' db' (as @ [u]) \<and> same_data h h'
      \<and> keeps (insert u (set as)) h h'"
    using link_user_dlist by blast
next
  fix h db xs u ys
  assume "dlist h db (xs @ u # ys)"
  then show "\<exists>h' db'. unlink_user h db u = Some (h', db') \<and> dlist h' db' (xs @ ys) \<and> same_data h h'
      \<and> keeps (set xs \<union> set ys) h h'"
    using unlink_user_dlist by blast
next
  fix A h h' db as
  assume "keeps A h h'" "dlist h db as" "A \<inter> set as = {}"
  then show "dlist h' db as" by (rule keeps_dlist)
next
  fix h db as a
  assume "dlist h db as" "a \<in> set as"
  then show "h a \<noteq> None" unfolding dlist_def using dchain_nodes by blast
next
  fix h db as
  assume "dlist h db as"
  then show "distinct as" by (simp add: dlist_def)
qed

end
