(* ===== verification/CronDatabaseSpec.thy ===== *)
theory CronDatabaseSpec
  imports CronDatabaseList
begin

text \<open>
  The abstract database: two lists of addressed tables, the new and the old one. \<open>aprocess\<close> says what
  reading one crontab file does to them, \<open>aload_database\<close> what a reload does; the pointer program refines
  both (\<open>process_crontab_refines\<close>, \<open>load_database_refines\<close>).
\<close>

record adb =
  a_new :: cron_users
  a_old :: cron_users
  a_brk :: nat
  a_ctx :: ctx

definition view :: "uheap \<Rightarrow> nat list \<Rightarrow> cron_users" where
  "view h as = map (\<lambda>a. (a, data_at h a)) as"

definition aload ::
  "dbcfg \<Rightarrow> adb \<Rightarrow> passwd option \<Rightarrow> string \<Rightarrow> string \<Rightarrow> string \<Rightarrow> int \<Rightarrow> string \<Rightarrow> adb option" where
  "aload cfg t pw uname fname tab mt txt =
     (case load_user (lib_selinux cfg) (lib_getpwnam cfg) (a_ctx t) (Some (open_stream txt)) pw uname fname
             tab (stale cfg) of
        None \<Rightarrow> None
      | Some (None, c1) \<Rightarrow> Some (t\<lparr>a_ctx := c1\<rparr>)
      | Some (Some u, c1) \<Rightarrow>
          Some (t\<lparr>a_new := a_new t @ [(a_brk t, u\<lparr>mtime := mt\<rparr>)], a_brk := a_brk t + 1, a_ctx := c1\<rparr>))"

definition aprocess ::
  "dbcfg \<Rightarrow> fs \<Rightarrow> string \<Rightarrow> string option \<Rightarrow> string \<Rightarrow> adb \<Rightarrow> adb option" where
  "aprocess cfg f uname fname0 tab t =
     (let fname = (case fname0 of None \<Rightarrow> ''*system*'' | Some n \<Rightarrow> n);
          pw = (if fname0 = None then None else lib_getpwnam cfg uname);
          tabarg = (if fname0 = None \<and> tab \<noteq> SYSCRONTAB cfg then Some tab else None)
      in
      if fname0 \<noteq> None \<and> pw = None then
        Some (t\<lparr>a_ctx := log_msg uname ''ORPHAN'' ''no passwd entry'' (a_ctx t)\<rparr>)
      else case check_open cfg f (a_ctx t) tab uname pw of
        (None, c1) \<Rightarrow> Some (t\<lparr>a_ctx := c1\<rparr>)
      | (Some (mt, txt), c1) \<Rightarrow>
          (case List.find (\<lambda>(a, u). user_match fname tabarg u) (a_old t) of
             None \<Rightarrow> aload cfg (t\<lparr>a_ctx := c1\<rparr>) pw uname fname tab mt txt
           | Some (a, u) \<Rightarrow>
               (let old' = filter (\<lambda>(b, _). b \<noteq> a) (a_old t) in
                if mtime u = mt then Some (t\<lparr>a_ctx := c1, a_new := a_new t @ [(a, u)], a_old := old'\<rparr>)
                else aload cfg (t\<lparr>a_old := old', a_ctx := log_msg fname ''RELOAD'' tab c1\<rparr>)
                       pw uname fname tab mt txt)))"

definition db_rel :: "dbstate \<Rightarrow> adb \<Rightarrow> bool" where
  "db_rel s t \<longleftrightarrow>
     (\<exists>ns os. dlist (ds_heap s) (ds_new s) ns \<and> dlist (ds_heap s) (ds_old s) os \<and> set ns \<inter> set os = {}
        \<and> (\<forall>a \<in> set ns \<union> set os. a < ds_brk s)
        \<and> a_new t = view (ds_heap s) ns \<and> a_old t = view (ds_heap s) os
        \<and> a_brk t = ds_brk s \<and> a_ctx t = ds_ctx s)"

lemma view_same: "same_data h h' \<Longrightarrow> \<forall>a \<in> set as. h a \<noteq> None \<Longrightarrow> view h' as = view h as"
  unfolding view_def
proof (rule map_cong[OF refl])
  fix a assume h: "same_data h h'" "\<forall>a \<in> set as. h a \<noteq> None" "a \<in> set as"
  then obtain n where n: "h a = Some n" by blast
  then obtain n' where "h' a = Some n'" "u_data n' = u_data n"
    using h(1) by (metis map_option_eq_Some option.map(2) same_data_def)
  with n show "(a, data_at h' a) = (a, data_at h a)" by (simp add: data_at_def)
qed

lemma dlist_nodes: "dlist h db as \<Longrightarrow> \<forall>a \<in> set as. h a \<noteq> None"
  using ul.rep_node by blast

lemma length_bound: "distinct as \<Longrightarrow> \<forall>a \<in> set as. a < n \<Longrightarrow> length as \<le> (n :: nat)"
  by (rule chain_length_bound)

text \<open>The relation reads the heap, the lists and the allocator, and wants the same context on both sides.\<close>

lemma db_rel_cong:
  assumes "db_rel s t" and "ds_heap s' = ds_heap s" "ds_new s' = ds_new s" "ds_old s' = ds_old s" "ds_brk s' = ds_brk s"
    and "a_new t' = a_new t" "a_old t' = a_old t" "a_brk t' = a_brk t" "a_ctx t' = ds_ctx s'"
  shows "db_rel s' t'"
  using assms unfolding db_rel_def by metis

lemma db_rel_ctx: "db_rel s t \<Longrightarrow> db_rel (s\<lparr>ds_ctx := c\<rparr>) (t\<lparr>a_ctx := c\<rparr>)"
  by (rule db_rel_cong) simp_all

lemma db_rel_ctx_eq: "db_rel s t \<Longrightarrow> a_ctx t = ds_ctx s"
  by (auto simp: db_rel_def)

text \<open>A new node, at a new address, goes to the end of the new list.\<close>

lemma db_rel_link_new:
  fixes d :: user
  assumes "db_rel s t"
  defines "nd \<equiv> \<lparr>u_next = None, u_prev = None, u_data = d\<rparr>"
  shows "\<exists>h2 new'. link_user ((ds_heap s)(ds_brk s \<mapsto> nd)) (ds_new s) (ds_brk s) = Some (h2, new')
    \<and> db_rel (s\<lparr>ds_heap := h2, ds_brk := ds_brk s + 1, ds_new := new'\<rparr>)
        (t\<lparr>a_new := a_new t @ [(a_brk t, d)], a_brk := a_brk t + 1\<rparr>)"
proof -
  obtain ns os where r: "dlist (ds_heap s) (ds_new s) ns" "dlist (ds_heap s) (ds_old s) os"
      "set ns \<inter> set os = {}" "\<forall>a \<in> set ns \<union> set os. a < ds_brk s" "a_new t = view (ds_heap s) ns"
      "a_old t = view (ds_heap s) os" "a_brk t = ds_brk s" "a_ctx t = ds_ctx s"
    using assms(1) by (auto simp: db_rel_def)
  let ?a = "ds_brk s"
  define h1 where "h1 = (ds_heap s)(?a \<mapsto> nd)"
  have fresh: "?a \<notin> set ns" "?a \<notin> set os" using r(4) by auto
  have k: "keeps {?a} (ds_heap s) h1" by (simp add: keeps_def h1_def)
  have l1: "dlist h1 (ds_new s) ns" "dlist h1 (ds_old s) os"
    using keeps_dlist[OF k r(1)] keeps_dlist[OF k r(2)] fresh by auto
  obtain h2 new' where h2: "link_user h1 (ds_new s) ?a = Some (h2, new')" "dlist h2 new' (ns @ [?a])"
      "dlist h2 (ds_old s) os" "same_data h1 h2"
    using ul.link_beside[OF l1 r(3), of ?a] fresh by (auto simp: h1_def nd_def)
  have "view h2 (ns @ [?a]) = view h1 (ns @ [?a])" "view h2 os = view h1 os"
    using dlist_nodes[OF r(1)] dlist_nodes[OF r(2)] by (auto simp: h1_def intro!: view_same[OF h2(4)[unfolded h1_def]])
  moreover have "view h1 ns = a_new t" "view h1 os = a_old t" "view h1 (ns @ [?a]) = view h1 ns @ [(?a, d)]"
    using fresh r(5,6) by (auto simp: view_def data_at_def h1_def nd_def)
  ultimately have v: "view h2 (ns @ [?a]) = a_new t @ [(a_brk t, d)]" "view h2 os = a_old t" using r(7) by simp_all
  have "\<forall>a \<in> set (ns @ [?a]) \<union> set os. a < ?a + 1" "set (ns @ [?a]) \<inter> set os = {}"
    using r(3,4) fresh by (auto intro: less_SucI)
  then have "db_rel (s\<lparr>ds_heap := h2, ds_brk := ?a + 1, ds_new := new'\<rparr>)
      (t\<lparr>a_new := a_new t @ [(a_brk t, d)], a_brk := a_brk t + 1\<rparr>)"
    unfolding db_rel_def using v h2(2,3) r(7,8) by (intro exI[of _ "ns @ [?a]"] exI[of _ os]) simp
  with h2(1) show ?thesis by (auto simp: h1_def)
qed

lemma load_and_link_refines:
  assumes "db_rel s t"
  shows "rel_option db_rel (load_and_link cfg s pw uname fname tab mt txt) (aload cfg t pw uname fname tab mt txt)"
proof -
  let ?lu = "load_user (lib_selinux cfg) (lib_getpwnam cfg) (ds_ctx s) (Some (open_stream txt)) pw uname fname
      tab (stale cfg)"
  note c = db_rel_ctx_eq[OF assms]
  consider "?lu = None" | c1 where "?lu = Some (None, c1)" | u c1 where "?lu = Some (Some u, c1)"
    by (metis option.exhaust prod.exhaust)
  then show ?thesis
  proof cases
    case 3
    obtain h2 new' where l: "link_user ((ds_heap s)(ds_brk s \<mapsto> \<lparr>u_next = None, u_prev = None, u_data = u\<lparr>mtime := mt\<rparr>\<rparr>)) (ds_new s) (ds_brk s)
          = Some (h2, new')"
        "db_rel (s\<lparr>ds_heap := h2, ds_brk := ds_brk s + 1, ds_new := new'\<rparr>)
          (t\<lparr>a_new := a_new t @ [(a_brk t, u\<lparr>mtime := mt\<rparr>)], a_brk := a_brk t + 1\<rparr>)"
      using db_rel_link_new[OF assms] by blast
    show ?thesis
      using 3 l(1) c by (auto simp: load_and_link_def aload_def Let_def intro!: db_rel_cong[OF l(2)])
  qed (simp_all add: load_and_link_def aload_def c db_rel_ctx[OF assms])
qed

lemma find_view: "List.find (\<lambda>(a, u). p u) (view h as) = map_option (\<lambda>a. (a, data_at h a)) (List.find (\<lambda>a. p (data_at h a)) as)"
  by (induction as) (auto simp: view_def)

lemma filter_view:
  "distinct (xs @ u # ys) \<Longrightarrow> filter (\<lambda>(b, _). b \<noteq> u) (view h (xs @ u # ys)) = view h (xs @ ys)"
proof -
  assume d: "distinct (xs @ u # ys)"
  have "u \<notin> set as \<Longrightarrow> filter (\<lambda>(b, _). b \<noteq> u) (view h as) = view h as" for as
    by (induction as) (auto simp: view_def)
  moreover have "view h (xs @ u # ys) = view h xs @ (u, data_at h u) # view h ys" by (simp add: view_def)
  ultimately show ?thesis using d by (simp add: view_def)
qed

lemma find_in: "List.find P xs = Some x \<Longrightarrow> x \<in> set xs"
  by (auto simp: find_Some_iff)

lemma find_dlist:
  assumes "dlist h db as" and "\<forall>a \<in> set as. a < brk"
  shows "find_user brk h db name tab = Some (List.find (\<lambda>a. user_match name tab (data_at h a)) as)"
proof -
  have "length as \<le> brk" using assms ul.rep_distinct length_bound by blast
  then show ?thesis using assms(1) find_from_dchain unfolding find_user_def dlist_def by blast
qed

lemma db_rel_find:
  assumes "db_rel s t"
  shows "find_user (ds_brk s) (ds_heap s) (ds_old s) name tab =
    Some (map_option fst (List.find (\<lambda>(a, u). user_match name tab u) (a_old t)))"
  using assms find_dlist by (auto simp: db_rel_def find_view option.map_comp comp_def option.map_ident)

text \<open>An old table: where its node is in the list, and what is left of the lists without it.\<close>

lemma db_rel_old:
  assumes "db_rel s t" and "(u, d) \<in> set (a_old t)"
  obtains nd ns xs ys where "ds_heap s u = Some nd" "u_data nd = d"
    "dlist (ds_heap s) (ds_new s) ns" "dlist (ds_heap s) (ds_old s) (xs @ u # ys)" "set ns \<inter> set (xs @ u # ys) = {}"
    "\<forall>a \<in> set ns \<union> set (xs @ u # ys). a < ds_brk s" "a_new t = view (ds_heap s) ns"
    "filter (\<lambda>(b, _). b \<noteq> u) (a_old t) = view (ds_heap s) (xs @ ys)" "u \<notin> set (xs @ ys)" "a_brk t = ds_brk s" "a_ctx t = ds_ctx s"
    "\<forall>a \<in> set ns \<union> set (xs @ u # ys). ds_heap s a \<noteq> None"
proof -
  obtain ns os where r: "dlist (ds_heap s) (ds_new s) ns" "dlist (ds_heap s) (ds_old s) os"
      "set ns \<inter> set os = {}" "\<forall>a \<in> set ns \<union> set os. a < ds_brk s" "a_new t = view (ds_heap s) ns"
      "a_old t = view (ds_heap s) os" "a_brk t = ds_brk s" "a_ctx t = ds_ctx s"
    using assms(1) by (auto simp: db_rel_def)
  have u: "u \<in> set os" "d = data_at (ds_heap s) u" using assms(2) r(6) by (auto simp: view_def)
  obtain xs ys where os: "os = xs @ u # ys" using split_list[OF u(1)] by blast
  have dist: "distinct (xs @ u # ys)" using ul.rep_distinct[OF r(2)] os by simp
  obtain nd where nd: "ds_heap s u = Some nd" using dlist_nodes[OF r(2)] u(1) by auto
  show thesis
    by (rule that[OF nd _ r(1) r(2)[unfolded os] r(3)[unfolded os] r(4)[unfolded os] r(5) _ _ r(7,8)])
       (use u(2) nd dist filter_view[OF dist] r(6) os dlist_nodes[OF r(1)] dlist_nodes[OF r(2)] in \<open>auto simp: data_at_def\<close>)
qed

text \<open>The node of an unchanged table moves to the new list.\<close>

lemma db_rel_move:
  assumes "db_rel s t" and "(u, d) \<in> set (a_old t)"
  shows "\<exists>h1 old2 h2 new2. unlink_user (ds_heap s) (ds_old s) u = Some (h1, old2) \<and> link_user h1 (ds_new s) u = Some (h2, new2)
    \<and> db_rel (s\<lparr>ds_heap := h2, ds_new := new2, ds_old := old2\<rparr>)
        (t\<lparr>a_new := a_new t @ [(u, d)], a_old := filter (\<lambda>(b, _). b \<noteq> u) (a_old t)\<rparr>)"
proof -
  obtain nd ns xs ys where o: "ds_heap s u = Some nd" "u_data nd = d"
    "dlist (ds_heap s) (ds_new s) ns" "dlist (ds_heap s) (ds_old s) (xs @ u # ys)" "set ns \<inter> set (xs @ u # ys) = {}"
    "\<forall>a \<in> set ns \<union> set (xs @ u # ys). a < ds_brk s" "a_new t = view (ds_heap s) ns"
    "filter (\<lambda>(b, _). b \<noteq> u) (a_old t) = view (ds_heap s) (xs @ ys)" "u \<notin> set (xs @ ys)" "a_brk t = ds_brk s" "a_ctx t = ds_ctx s"
    "\<forall>a \<in> set ns \<union> set (xs @ u # ys). ds_heap s a \<noteq> None"
    by (rule db_rel_old[OF assms])
  obtain h1 old2 h2 new2 where m: "unlink_user (ds_heap s) (ds_old s) u = Some (h1, old2)"
      "link_user h1 (ds_new s) u = Some (h2, new2)" "dlist h2 new2 (ns @ [u])" "dlist h2 old2 (xs @ ys)" "same_data (ds_heap s) h2"
    using ul.move[OF o(3-5)] by blast
  have "view h2 (ns @ [u]) = a_new t @ [(u, d)]" "view h2 (xs @ ys) = view (ds_heap s) (xs @ ys)"
    using view_same[OF m(5), of "ns @ [u]"] view_same[OF m(5), of "xs @ ys"] o(1,2,7,12) by (auto simp: view_def data_at_def)
  moreover have "\<forall>a \<in> set (ns @ [u]) \<union> set (xs @ ys). a < ds_brk s" "set (ns @ [u]) \<inter> set (xs @ ys) = {}"
    using o(5,6,9) by auto
  ultimately have "db_rel (s\<lparr>ds_heap := h2, ds_new := new2, ds_old := old2\<rparr>)
      (t\<lparr>a_new := a_new t @ [(u, d)], a_old := filter (\<lambda>(b, _). b \<noteq> u) (a_old t)\<rparr>)"
    unfolding db_rel_def using m(3,4) o(8,10,11) by (intro exI[of _ "ns @ [u]"] exI[of _ "xs @ ys"]) simp
  with m(1,2) show ?thesis by blast
qed

text \<open>The node of a changed table is taken out and freed.\<close>

lemma db_rel_drop:
  assumes "db_rel s t" and "(u, d) \<in> set (a_old t)"
  shows "\<exists>h1 old2. unlink_user (ds_heap s) (ds_old s) u = Some (h1, old2)
    \<and> db_rel (s\<lparr>ds_heap := free_node u h1, ds_old := old2\<rparr>) (t\<lparr>a_old := filter (\<lambda>(b, _). b \<noteq> u) (a_old t)\<rparr>)"
proof -
  obtain nd ns xs ys where o: "ds_heap s u = Some nd" "u_data nd = d"
    "dlist (ds_heap s) (ds_new s) ns" "dlist (ds_heap s) (ds_old s) (xs @ u # ys)" "set ns \<inter> set (xs @ u # ys) = {}"
    "\<forall>a \<in> set ns \<union> set (xs @ u # ys). a < ds_brk s" "a_new t = view (ds_heap s) ns"
    "filter (\<lambda>(b, _). b \<noteq> u) (a_old t) = view (ds_heap s) (xs @ ys)" "u \<notin> set (xs @ ys)" "a_brk t = ds_brk s" "a_ctx t = ds_ctx s"
    "\<forall>a \<in> set ns \<union> set (xs @ u # ys). ds_heap s a \<noteq> None"
    by (rule db_rel_old[OF assms])
  obtain h1 old2 where m: "unlink_user (ds_heap s) (ds_old s) u = Some (h1, old2)"
      "dlist h1 (ds_new s) ns" "dlist h1 old2 (xs @ ys)" "same_data (ds_heap s) h1"
    using ul.unlink_beside[OF o(3-5)] by blast
  have k: "keeps {u} h1 (free_node u h1)" by (simp add: keeps_def free_node_def)
  have l: "dlist (free_node u h1) (ds_new s) ns" "dlist (free_node u h1) old2 (xs @ ys)"
    using keeps_dlist[OF k m(2)] keeps_dlist[OF k m(3)] o(5,9) by auto
  have "view (free_node u h1) ns = a_new t" "view (free_node u h1) (xs @ ys) = view (ds_heap s) (xs @ ys)"
    using view_same[OF m(4), of ns] view_same[OF m(4), of "xs @ ys"] o(5,7,9,12) by (auto simp: view_def data_at_def free_node_def)
  then have "db_rel (s\<lparr>ds_heap := free_node u h1, ds_old := old2\<rparr>) (t\<lparr>a_old := filter (\<lambda>(b, _). b \<noteq> u) (a_old t)\<rparr>)"
    unfolding db_rel_def using l o(5,6,8,10,11) by (intro exI[of _ ns] exI[of _ "xs @ ys"]) auto
  with m(1) show ?thesis by blast
qed

lemma process_crontab_refines:
  assumes "db_rel s t"
  shows "rel_option db_rel (process_crontab cfg f uname fname0 tab s) (aprocess cfg f uname fname0 tab t)"
proof -
  define fname where "fname = (case fname0 of None \<Rightarrow> ''*system*'' | Some n \<Rightarrow> n)"
  define pw where "pw = (if fname0 = None then None else lib_getpwnam cfg uname)"
  define tabarg where "tabarg = (if fname0 = None \<and> tab \<noteq> SYSCRONTAB cfg then Some tab else None)"
  note ds = process_crontab_def aprocess_def fname_def[symmetric] pw_def[symmetric] tabarg_def[symmetric] Let_def
    db_rel_ctx_eq[OF assms]
  have rel: "db_rel (s\<lparr>ds_ctx := c\<rparr>) (t\<lparr>a_ctx := c\<rparr>)" for c by (rule db_rel_ctx[OF assms])
  let ?find = "List.find (\<lambda>(a, u). user_match fname tabarg u) (a_old t)"
  have fu: "find_user (ds_brk s) (ds_heap s) (ds_old s) fname tabarg = Some (map_option fst ?find)" by (rule db_rel_find[OF assms])
  obtain co c1 where co: "check_open cfg f (ds_ctx s) tab uname pw = (co, c1)" by fastforce
  consider "fname0 \<noteq> None \<and> pw = None \<or> co = None"
    | mt x where "\<not> (fname0 \<noteq> None \<and> pw = None)" "co = Some (mt, x)" "?find = None"
    | mt x u d where "\<not> (fname0 \<noteq> None \<and> pw = None)" "co = Some (mt, x)" "?find = Some (u, d)"
    by (metis option.exhaust prod.exhaust)
  then show ?thesis
  proof cases
    case 1
    then show ?thesis using rel co by (auto simp: ds)
  next
    case 2
    then show ?thesis using load_and_link_refines[OF rel] co fu by (auto simp: ds)
  next
    case 3
    have u: "(u, d) \<in> set (a_old t)" using find_in[OF 3(3)] .
    obtain nd where nd: "ds_heap s u = Some nd" "u_data nd = d" by (rule db_rel_old[OF assms u])
    show ?thesis
    proof (cases "mtime d = mt")
      case True
      obtain h1 old2 h2 new2 where m: "unlink_user (ds_heap s) (ds_old s) u = Some (h1, old2)" "link_user h1 (ds_new s) u = Some (h2, new2)"
          "db_rel (s\<lparr>ds_heap := h2, ds_new := new2, ds_old := old2\<rparr>)
            (t\<lparr>a_new := a_new t @ [(u, d)], a_old := filter (\<lambda>(b, _). b \<noteq> u) (a_old t)\<rparr>)"
        using db_rel_move[OF assms u] by blast
      then show ?thesis using 3 co fu nd True by (auto simp: ds intro!: db_rel_cong[OF m(3)])
    next
      case False
      obtain h1 old2 where m: "unlink_user (ds_heap s) (ds_old s) u = Some (h1, old2)"
          "db_rel (s\<lparr>ds_heap := free_node u h1, ds_old := old2\<rparr>) (t\<lparr>a_old := filter (\<lambda>(b, _). b \<noteq> u) (a_old t)\<rparr>)"
        using db_rel_drop[OF assms u] by blast
      then show ?thesis
        using 3 co fu nd False by (auto simp: ds intro!: load_and_link_refines db_rel_cong[OF m(2)])
    qed
  qed
qed

section \<open>A reload\<close>

fun acrond_loop :: "dbcfg \<Rightarrow> fs \<Rightarrow> string list \<Rightarrow> adb \<Rightarrow> adb option" where
  "acrond_loop cfg f [] t = Some t"
| "acrond_loop cfg f (d # ds) t =
     (if not_a_crontab cfg d then acrond_loop cfg f ds t
      else case tab_path (SYS_CROND_DIR cfg) d of
        None \<Rightarrow> acrond_loop cfg f ds t
      | Some tab \<Rightarrow>
          (case aprocess cfg f ''root'' None tab t of None \<Rightarrow> None | Some t1 \<Rightarrow> acrond_loop cfg f ds t1))"

fun aspool_loop :: "dbcfg \<Rightarrow> fs \<Rightarrow> string list \<Rightarrow> adb \<Rightarrow> adb option" where
  "aspool_loop cfg f [] t = Some t"
| "aspool_loop cfg f (d # ds) t =
     (if not_a_crontab cfg d then aspool_loop cfg f ds t
      else case tab_path (SPOOL_DIR cfg) d of
        None \<Rightarrow> aspool_loop cfg f ds t
      | Some tab \<Rightarrow>
          (case aprocess cfg f d (Some d) tab t of None \<Rightarrow> None | Some t1 \<Rightarrow> aspool_loop cfg f ds t1))"

definition ascan_dir ::
  "fs \<Rightarrow> string \<Rightarrow> (string list \<Rightarrow> adb \<Rightarrow> adb option) \<Rightarrow> adb \<Rightarrow> adb option" where
  "ascan_dir f dir loop t =
     (case fs_dir f dir of
        None \<Rightarrow> Some (t\<lparr>a_ctx := log_msg ''CRON'' ''OPENDIR FAILED'' dir (a_ctx t)\<rparr>)
      | Some ds \<Rightarrow> loop ds t)"

text \<open>All files in order, the new tables replacing the old ones.\<close>

definition aload_all :: "dbcfg \<Rightarrow> fs \<Rightarrow> bool \<Rightarrow> bool \<Rightarrow> adb \<Rightarrow> adb option" where
  "aload_all cfg f sys local t =
     (case (if sys then aprocess cfg f ''root'' None (SYSCRONTAB cfg) t else Some t) of
        None \<Rightarrow> None
      | Some t2 \<Rightarrow>
          (case ascan_dir f (SYS_CROND_DIR cfg) (acrond_loop cfg f) t2 of
             None \<Rightarrow> None
           | Some t3 \<Rightarrow>
               map_option (\<lambda>t4. t4\<lparr>a_old := a_new t4\<rparr>)
                 (ascan_dir f (SPOOL_DIR cfg) (\<lambda>ds t. if local then aspool_loop cfg f ds t else Some t) t3)))"

lemma crond_loop_refines:
  "db_rel s t \<Longrightarrow> rel_option db_rel (crond_loop cfg f ds s) (acrond_loop cfg f ds t)"
proof (induction ds arbitrary: s t)
  case (Cons d ds)
  then show ?case
    using process_crontab_refines[OF Cons.prems, of cfg f "''root''" None]
    by (auto split: option.splits elim!: option.rel_cases) (metis option.rel_inject(2) option.rel_distinct(1,2))+
qed simp

lemma spool_loop_refines:
  "db_rel s t \<Longrightarrow> rel_option db_rel (spool_loop cfg f ds s) (aspool_loop cfg f ds t)"
proof (induction ds arbitrary: s t)
  case (Cons d ds)
  then show ?case
    using process_crontab_refines[OF Cons.prems, of cfg f d "Some d"]
    by (auto split: option.splits elim!: option.rel_cases) (metis option.rel_inject(2) option.rel_distinct(1,2))+
qed simp

definition db_holds :: "dbstate \<Rightarrow> cron_users \<Rightarrow> bool" where
  "db_holds s us \<longleftrightarrow>
     (\<exists>as. dlist (ds_heap s) (ds_old s) as \<and> (\<forall>a \<in> set as. a < ds_brk s) \<and> us = view (ds_heap s) as)"

lemma db_rel_start:
  assumes "db_holds s us"
  shows "db_rel (s\<lparr>ds_ctx := c, ds_new := empty_db m\<rparr>) \<lparr>a_new = [], a_old = us, a_brk = ds_brk s, a_ctx = c\<rparr>"
proof -
  obtain as where "dlist (ds_heap s) (ds_old s) as" "\<forall>a \<in> set as. a < ds_brk s" "us = view (ds_heap s) as"
    using assms by (auto simp: db_holds_def)
  moreover have "dlist (ds_heap s) (empty_db m) []" by (simp add: dlist_def empty_db_def last_of_def)
  ultimately show ?thesis
    unfolding db_rel_def by (intro exI[of _ "[]"] exI[of _ as]) (simp add: view_def)
qed

lemma finish_load_holds:
  assumes "db_rel s t"
  shows "\<exists>s'. finish_load s = Some s' \<and> db_holds s' (a_new t) \<and> mtime_db (ds_old s') = mtime_db (ds_new s)
    \<and> ds_ctx s' = ds_ctx s \<and> (\<forall>(a, u) \<in> set (a_old t). ds_heap s' a = None)"
proof -
  obtain ns os where r: "dlist (ds_heap s) (ds_new s) ns" "dlist (ds_heap s) (ds_old s) os"
      "set ns \<inter> set os = {}" "\<forall>a \<in> set ns \<union> set os. a < ds_brk s" "a_new t = view (ds_heap s) ns"
      "a_old t = view (ds_heap s) os"
    using assms by (auto simp: db_rel_def)
  have "length os \<le> ds_brk s" using ul.rep_distinct[OF r(2)] r(4) length_bound by blast
  then obtain h' where h': "junk_loop (ds_brk s) (ds_heap s) (ds_old s) (first_of os None) = Some h'"
      "\<forall>a \<in> set os. h' a = None" "keeps (set os) (ds_heap s) h'"
    using junk_loop_dlist[OF r(2)] by blast
  have hd: "db_head (ds_old s) = first_of os None" using r(2) dchain_head by (auto simp: dlist_def)
  have "dlist h' (ds_new s) ns" using keeps_dlist[OF h'(3) r(1)] r(3) by blast
  moreover have "view h' ns = view (ds_heap s) ns"
    using h'(3) r(3) by (auto simp: view_def data_at_def keeps_def)
  ultimately have "db_holds (s\<lparr>ds_heap := h', ds_old := ds_new s\<rparr>) (a_new t)"
    unfolding db_holds_def using r(4,5) by (intro exI[of _ ns]) simp
  then show ?thesis
    using h' hd r(6) by (auto simp: finish_load_def overwrite_database_def view_def)
qed

lemma scan_dir_refines:
  assumes "db_rel s t" and "\<And>ds s t. db_rel s t \<Longrightarrow> rel_option db_rel (loop ds s) (aloop ds t)"
  shows "rel_option db_rel (scan_dir f dir loop s) (ascan_dir f dir aloop t)"
proof (cases "fs_dir f dir")
  case None
  have "db_rel (s\<lparr>ds_ctx := c\<rparr>) (t\<lparr>a_ctx := c\<rparr>)" "a_ctx t = ds_ctx s" for c
    using assms(1) by (auto simp: db_rel_def)
  with None show ?thesis by (simp add: scan_dir_def ascan_dir_def)
next
  case (Some ds)
  with assms show ?thesis by (simp add: scan_dir_def ascan_dir_def)
qed

text \<open>\<open>new_db\<close> keeps the modification time it was created with.\<close>

lemma link_user_mtime: "link_user h db u = Some (h', db') \<Longrightarrow> mtime_db db' = mtime_db db"
  by (auto simp: link_user_def Let_def split: option.splits if_splits)

lemma load_and_link_mtime:
  "load_and_link cfg s pw uname fname tab mt x = Some s' \<Longrightarrow> mtime_db (ds_new s') = mtime_db (ds_new s)"
  by (auto simp: load_and_link_def Let_def split: option.splits prod.splits dest!: link_user_mtime)

lemma process_crontab_mtime:
  "process_crontab cfg f uname fname tab s = Some s' \<Longrightarrow> mtime_db (ds_new s') = mtime_db (ds_new s)"
  by (auto simp: process_crontab_def Let_def split: option.splits prod.splits if_splits
      dest!: load_and_link_mtime link_user_mtime)

lemma crond_loop_mtime:
  "crond_loop cfg f ds s = Some s' \<Longrightarrow> mtime_db (ds_new s') = mtime_db (ds_new s)"
  by (induction cfg f ds s rule: crond_loop.induct)
     (auto split: option.splits if_splits dest: process_crontab_mtime)

lemma spool_loop_mtime:
  "spool_loop cfg f ds s = Some s' \<Longrightarrow> mtime_db (ds_new s') = mtime_db (ds_new s)"
  by (induction cfg f ds s rule: spool_loop.induct)
     (auto split: option.splits if_splits dest: process_crontab_mtime)

lemma rel_option_right:
  "rel_option R x None \<longleftrightarrow> x = None" "rel_option R x (Some y) \<longleftrightarrow> (\<exists>z. x = Some z \<and> R z y)"
  by (cases x; auto)+

text \<open>What \<open>load_database\<close> and \<open>check_inotify_database\<close> share: all files in order, then the old nodes are freed.\<close>

definition cload_all :: "dbcfg \<Rightarrow> fs \<Rightarrow> bool \<Rightarrow> bool \<Rightarrow> dbstate \<Rightarrow> dbstate option" where
  "cload_all cfg f sys local s =
     (case (if sys then process_crontab cfg f ''root'' None (SYSCRONTAB cfg) s else Some s) of
        None \<Rightarrow> None
      | Some s2 \<Rightarrow>
          (case scan_dir f (SYS_CROND_DIR cfg) (crond_loop cfg f) s2 of
             None \<Rightarrow> None
           | Some s3 \<Rightarrow>
               (case scan_dir f (SPOOL_DIR cfg) (\<lambda>ds s. if local then spool_loop cfg f ds s else Some s) s3 of
                  None \<Rightarrow> None
                | Some s4 \<Rightarrow> finish_load s4)))"

lemma load_database_all:
  assumes "db_stamp cfg f (ds_ctx s) = (stamp, c1, sy)"
  shows "load_database cfg f s =
    (if mtime_db (ds_old s) = stamp then Some (False, s\<lparr>ds_ctx := c1\<rparr>)
     else map_option (Pair True)
       (cload_all cfg f (sy \<noteq> 0) (cluster_host_is_local cfg f) (s\<lparr>ds_ctx := c1, ds_new := empty_db stamp\<rparr>)))"
  by (simp add: assms load_database_def cload_all_def Let_def split: option.splits)

lemma check_inotify_all:
  assumes "set_cron_watched add_watch (watchpaths cfg) ifd (ds_ctx s) d = (c1, d1)"
  shows "check_inotify_database cfg f add_watch ifd Events garbage d s =
    map_option (\<lambda>s'. (False, d1, s')) (cload_all cfg f True True (s\<lparr>ds_ctx := c1, ds_new := empty_db garbage\<rparr>))"
  by (simp add: assms check_inotify_database_def cload_all_def split: option.splits)

lemma scan_dir_mtime:
  assumes "scan_dir f dir loop s = Some s'"
    and "\<And>ds s s'. loop ds s = Some s' \<Longrightarrow> mtime_db (ds_new s') = mtime_db (ds_new s)"
  shows "mtime_db (ds_new s') = mtime_db (ds_new s)"
  using assms by (auto simp: scan_dir_def split: option.splits)

text \<open>The relation with the time stamp of the new database, and how it passes through a chain of steps.\<close>

definition db_relm :: "int \<Rightarrow> dbstate \<Rightarrow> adb \<Rightarrow> bool" where
  "db_relm m s t \<longleftrightarrow> db_rel s t \<and> mtime_db (ds_new s) = m"

lemma rel_option_chain:
  assumes "rel_option R a b" and "\<And>x y. R x y \<Longrightarrow> rel_option S (f x) (g y)"
  shows "rel_option S (case a of None \<Rightarrow> None | Some x \<Rightarrow> f x) (case b of None \<Rightarrow> None | Some y \<Rightarrow> g y)"
  using assms by (cases a; cases b) auto

lemma db_relm_step:
  assumes "rel_option db_rel a b" and "\<And>x. a = Some x \<Longrightarrow> mtime_db (ds_new x) = m"
  shows "rel_option (db_relm m) a b"
  using assms by (cases a; cases b) (auto simp: db_relm_def)

lemma cload_all_refines:
  assumes "db_rel s t"
  shows "rel_option (\<lambda>s' t'. db_holds s' (a_new t') \<and> mtime_db (ds_old s') = mtime_db (ds_new s))
    (cload_all cfg f sys local s) (aload_all cfg f sys local t)"
proof -
  let ?lp = "\<lambda>ds s. if local then spool_loop cfg f ds s else Some s"
  let ?alp = "\<lambda>ds t. if local then aspool_loop cfg f ds t else Some t"
  let ?m = "mtime_db (ds_new s)"
  have p: "rel_option (db_relm ?m) (if sys then process_crontab cfg f ''root'' None (SYSCRONTAB cfg) s else Some s)
      (if sys then aprocess cfg f ''root'' None (SYSCRONTAB cfg) t else Some t)"
    by (rule db_relm_step) (use assms process_crontab_refines[OF assms] process_crontab_mtime in \<open>auto split: if_splits\<close>)
  have c: "rel_option (db_relm ?m) (scan_dir f (SYS_CROND_DIR cfg) (crond_loop cfg f) s2)
      (ascan_dir f (SYS_CROND_DIR cfg) (acrond_loop cfg f) t2)" if "db_relm ?m s2 t2" for s2 t2
    by (rule db_relm_step[OF scan_dir_refines])
       (use that crond_loop_refines scan_dir_mtime[OF _ crond_loop_mtime] in \<open>auto simp: db_relm_def\<close>)
  have sp: "rel_option (db_relm ?m) (scan_dir f (SPOOL_DIR cfg) ?lp s3) (ascan_dir f (SPOOL_DIR cfg) ?alp t3)"
    if "db_relm ?m s3 t3" for s3 t3
  proof (rule db_relm_step[OF scan_dir_refines])
    show "db_rel s3 t3" using that by (simp add: db_relm_def)
    show "rel_option db_rel (?lp ds s) (?alp ds t)" if "db_rel s t" for ds s t using that spool_loop_refines by simp
    show "mtime_db (ds_new x) = ?m" if "scan_dir f (SPOOL_DIR cfg) ?lp s3 = Some x" for x
    proof -
      have "mtime_db (ds_new x) = mtime_db (ds_new s3)"
        by (rule scan_dir_mtime[OF that]) (auto split: if_splits dest: spool_loop_mtime)
      then show ?thesis using \<open>db_relm ?m s3 t3\<close> by (simp add: db_relm_def)
    qed
  qed
  have fin: "rel_option (\<lambda>s' t'. db_holds s' (a_new t') \<and> mtime_db (ds_old s') = ?m) (finish_load s4) (Some (t4\<lparr>a_old := a_new t4\<rparr>))"
    if "db_relm ?m s4 t4" for s4 t4
    using finish_load_holds[of s4 t4] that by (auto simp: db_relm_def rel_option_right)
  show ?thesis
    unfolding cload_all_def aload_all_def map_option_case
    by (rule rel_option_chain[OF p], rule rel_option_chain[OF c], assumption, rule rel_option_chain[OF sp], assumption, rule fin)
qed

lemma load_database_refines:
  assumes "db_holds s us" and "db_stamp cfg f (ds_ctx s) = (stamp, c1, sy)" and "mtime_db (ds_old s) \<noteq> stamp"
  shows "case aload_all cfg f (sy \<noteq> 0) (cluster_host_is_local cfg f)
             \<lparr>a_new = [], a_old = us, a_brk = ds_brk s, a_ctx = c1\<rparr> of
      None \<Rightarrow> load_database cfg f s = None
    | Some t \<Rightarrow> \<exists>s'. load_database cfg f s = Some (True, s') \<and> db_holds s' (a_new t)
        \<and> mtime_db (ds_old s') = stamp"
  using cload_all_refines[OF db_rel_start[OF assms(1), where c = c1 and m = stamp], of cfg f "sy \<noteq> 0"
      "cluster_host_is_local cfg f"]
    assms(3)
  by (auto simp: load_database_all[OF assms(2)] empty_db_def rel_option_right split: option.splits)

section \<open>What a reload leaves\<close>

text \<open>A table that is up to date: some crontab file was accepted, with the time the table carries.\<close>

definition up_to_date :: "dbcfg \<Rightarrow> fs \<Rightarrow> user \<Rightarrow> bool" where
  "up_to_date cfg f u \<longleftrightarrow>
     (\<exists>tab uname pw c x c'. check_open cfg f c tab uname pw = (Some (mtime u, x), c'))"

definition tables_ok :: "dbcfg \<Rightarrow> fs \<Rightarrow> adb \<Rightarrow> bool" where
  "tables_ok cfg f t \<longleftrightarrow>
     (\<forall>u \<in> snd ` set (a_new t). user_wf u \<and> up_to_date cfg f u) \<and> (\<forall>u \<in> snd ` set (a_old t). user_wf u)"

lemma user_wf_mtime [simp]: "user_wf (u\<lparr>mtime := m\<rparr>) = user_wf u"
  by (simp add: user_wf_def)

lemma aload_ok:
  assumes "aload cfg t pw uname fname tab mt x = Some t'" and "tables_ok cfg f t"
    and "check_open cfg f c tab uname pw = (Some (mt, x), c')"
  shows "tables_ok cfg f t'"
proof -
  have "up_to_date cfg f (u\<lparr>mtime := mt\<rparr>)" for u
    unfolding up_to_date_def using assms(3) by (intro exI) simp
  note fresh = this
  obtain uo c1 where lu: "load_user (lib_selinux cfg) (lib_getpwnam cfg) (a_ctx t) (Some (open_stream x)) pw uname
      fname tab (stale cfg) = Some (uo, c1)"
    using assms(1) by (auto simp: aload_def split: option.splits)
  show ?thesis
  proof (cases uo)
    case None
    then show ?thesis using assms(1,2) lu by (auto simp: aload_def tables_ok_def)
  next
    case (Some u)
    have "user_wf (u\<lparr>mtime := mt\<rparr>)" using load_user_wf[OF lu[unfolded Some]] by simp
    moreover have "t' = t\<lparr>a_new := a_new t @ [(a_brk t, u\<lparr>mtime := mt\<rparr>)], a_brk := a_brk t + 1, a_ctx := c1\<rparr>"
      using assms(1) lu Some by (simp add: aload_def)
    ultimately show ?thesis using fresh[of u] assms(2) by (simp add: tables_ok_def)
  qed
qed

text \<open>The three outcomes of one file: nothing but a message, a kept table, or a table read again.\<close>

lemma aprocess_cases:
  assumes "aprocess cfg f uname fname0 tab t = Some t'"
  obtains (skipped) c where "t' = t\<lparr>a_ctx := c\<rparr>"
  | (kept) a u c pw x where "check_open cfg f (a_ctx t) tab uname pw = (Some (mtime u, x), c)" "(a, u) \<in> set (a_old t)"
      "t' = t\<lparr>a_ctx := c, a_new := a_new t @ [(a, u)], a_old := filter (\<lambda>(b, _). b \<noteq> a) (a_old t)\<rparr>"
  | (loaded) old c c' pw fname mt x where "check_open cfg f (a_ctx t) tab uname pw = (Some (mt, x), c)"
      "set old \<subseteq> set (a_old t)" "aload cfg (t\<lparr>a_old := old, a_ctx := c'\<rparr>) pw uname fname tab mt x = Some t'"
proof -
  define fname where "fname = (case fname0 of None \<Rightarrow> ''*system*'' | Some n \<Rightarrow> n)"
  define pw where "pw = (if fname0 = None then None else lib_getpwnam cfg uname)"
  define tabarg where "tabarg = (if fname0 = None \<and> tab \<noteq> SYSCRONTAB cfg then Some tab else None)"
  note ds = aprocess_def fname_def[symmetric] pw_def[symmetric] tabarg_def[symmetric] Let_def
  obtain co c1 where co: "check_open cfg f (a_ctx t) tab uname pw = (co, c1)" by fastforce
  let ?find = "List.find (\<lambda>(a, u). user_match fname tabarg u) (a_old t)"
  consider "fname0 \<noteq> None \<and> pw = None \<or> co = None"
    | mt x where "\<not> (fname0 \<noteq> None \<and> pw = None)" "co = Some (mt, x)" "?find = None"
    | mt x u d where "\<not> (fname0 \<noteq> None \<and> pw = None)" "co = Some (mt, x)" "?find = Some (u, d)"
    by (metis option.exhaust prod.exhaust)
  then show thesis
  proof cases
    case 1
    then show thesis using assms co skipped by (auto simp: ds split: if_splits)
  next
    case 2
    then have "aload cfg (t\<lparr>a_old := a_old t, a_ctx := c1\<rparr>) pw uname fname tab mt x = Some t'"
      using assms co by (auto simp: ds split: if_splits)
    then show thesis using loaded co 2(2) by blast
  next
    case 3
    show thesis
    proof (cases "mtime d = mt")
      case True
      then show thesis using 3 assms co find_in[OF 3(3)] by (intro kept[of pw d x c1 u]) (auto simp: ds split: if_splits)
    next
      case False
      then have "aload cfg (t\<lparr>a_old := filter (\<lambda>(b, _). b \<noteq> u) (a_old t), a_ctx := log_msg fname ''RELOAD'' tab c1\<rparr>)
          pw uname fname tab mt x = Some t'"
        using 3 assms co by (auto simp: ds split: if_splits)
      then show thesis using co 3(2) by (intro loaded) auto
    qed
  qed
qed

lemma aprocess_ok:
  assumes "aprocess cfg f uname fname0 tab t = Some t'" and ok: "tables_ok cfg f t"
  shows "tables_ok cfg f t'"
  using assms(1)
proof (cases rule: aprocess_cases)
  case (skipped c)
  then show ?thesis using ok by (simp add: tables_ok_def)
next
  case (kept a u c pw x)
  have "up_to_date cfg f u" unfolding up_to_date_def using kept(1) by blast
  moreover have "user_wf u" using ok imageI[OF kept(2), of snd] unfolding tables_ok_def snd_conv by blast
  ultimately show ?thesis using ok kept(3) by (auto simp: tables_ok_def)
next
  case (loaded old c c' pw fname mt x)
  have "tables_ok cfg f (t\<lparr>a_old := old, a_ctx := c'\<rparr>)" using ok loaded(2) by (auto simp: tables_ok_def)
  then show ?thesis using aload_ok[OF loaded(3) _ loaded(1)] by blast
qed

lemma acrond_loop_ok: "acrond_loop cfg f ds t = Some t' \<Longrightarrow> tables_ok cfg f t \<Longrightarrow> tables_ok cfg f t'"
  by (induction cfg f ds t rule: acrond_loop.induct)
     (auto split: option.splits if_splits dest: aprocess_ok)

lemma aspool_loop_ok: "aspool_loop cfg f ds t = Some t' \<Longrightarrow> tables_ok cfg f t \<Longrightarrow> tables_ok cfg f t'"
  by (induction cfg f ds t rule: aspool_loop.induct)
     (auto split: option.splits if_splits dest: aprocess_ok)

lemma ascan_dir_ok:
  assumes "ascan_dir f dir lp t = Some t'" and "tables_ok cfg f t"
    and "\<And>ds t t'. lp ds t = Some t' \<Longrightarrow> tables_ok cfg f t \<Longrightarrow> tables_ok cfg f t'"
  shows "tables_ok cfg f t'"
proof (cases "fs_dir f dir")
  case None
  then have "t' = t\<lparr>a_ctx := log_msg ''CRON'' ''OPENDIR FAILED'' dir (a_ctx t)\<rparr>"
    using assms(1) by (simp add: ascan_dir_def)
  then show ?thesis using assms(2) by (simp add: tables_ok_def)
next
  case (Some ds)
  then have "lp ds t = Some t'" using assms(1) by (simp add: ascan_dir_def)
  then show ?thesis using assms(2,3) by blast
qed

lemma aload_all_ok:
  assumes "aload_all cfg f sys local t = Some t'" and "tables_ok cfg f t"
  shows "tables_ok cfg f t'"
proof -
  let ?lp = "\<lambda>ds t. if local then aspool_loop cfg f ds t else Some t"
  obtain t2 t3 t4 where t: "(if sys then aprocess cfg f ''root'' None (SYSCRONTAB cfg) t else Some t) = Some t2"
      "ascan_dir f (SYS_CROND_DIR cfg) (acrond_loop cfg f) t2 = Some t3"
      "ascan_dir f (SPOOL_DIR cfg) ?lp t3 = Some t4" "t' = t4\<lparr>a_old := a_new t4\<rparr>"
    using assms(1) by (auto simp: aload_all_def split: option.splits)
  have "tables_ok cfg f t2" using t(1) assms(2) aprocess_ok by (auto split: if_splits)
  then have "tables_ok cfg f t3" by (rule ascan_dir_ok[OF t(2)]) (rule acrond_loop_ok)
  then have "tables_ok cfg f t4"
    by (rule ascan_dir_ok[OF t(3)]) (auto split: if_splits dest: aspool_loop_ok)
  then show ?thesis using t(4) by (auto simp: tables_ok_def)
qed

lemma db_holds_distinct: "db_holds s us \<Longrightarrow> distinct (map fst us)"
  using ul.rep_distinct by (force simp: db_holds_def view_def comp_def)

lemma cload_all_ok:
  assumes "db_holds s us" and "\<forall>u \<in> snd ` set us. user_wf u"
    and "cload_all cfg f sys local (s\<lparr>ds_ctx := c1, ds_new := empty_db m\<rparr>) = Some s'"
  shows "\<exists>us'. db_holds s' us' \<and> distinct (map fst us') \<and> (\<forall>u \<in> snd ` set us'. user_wf u \<and> up_to_date cfg f u)"
proof -
  let ?t1 = "\<lparr>a_new = [], a_old = us, a_brk = ds_brk s, a_ctx = c1\<rparr>"
  obtain t where t: "aload_all cfg f sys local ?t1 = Some t" "db_holds s' (a_new t)"
    using cload_all_refines[OF db_rel_start[OF assms(1), where c = c1 and m = m], of cfg f sys local] assms(3)
    by (cases "aload_all cfg f sys local ?t1") auto
  have "tables_ok cfg f ?t1" using assms(2) by (simp add: tables_ok_def)
  then have "tables_ok cfg f t" using aload_all_ok[OF t(1)] by blast
  then show ?thesis using t(2) db_holds_distinct by (auto simp: tables_ok_def)
qed

lemma load_database_ok:
  assumes "db_holds s us" and "\<forall>u \<in> snd ` set us. user_wf u" and "load_database cfg f s = Some (True, s')"
  shows "\<exists>us'. db_holds s' us' \<and> distinct (map fst us') \<and> (\<forall>u \<in> snd ` set us'. user_wf u \<and> up_to_date cfg f u)"
proof -
  obtain stamp c1 sy where st: "db_stamp cfg f (ds_ctx s) = (stamp, c1, sy)" by (metis prod_cases3)
  then show ?thesis
    using assms(3) cload_all_ok[OF assms(1,2)] by (auto simp: load_database_all[OF st] split: if_splits)
qed

text \<open>The name \<open>*system*\<close> is shared by \<open>/etc/crontab\<close> and all tables of \<open>/etc/cron.d\<close>, and only for the latter \<open>find_user\<close> compares the
  path. So when \<open>/etc/crontab\<close> is to be read and the first table of that name in the old list, whatever file it came
  from, has the same modification time, that table is kept in its place and \<open>/etc/crontab\<close> is not read.\<close>

lemma system_table_confused:
  assumes "db_rel s t" and "List.find (\<lambda>(a, u). user_name u = ''*system*'') (a_old t) = Some (a, u)"
    and "check_open cfg f (ds_ctx s) (SYSCRONTAB cfg) ''root'' None = (Some (mtime u, txt), c1)"
  shows "\<exists>s'. process_crontab cfg f ''root'' None (SYSCRONTAB cfg) s = Some s'
    \<and> db_rel s' (t\<lparr>a_ctx := c1, a_new := a_new t @ [(a, u)], a_old := filter (\<lambda>(b, _). b \<noteq> a) (a_old t)\<rparr>)"
proof -
  have m: "(\<lambda>(a :: nat, u). user_match ''*system*'' None u) = (\<lambda>(a, u). user_name u = ''*system*'')"
    by (simp add: user_match_def fun_eq_iff)
  have "aprocess cfg f ''root'' None (SYSCRONTAB cfg) t =
      Some (t\<lparr>a_ctx := c1, a_new := a_new t @ [(a, u)], a_old := filter (\<lambda>(b, _). b \<noteq> a) (a_old t)\<rparr>)"
    using assms(2,3) db_rel_ctx_eq[OF assms(1)] by (simp add: aprocess_def m Let_def)
  then show ?thesis
    using process_crontab_refines[OF assms(1), of cfg f "''root''" None "SYSCRONTAB cfg"] by (simp add: rel_option_right)
qed

end
