(* ===== verification/DaemonProps.thy ===== *)
theory DaemonProps
  imports CronSchedProps CronDatabaseSpec CrontabProps
begin

text \<open>
  The properties of the daemon: the job queue (\<open>job.c\<close>), the scheduler (\<open>cron.c\<close>), the identity a job gets
  (\<open>security.c\<close>) and the database of tables (\<open>database.c\<close>).
\<close>

section \<open>The queue\<close>

lemma enq_snoc: "jq.enq js (xs @ [x]) = (if x \<in> set (jq.enq js xs) then jq.enq js xs else jq.enq js xs @ [x])"
  by (induction js xs rule: jq.enq.induct) simp_all

lemma enq_remdups: "jq.enq [] xs = rev (remdups (rev xs))"
  by (induction xs rule: rev_induct) (auto simp: enq_snoc jq.set_enq)

text \<open>Whatever jobs are added to an empty queue, in whatever order and how often, \<open>job_runqueue\<close> runs each of
  them exactly once, in the order of the first addition, and leaves the queue empty.\<close>

theorem queue_runs_each_once:
  "\<exists>q1 q2. jq.add_all xs jempty = Some q1 \<and> job_runqueue q1 = Some (rev (remdups (rev xs)), q2) \<and> holds_jobs q2 []"
proof -
  obtain q1 q2 where "jq.add_all xs jempty = Some q1" "job_runqueue q1 = Some (jq.enq [] xs, q2)" "holds_jobs q2 []"
    using jq.add_all_drain[OF jempty_holds] by metis
  then show ?thesis by (simp add: enq_remdups)
qed

section \<open>The scheduler\<close>

definition sample_tm :: tm where
  "sample_tm = \<lparr>tm_sec = 0, tm_min = 5, tm_hour = 4, tm_mday = 1, tm_mon = 0, tm_year = 100, tm_wday = 6, tm_yday = 0,
     tm_isdst = 0\<rparr>"

definition sample_world :: world where
  "sample_world = \<lparr>localtime = (\<lambda>_ _. sample_tm), gmtime = (\<lambda>_. sample_tm), pwnam = (\<lambda>_. Some sample_pw), orig_tz = None\<rparr>"

definition sample_entry :: entry where
  "sample_entry = \<lparr>pwd = sample_pw, envp = [], cmd = ''x'', tbits = replicate tbits_size 255, flags = 0\<rparr>"

definition sample_db :: cron_users where
  "sample_db = [(7, \<lparr>user_name = ''joe'', tabname = ''joe'', mtime = 0, crontab = [sample_entry], scontext = None\<rparr>)]"

lemma sample_due: "entry_due sample_world k True True sample_entry"
proof -
  have "entry_due sample_world 0 True True sample_entry" by code_simp
  then show ?thesis by (simp add: entry_due_def sample_world_def)
qed

lemma sample_due_jobs: "due_jobs (entry_due sample_world k True True) sample_db = [(7, 0)]"
  by (simp add: due_jobs_def sample_db_def sample_due)

lemma sched0_holds: "holds_jobs (queue (sched0\<lparr>clockTime := k\<rparr>)) []"
  by (simp add: sched0_def jempty_holds)

lemma sample_db_distinct: "distinct (map fst sample_db)"
  by (simp add: sample_db_def)

text \<open>A wake-up that is two to five minutes late does not make up for the missed minutes: the entries due at
  the current time are run once for every minute that passed, and no other entry is.\<close>

theorem late_wake_repeats:
  assumes "holds_jobs (queue s) []" and "distinct (map fst db)"
    and "1 < clockTime s - virtualTime s" and "clockTime s - virtualTime s \<le> 5"
  shows "\<exists>s'. wake w db ts s = Some s' \<and> virtualTime s' = clockTime s
    \<and> ran s' = ran s @ concat (replicate (nat (clockTime s - virtualTime s))
        (due_jobs (entry_due w (StartTime s) True True) db))"
proof -
  let ?s0 = "s\<lparr>timeRunning := clockTime s\<rparr>"
  let ?n = "nat (clockTime s - virtualTime s)"
  let ?D = "now_jobs w db s True True"
  have lt: "virtualTime ?s0 < timeRunning ?s0" using assms(3) by simp
  have inv0: "holds_jobs (queue ?s0) []" using assms(1) by simp
  obtain s2 where s2: "small_loop w db ?s0 = Some s2" "holds_jobs (queue s2) ?D" "virtualTime s2 = clockTime s"
      "ran s2 = ran s @ concat (replicate (?n - 1) ?D)"
    using small_loop_holds[OF inv0 assms(2) lt, of w] by auto
  obtain s' where s': "map_option snd (run_queue s2) = Some s'" "ran s' = ran s2 @ ?D" "virtualTime s' = virtualTime s2"
    using wake_finish[OF s2(2)] by blast
  have "wakeup_kind (clockTime s - virtualTime s) = small" using assms(3,4) by (simp add: wakeup_kind_cases)
  then have "wake w db ts s = Some s'" using assms(3) s2(1) s'(1) by (simp add: wake_def Let_def)
  moreover have "replicate ?n ?D = replicate (?n - 1) ?D @ [?D]"
    using assms(3) by (metis Suc_diff_1 replicate_append_same replicate_Suc zero_less_diff zero_less_nat_eq
        order.strict_trans zero_less_one)
  ultimately show ?thesis using s2(3,4) s'(2,3) by auto
qed

theorem late_wake_repeats_witness:
  "\<exists>s'. wake sample_world sample_db [] (sched0\<lparr>clockTime := 3\<rparr>) = Some s' \<and> ran s' = [(7, 0), (7, 0), (7, 0)]"
  using late_wake_repeats[OF sched0_holds[of 3] sample_db_distinct, of sample_world "[]"]
  by (auto simp: sched0_def sample_due_jobs numeral_3_eq_3)



lemma sleep_loop_returns:
  assumes "secs = goal - t1" and "\<bar>goal - t1\<bar> < 2 ^ 30" and "\<forall>x \<in> set ts. \<bar>goal - x\<bar> < 2 ^ 30"
    and "x \<in> set ts" and "goal \<le> x"
  shows "sleep_loop secs t1 ts \<noteq> None"
  using assms
proof (induction ts arbitrary: secs t1)
  case (Cons t2 ts)
  have "\<bar>t2 - t1\<bar> < 2 ^ 31" using Cons.prems(2,3) by auto
  then have "s32 (t2 - t1) = t2 - t1" by (simp add: s32_id)
  moreover have "s32 (goal - t2) = goal - t2" using Cons.prems(3) by (intro s32_id) auto
  ultimately have e: "s32 (secs - s32 (t2 - t1)) = goal - t2" using Cons.prems(1) by simp
  have "sleep_loop (goal - t2) t2 ts \<noteq> None"
  proof (cases "goal \<le> t2")
    case True
    then show ?thesis by (cases ts) auto
  next
    case False
    then have "x \<in> set ts" using Cons.prems(4,5) by auto
    then show ?thesis using Cons.IH[of "goal - t2" t2] Cons.prems(3,5) by auto
  qed
  then show ?case using e by auto
qed simp

text \<open>C15. \<open>cron_sleep\<close> returns as soon as a clock reading is past the target, whatever the readings before; and when it
  returns the clock is past the target minute, or at least 65 seconds before it (the clock was set
  back). The product that overflows a 32-bit \<open>int\<close> from 2038 on does not matter.\<close>

theorem cron_sleep_wakes:
  assumes "\<forall>x \<in> insert t1 (set ts). \<bar>target * 60 + 1 - x\<bar> < 2 ^ 29" and "x \<in> set ts" and "target * 60 + 1 \<le> x"
  shows "\<exists>t n. cron_sleep target t1 ts = Some (t, n) \<and> (target * 60 + 1 \<le> t \<or> t + 65 \<le> target * 60 + 1)"
proof -
  let ?g = "target * 60 + 1"
  have b: "\<bar>?g - t1\<bar> < 2 ^ 30" "\<forall>x \<in> set ts. \<bar>?g - x\<bar> < 2 ^ 30" "\<bar>target * 60 - t1\<bar> < 2 ^ 30"
    using assms(1) by (auto dest!: bspec)
  have "s32 (s32 (s32 (target * 60) - t1) + 1) = ?g - t1" using seconds_to_wait[OF b(3)] by simp
  then have c: "cron_sleep target t1 ts = sleep_loop (?g - t1) t1 ts" by (simp add: cron_sleep_def)
  then obtain t n where t: "cron_sleep target t1 ts = Some (t, n)"
    using sleep_loop_returns[OF refl b(1,2) assms(2,3)] by auto
  then show ?thesis using sleep_loop_ends[OF t[unfolded c] refl b(1,2)] by fastforce
qed

theorem cron_sleep_wakes_witness:
  "\<exists>t n. cron_sleep 40000000 2399999980 [2399999990, 2400000001] = Some (t, n)
     \<and> (2400000001 \<le> t \<or> t + 65 \<le> 2400000001)"
  using cron_sleep_wakes[of 2399999980 "[2399999990, 2400000001]" 40000000 2400000001] by simp

section \<open>Start-up and signals\<close>



text \<open>\<open>set_cron_unwatched\<close> does nothing when all watches are in place: it hands only invalid descriptors to
  \<open>inotify_rm_watch\<close>, so the watches of a daemon that got \<open>SIGHUP\<close> stay.\<close>

theorem unwatch_keeps_watches:
  assumes "\<forall>x \<in> set (wd d). 0 \<le> x"
  shows "set_cron_unwatched d = d \<and> wd (handle_signals (d\<lparr>got_sighup := True\<rparr>)) = wd d
    \<and> removed (handle_signals (d\<lparr>got_sighup := True\<rparr>)) = removed d"
proof -
  have "set_cron_unwatched d' = d'" if "wd d' = wd d" for d' :: daemon
  proof -
    have "filter (\<lambda>x. x < 0) (wd d') = []" "map (\<lambda>x. if x < 0 then -1 else x) (wd d') = wd d'"
      using assms that by (auto simp: filter_empty_conv intro!: map_idI)
    then show ?thesis by (simp add: set_cron_unwatched_def)
  qed
  then show ?thesis by (auto simp: handle_signals_def Let_def)
qed

definition sample_daemon :: daemon where
  "sample_daemon = \<lparr>got_sighup = False, got_sigchld = False, inotify_enabled = True, EnableClustering = False,
     db_mtime = 5, wd = [1, 2, 3], removed = [], log_open = True\<rparr>"

theorem unwatch_keeps_watches_witness:
  "wd (handle_signals (sample_daemon\<lparr>got_sighup := True\<rparr>)) = [1, 2, 3]
   \<and> removed (handle_signals (sample_daemon\<lparr>got_sighup := True\<rparr>)) = []"
  using unwatch_keeps_watches[of sample_daemon] by (simp add: sample_daemon_def)

section \<open>Security\<close>

text \<open>C10. A job only starts when PAM has authorized its user and opened a session, and with the group, the
  supplementary groups and the real user id of the owner of the entry; a job that runs every minute
  is not started late, in another minute than the one it was scheduled for.\<close>

theorem job_identity:
  assumes "cron_set_job_security_context se p sys ltime t0 t1 c e u cr = Some (r, c')" and "js_status r = 0"
  shows "cron_start_pam p (pwd e) = 0 \<and> js_session r \<and> c_gid (js_creds r) = pw_gid (pwd e)
    \<and> c_groups (js_creds r) = (pw_name (pwd e), pw_gid (pwd e)) \<and> c_ruid (js_creds r) = pw_uid (pwd e)
    \<and> (flags e AND MIN_STAR = MIN_STAR \<and> 0 < t0 \<longrightarrow> t1 div 60 = t0 div 60)"
  using job_security_ok[OF assms] by blast

definition sample_pam :: pam where
  "sample_pam = \<lparr>pam_start = (\<lambda>_. 0), pam_set_item = 0, pam_acct_mgmt = 0, pam_setcred = 0, pam_open_session = 0,
     pam_getenvlist = [], pam_strerror = (\<lambda>_. [])\<rparr>"

definition root_creds :: creds where
  "root_creds = \<lparr>c_ruid = 0, c_euid = 0, c_gid = 0, c_groups = (''root'', 0), c_cwd = ''/''\<rparr>"

theorem job_identity_witness:
  "\<exists>r c'. cron_set_job_security_context no_selinux sample_pam (\<lambda>_. True) (\<lambda>_. (0, 0)) 60 61 ctx0 sample_entry
      (snd (hd sample_db)) root_creds = Some (r, c') \<and> c_gid (js_creds r) = 100 \<and> c_ruid (js_creds r) = 1000"
proof -
  let ?r = "cron_set_job_security_context no_selinux sample_pam (\<lambda>_. True) (\<lambda>_. (0, 0)) 60 61 ctx0 sample_entry
      (snd (hd sample_db)) root_creds"
  have "map_option (js_status \<circ> fst) ?r = Some 0" by code_simp
  then obtain r c' where r: "?r = Some (r, c')" "js_status r = 0" by auto
  from r(1) job_identity[OF r] show ?thesis by (simp add: sample_entry_def sample_pw_def)
qed

text \<open>C16. When SELinux is enforcing, a crontab is only accepted with a context of its own that its file is an entry
  point for; the job range is only changed to a context the user's context contains.\<close>

theorem selinux_enforced:
  assumes "get_security_context se c name tab = ((0, r), c')" and "0 < is_selinux_enabled se"
    and "0 < security_getenforce se"
  shows "(\<exists>sc fc. r = Some sc \<and> fgetfilecon se tab = Some fc \<and> cron_authorize_context se sc fc)
    \<and> (\<forall>u con c1 c2 ex. scontext u = r \<and> cron_change_selinux_range se c1 u (Some con) = (0, c2, ex) \<longrightarrow>
         ex = Some con \<and> (r = Some con \<or> cron_authorize_range se (the r) con))"
proof -
  obtain sc fc where sc: "r = Some sc" "fgetfilecon se tab = Some fc" "cron_authorize_context se sc fc"
    using get_security_context_enforcing[OF assms] by blast
  have "ex = Some con \<and> (r = Some con \<or> cron_authorize_range se (the r) con)"
    if "scontext u = r" "cron_change_selinux_range se c1 u (Some con) = (0, c2, ex)" for u con c1 c2 ex
    using that sc(1) assms(2,3)
    by (auto simp: cron_change_selinux_range_def Let_def name_or_null_def split: if_splits)
  with sc show ?thesis by blast
qed

definition strict_selinux :: selinux where
  "strict_selinux = \<lparr>is_selinux_enabled = 1, security_getenforce = 1, getseuserbyname = (\<lambda>_. Some (''u'', ''s0'')),
     get_default_context_with_level = (\<lambda>_ _. Some ''ctx''), fgetfilecon = (\<lambda>_. Some ''file''), compute_av = (\<lambda>_ _ _. Some (-1)),
     context_new = (\<lambda>_. None), context_range_set = (\<lambda>_ _. None), context_str = (\<lambda>_. None),
     setexeccon = (\<lambda>_. True), setkeycreatecon = (\<lambda>_. True), getprevcon = None\<rparr>"

theorem selinux_enforced_witness:
  "get_security_context strict_selinux ctx0 (Some ''joe'') ''tab'' = ((0, Some ''ctx''), ctx0)
   \<and> cron_authorize_context strict_selinux ''ctx'' ''file''"
proof -
  have g: "get_security_context strict_selinux ctx0 (Some ''joe'') ''tab'' = ((0, Some ''ctx''), ctx0)" by code_simp
  show ?thesis using g selinux_enforced[OF g] by (simp add: strict_selinux_def)
qed

section \<open>The database\<close>

definition sample_cfg :: dbcfg where
  "sample_cfg = \<lparr>SPOOL_DIR = ''/s'', SYS_CROND_DIR = ''/d'', SYSCRONTAB = ''/c'', CRON_HOSTNAME = ''.h'', permit_any = False,
     clustering = False, gethostname = None, lib_selinux = no_selinux, lib_getpwnam = (\<lambda>_. Some sample_pw), stale = []\<rparr>"

definition sample_fs :: fs where
  "sample_fs = (let st = \<lparr>st_mtime = 5, st_reg = True, st_mode = 0x180, st_uid = 1000, st_nlink = 1\<rparr> in
     \<lparr>fs_stat = (\<lambda>p. if p = ''/s'' then Some st else None), fs_open = (\<lambda>p. if p = ''/s/joe'' then Some (Some st, []) else None),
      fs_dir = (\<lambda>p. if p = ''/s'' then Some [''.'', ''joe''] else None)\<rparr>)"

definition sample_state :: dbstate where
  "sample_state = \<lparr>ds_heap = (\<lambda>_. None), ds_brk = 0, ds_ctx = ctx0, ds_new = empty_db 0, ds_old = empty_db 0\<rparr>"

lemma sample_state_holds: "db_holds sample_state []"
  by (auto simp: db_holds_def sample_state_def empty_db_def dlist_def view_def last_of_def)

lemma sample_load:
  assumes "allocs c = []"
  shows "load_user no_selinux gp c (Some (open_stream [])) (Some sample_pw) ''joe'' ''joe'' ''/s/joe'' [] =
    Some (Some \<lparr>user_name = ''joe'', tabname = ''/s/joe'', mtime = 0, crontab = [], scontext = None\<rparr>, c)"
proof -
  have "rest (open_stream []) = render_crontab []" by (simp add: open_stream_def render_crontab_def)
  then have "load_loop gp c (Some sample_pw) ''/s/joe'' [] (open_stream []) [] [] = Some (Some [], c)"
    using load_loop_text[of "[]", OF _ assms sample_pw_fits, of "open_stream []" gp "''/s/joe''" "[]" "[]" "[]"] by auto
  then show ?thesis using assms by (simp add: load_user_def env_init_def get_security_context_def no_selinux_def alloc_def)
qed

lemma sample_paths:
  "tab_path ''/s'' ''joe'' = Some ''/s/joe''" "not_a_crontab sample_cfg ''joe'' = False" "not_a_crontab sample_cfg ''.'' = True"
  by (simp_all add: tab_path_def glue_strings_spec glued_def not_a_crontab_def has_suffix_def hd0_def sample_cfg_def macro_defs)

lemma sample_open:
  "check_open sample_cfg sample_fs c ''/s/joe'' ''joe'' (Some sample_pw) = (Some (5, []), c)"
  by (simp add: check_open_def sample_cfg_def sample_fs_def sample_pw_def Let_def)

lemma sample_cfg_fields:
  "SPOOL_DIR sample_cfg = ''/s''" "SYS_CROND_DIR sample_cfg = ''/d''" "SYSCRONTAB sample_cfg = ''/c''"
  "lib_getpwnam sample_cfg n = Some sample_pw" "lib_selinux sample_cfg = no_selinux" "stale sample_cfg = []"
  "clustering sample_cfg = False" "fs_dir sample_fs ''/d'' = None" "fs_dir sample_fs ''/s'' = Some [''.'', ''joe'']"
  "CRON_HOSTNAME sample_cfg = ''.h''" "fs_stat sample_fs ''/d'' = None" "fs_stat sample_fs ''/c'' = None"
  "map_option st_mtime (fs_stat sample_fs ''/s'') = Some 5" "fs_stat sample_fs ''/s/joe'' = None"
  by (simp_all add: sample_cfg_def sample_fs_def Let_def)

definition sample_table :: user where
  "sample_table = \<lparr>user_name = ''joe'', tabname = ''/s/joe'', mtime = 5, crontab = [], scontext = None\<rparr>"

lemma sample_stamp:
  "db_stamp sample_cfg sample_fs (ds_ctx sample_state) = (5, log_msg ''CRON'' ''STAT FAILED'' ''/d'' ctx0, 0)"
proof -
  obtain sp where "fs_stat sample_fs ''/s'' = Some sp" "st_mtime sp = 5" using sample_cfg_fields(13) by auto
  then show ?thesis
    by (simp add: db_stamp_def max_mtime_def sample_cfg_fields sample_paths sample_state_def)
qed

lemma sample_stamp_new: "mtime_db (ds_old sample_state) \<noteq> 5"
  by (simp add: sample_state_def empty_db_def)

lemma sample_aload:
  "map_option a_new (aload_all sample_cfg sample_fs (0 \<noteq> (0::int)) (cluster_host_is_local sample_cfg sample_fs)
      \<lparr>a_new = [], a_old = [], a_brk = ds_brk sample_state, a_ctx = log_msg ''CRON'' ''STAT FAILED'' ''/d'' ctx0\<rparr>) =
    Some [(0, sample_table)]"
  by (simp add: aload_all_def ascan_dir_def sample_cfg_fields cluster_host_is_local_def sample_paths aprocess_def
      aload_def sample_open sample_load log_msg_def ctx0_def sample_state_def sample_table_def)

text \<open>C5. Reloading the database: the pointer program (the two doubly linked lists, moving, freeing and relinking nodes
  in one heap) does exactly what the abstract reload does on lists of tables: it fails to return only
  if the abstract one does, and otherwise the new list of tables and its time stamp are the abstract
  ones.\<close>

theorem reload_refines:
  assumes "db_holds s us" and "db_stamp cfg f (ds_ctx s) = (stamp, c1, sy)" and "mtime_db (ds_old s) \<noteq> stamp"
  shows "case aload_all cfg f (sy \<noteq> 0) (cluster_host_is_local cfg f)
             \<lparr>a_new = [], a_old = us, a_brk = ds_brk s, a_ctx = c1\<rparr> of
      None \<Rightarrow> load_database cfg f s = None
    | Some t \<Rightarrow> \<exists>s'. load_database cfg f s = Some (True, s') \<and> db_holds s' (a_new t) \<and> mtime_db (ds_old s') = stamp"
  using assms by (rule load_database_refines)

theorem reload_refines_witness:
  "\<exists>s'. db_holds sample_state [] \<and> load_database sample_cfg sample_fs sample_state = Some (True, s')
     \<and> db_holds s' [(0, sample_table)] \<and> mtime_db (ds_old s') = 5"
  using reload_refines[OF sample_state_holds sample_stamp sample_stamp_new] sample_aload sample_state_holds by auto

text \<open>After a reload every table in memory is well formed and up to date: it carries the modification time of a
  crontab file that passed the checks of \<open>check_open\<close>, and no node is in the list twice.\<close>

theorem reload_up_to_date:
  assumes "db_holds s us" and "\<forall>u \<in> snd ` set us. user_wf u" and "load_database cfg f s = Some (True, s')"
  shows "\<exists>us'. db_holds s' us' \<and> distinct (map fst us') \<and> (\<forall>u \<in> snd ` set us'. user_wf u \<and> up_to_date cfg f u)"
  using assms by (rule load_database_ok)

theorem reload_up_to_date_witness:
  "\<exists>s' us'. load_database sample_cfg sample_fs sample_state = Some (True, s') \<and> db_holds s' us'
     \<and> (\<forall>u \<in> snd ` set us'. user_wf u \<and> up_to_date sample_cfg sample_fs u)"
proof -
  obtain s' where s': "load_database sample_cfg sample_fs sample_state = Some (True, s')"
    using load_database_refines[OF sample_state_holds sample_stamp sample_stamp_new] sample_aload by auto
  then show ?thesis using reload_up_to_date[OF sample_state_holds _ s'] by auto
qed

end
