(* ===== verification/CronMainProps.thy ===== *)
theory CronMainProps
  imports CronMain DaemonProps
begin

text \<open>
  The whole daemon: what \<open>start_up\<close> and every round of \<open>main\<close> keep, over all runs. A run is a sequence of start, rounds
  and signals, with the files, the clock and the signals different in every round.
\<close>

section \<open>Reloads keep the tables\<close>

definition tables_in :: "dbstate \<Rightarrow> cron_users \<Rightarrow> bool" where
  "tables_in s us \<longleftrightarrow> db_holds s us \<and> (\<forall>u \<in> snd ` set us. user_wf u)"

lemma db_holds_upd [simp]:
  "db_holds (s\<lparr>ds_ctx := c\<rparr>) us = db_holds s us" "db_holds (s\<lparr>ds_new := n\<rparr>) us = db_holds s us"
  "db_holds (s\<lparr>ds_old := (ds_old s)\<lparr>mtime_db := m\<rparr>\<rparr>) us = db_holds s us"
  by (simp_all add: db_holds_def dlist_def)

lemma tables_in_upd [simp]:
  "tables_in (s\<lparr>ds_ctx := c\<rparr>) us = tables_in s us"
  "tables_in (s\<lparr>ds_old := (ds_old s)\<lparr>mtime_db := m\<rparr>\<rparr>) us = tables_in s us"
  by (simp_all add: tables_in_def)

lemma walk_users_dchain:
  "dchain h prv p as \<Longrightarrow> length as \<le> k \<Longrightarrow> walk_users k h p = Some (view h as)"
proof (induction as arbitrary: k prv p)
  case (Cons a as)
  then obtain k' where "k = Suc k'" by (cases k) auto
  with Cons show ?case by (auto simp: view_def data_at_def)
qed (simp add: view_def)

lemma db_users_holds: "db_holds s us \<Longrightarrow> db_users s = Some us"
  using walk_users_dchain chain_length_bound ul.rep_distinct
  by (auto simp: db_holds_def db_users_def dlist_def)

text \<open>What the loop of \<open>main\<close> relies on: a function that brings the database up to date leaves a list of well-formed
  tables that can be walked.\<close>

locale table_reload =
  fixes bring :: "dbstate \<Rightarrow> ('a \<times> dbstate) option"
  assumes keeps: "tables_in s us \<Longrightarrow> bring s = Some (x, s') \<Longrightarrow> \<exists>us'. tables_in s' us'"
begin

lemma walk:
  assumes "tables_in s us" and "bring s = Some (x, s')"
  shows "\<exists>us'. tables_in s' us' \<and> db_users s' = Some us' \<and> distinct (map fst us')"
  using keeps[OF assms] db_users_holds db_holds_distinct by (auto simp: tables_in_def)

end

lemma load_database_tables:
  assumes "tables_in s us" and "load_database cfg f s = Some (x, s')"
  shows "\<exists>us'. tables_in s' us' \<and> (x \<longrightarrow> (\<forall>u \<in> snd ` set us'. up_to_date cfg f u)) \<and> (\<not> x \<longrightarrow> us' = us)"
proof (cases x)
  case True
  then show ?thesis using load_database_ok[of s us cfg f s'] assms by (auto simp: tables_in_def)
next
  case False
  obtain stamp c1 sy where st: "db_stamp cfg f (ds_ctx s) = (stamp, c1, sy)" by (metis prod_cases3)
  have "s' = s\<lparr>ds_ctx := c1\<rparr>" using assms(2) False by (auto simp: load_database_all[OF st] split: if_splits)
  with assms(1) False show ?thesis by auto
qed

lemma check_inotify_tables:
  assumes "tables_in s us" and "check_inotify_database cfg f aw ifd ev g d s = Some (x, d', s')"
  shows "\<exists>us'. tables_in s' us'"
proof (cases ev)
  case Events
  obtain c1 d1 where w: "set_cron_watched aw (watchpaths cfg) ifd (ds_ctx s) d = (c1, d1)" by fastforce
  show ?thesis
    using cload_all_ok[where s = s and us = us and cfg = cfg and f = f and sys = True and local = True and ?c1.0 = c1 and m = g
      and s' = s'] assms Events
    by (auto simp: check_inotify_all[OF w] tables_in_def)
qed (use assms in \<open>auto simp: check_inotify_database_def\<close>)

interpretation ld: table_reload "load_database cfg f" for cfg f
  by unfold_locales (use load_database_tables in blast)

interpretation ci: table_reload
  "\<lambda>s. map_option (\<lambda>(x, d', s'). ((x, d'), s')) (check_inotify_database cfg f aw ifd ev g d s)" for cfg f aw ifd ev g d
  by unfold_locales (auto dest: check_inotify_tables)

section \<open>The watches\<close>

lemma unwatched_flags [simp]:
  "EnableClustering (set_cron_unwatched d) = EnableClustering d" "inotify_enabled (set_cron_unwatched d) = inotify_enabled d"
  by (simp_all add: set_cron_unwatched_def)

lemma watch_loop_flags:
  "watch_loop aw i ps c d = (b, c', d') \<Longrightarrow> EnableClustering d' = EnableClustering d"
  by (induction aw i ps c d arbitrary: b c' d' rule: watch_loop.induct) (auto simp: Let_def split: if_splits)

lemma watched_flags:
  assumes "set_cron_watched aw ps fd c d = (c', d')"
  shows "EnableClustering d' = EnableClustering d" and "fd < 0 \<Longrightarrow> \<not> inotify_enabled d'"
  using assms watch_loop_flags[of aw 0 ps c d] by (auto simp: set_cron_watched_def split: if_splits prod.splits bool.splits)

lemma check_inotify_flags:
  assumes "check_inotify_database cfg f aw ifd ev g d s = Some (x, d', s')"
  shows "EnableClustering d' = EnableClustering d"
  using assms watched_flags(1)[of aw "watchpaths cfg" ifd "ds_ctx s" d]
  by (cases ev) (auto simp: check_inotify_database_def split: option.splits prod.splits)

section \<open>The invariant of a run\<close>

text \<open>With \<open>-i\<close> or \<open>-c\<close> the daemon never uses \<open>inotify\<close>.\<close>

definition watch_ok :: "cron_state \<Rightarrow> bool" where
  "watch_ok s \<longleftrightarrow> EnableClustering (m_daemon s) = Clustering (m_opts s)
     \<and> (DisableInotify (m_opts s) \<or> Clustering (m_opts s) \<longrightarrow> \<not> inotify_enabled (m_daemon s) \<and> m_ifd s < 0)"

definition holds_lock :: "cron_state \<Rightarrow> bool" where
  "holds_lock s \<longleftrightarrow> m_pidfile s \<and> pl_fd (m_lock s) \<and> pl_held (m_lock s) \<and> i_euid (m_ids s) = 0"

definition main_inv :: "cron_state \<Rightarrow> bool" where
  "main_inv s \<longleftrightarrow> sched_inv (m_sched s) \<and> (\<exists>us. tables_in (m_db s) us) \<and> watch_ok s \<and> holds_lock s"

lemma handle_signals_flags:
  "EnableClustering (handle_signals d) = EnableClustering d" "inotify_enabled (handle_signals d) \<Longrightarrow> inotify_enabled d"
  by (auto simp: handle_signals_def Let_def split: if_splits)

lemma signals_frame [simp]:
  "m_sched (signals sg s) = m_sched s" "m_opts (signals sg s) = m_opts s" "m_cfg (signals sg s) = m_cfg s"
  "m_lock (signals sg s) = m_lock s" "m_pidfile (signals sg s) = m_pidfile s" "m_ids (signals sg s) = m_ids s"
  "m_ifd (signals sg s) = m_ifd s" "tables_in (m_db (signals sg s)) us = tables_in (m_db s) us"
  "EnableClustering (m_daemon (signals sg s)) = EnableClustering (m_daemon s)"
  by (simp_all add: signals_def Let_def handle_signals_flags)

lemma signals_inotify: "inotify_enabled (m_daemon (signals sg s)) \<Longrightarrow> inotify_enabled (m_daemon s)"
  by (auto simp: signals_def Let_def dest: handle_signals_flags(2))

lemma signals_watch: "watch_ok s \<Longrightarrow> watch_ok (signals sg s)"
  by (auto simp: watch_ok_def dest: signals_inotify)

lemma fold_signals_frame [simp]:
  "m_sched (fold signals sgs s) = m_sched s" "m_opts (fold signals sgs s) = m_opts s"
  "m_cfg (fold signals sgs s) = m_cfg s" "m_lock (fold signals sgs s) = m_lock s"
  "m_pidfile (fold signals sgs s) = m_pidfile s" "m_ids (fold signals sgs s) = m_ids s"
  "tables_in (m_db (fold signals sgs s)) us = tables_in (m_db s) us"
  by (induction sgs arbitrary: s) simp_all

lemma fold_signals_watch: "watch_ok s \<Longrightarrow> watch_ok (fold signals sgs s)"
  by (induction sgs arbitrary: s) (simp_all add: signals_watch)

lemma wait_minute_keeps:
  assumes "wait_minute w ws s = Some s'" and "watch_ok s"
  shows "watch_ok s' \<and> tables_in (m_db s') = tables_in (m_db s) \<and> m_opts s' = m_opts s \<and> m_cfg s' = m_cfg s
    \<and> m_lock s' = m_lock s \<and> m_pidfile s' = m_pidfile s \<and> m_ids s' = m_ids s
    \<and> queue (m_sched s') = queue (m_sched s) \<and> ran (m_sched s') = ran (m_sched s)
    \<and> virtualTime (m_sched s') = virtualTime (m_sched s) \<and> timeRunning (m_sched s') = timeRunning (m_sched s)
    \<and> clockTime (m_sched s') \<noteq> timeRunning (m_sched s')"
  using assms
proof (induction w ws s rule: wait_minute.induct)
  case (2 w t1 ns now ws s)
  let ?off = "GMToff (m_sched s)"
  obtain t n where c: "cron_sleep (timeRunning (m_sched s) + 1) (t1 + ?off) (map (\<lambda>(_, t). t + ?off) ns) = Some (t, n)"
    using "2.prems"(1) by (cases "cron_sleep (timeRunning (m_sched s) + 1) (t1 + ?off) (map (\<lambda>(_, t). t + ?off) ns)") (auto simp: Let_def)
  define s1 where "s1 = fold signals (map fst (take n ns)) s"
  define s2 where "s2 = s1\<lparr>m_sched := set_time w False now (m_sched s1)\<rparr>"
  have w: "watch_ok s2" using fold_signals_watch[OF "2.prems"(2)] by (simp add: s2_def s1_def watch_ok_def)
  have f: "tables_in (m_db s2) = tables_in (m_db s)" "m_opts s2 = m_opts s" "m_cfg s2 = m_cfg s" "m_lock s2 = m_lock s"
    "m_pidfile s2 = m_pidfile s" "m_ids s2 = m_ids s" "queue (m_sched s2) = queue (m_sched s)"
    "ran (m_sched s2) = ran (m_sched s)" "virtualTime (m_sched s2) = virtualTime (m_sched s)"
    "timeRunning (m_sched s2) = timeRunning (m_sched s)"
    by (simp_all add: s2_def s1_def set_time_times fun_eq_iff)
  have step: "wait_minute w ((t1, ns, now) # ws) s =
      (if clockTime (m_sched s2) = timeRunning (m_sched s2) then wait_minute w ws s2 else Some s2)"
    by (simp add: c Let_def s2_def s1_def)
  show ?case
  proof (cases "clockTime (m_sched s2) = timeRunning (m_sched s2)")
    case True
    then have "wait_minute w ws s2 = Some s'" using "2.prems"(1) step by simp
    from "2.IH"[OF refl c refl s1_def s2_def True this w] f show ?thesis by simp
  next
    case False
    with "2.prems"(1) step w f show ?thesis by simp
  qed
qed simp

text \<open>A reload changes the database and the watches only.\<close>

lemma reload_keeps:
  assumes "reload r s = Some (Inr s')" and "tables_in (m_db s) us" and "watch_ok s"
  shows "watch_ok s' \<and> (\<exists>us'. tables_in (m_db s') us') \<and> m_opts s' = m_opts s \<and> m_cfg s' = m_cfg s
    \<and> m_lock s' = m_lock s \<and> m_pidfile s' = m_pidfile s \<and> m_ids s' = m_ids s \<and> m_sched s' = m_sched s"
proof (cases "inotify_enabled (m_daemon s)")
  case True
  obtain d db where c: "check_inotify_database (m_cfg s) (ri_fs r) (ri_watch r) (m_ifd s) (ri_event r) (ri_garbage r)
      (m_daemon s) (m_db s) = Some (False, d, db)" "s' = s\<lparr>m_daemon := d, m_db := db\<rparr>"
    using assms(1) True by (auto simp: reload_def Let_def split: option.splits if_splits)
  obtain us' where "tables_in db us'" using check_inotify_tables[OF assms(2) c(1)] by blast
  with c(2) True check_inotify_flags[OF c(1)] assms(3) show ?thesis by (auto simp: watch_ok_def)
next
  case False
  obtain x db where l: "load_database (m_cfg s) (ri_fs r) (m_db s) = Some (x, db)"
    using assms(1) False by (auto simp: reload_def split: option.splits)
  obtain us' where us': "tables_in db us'" using load_database_tables[OF assms(2) l] by blast
  obtain c d where w: "set_cron_watched (ri_watch r) (watchpaths (m_cfg s)) (m_ifd s) (ds_ctx db) (m_daemon s) = (c, d)"
    by fastforce
  show ?thesis
    using assms(1,3) False l w us' watched_flags[OF w] by (auto simp: reload_def Let_def watch_ok_def split: if_splits)
qed

lemma main_round_parts:
  assumes "main_inv s" and "main_round w r s = Some (Inr s')"
  obtains s1 s2 us sc where "wait_minute w (ri_waits r) s = Some s1" "reload r s1 = Some (Inr s2)"
    "tables_in (m_db s2) us" "db_users (m_db s2) = Some us" "wake w us (ri_ts r) (m_sched s2) = Some sc"
    "s' = signals (ri_sigs r) (s2\<lparr>m_sched := sc\<rparr>)" "watch_ok s2" "holds_lock s2" "m_cfg s2 = m_cfg s"
    "holds_jobs (queue (m_sched s2)) []" "ran (m_sched s2) = ran (m_sched s)"
    "virtualTime (m_sched s2) = virtualTime (m_sched s)"
proof -
  obtain s1 where s1: "wait_minute w (ri_waits r) s = Some s1"
    using assms(2) by (auto simp: main_round_def split: option.splits)
  obtain s2 where s2: "reload r s1 = Some (Inr s2)"
    using assms(2) s1 by (auto simp: main_round_def split: option.splits sum.splits)
  obtain us0 where us0: "tables_in (m_db s) us0" using assms(1) by (auto simp: main_inv_def)
  have ws: "watch_ok s" using assms(1) by (simp add: main_inv_def)
  note k1 = wait_minute_keeps[OF s1 ws]
  have "tables_in (m_db s1) us0" using us0 k1 by simp
  note k2 = reload_keeps[OF s2 this conjunct1[OF k1]]
  obtain us where us: "tables_in (m_db s2) us" using k2 by blast
  then have d: "db_users (m_db s2) = Some us" using db_users_holds by (simp add: tables_in_def)
  obtain sc where sc: "wake w us (ri_ts r) (m_sched s2) = Some sc" "s' = signals (ri_sigs r) (s2\<lparr>m_sched := sc\<rparr>)"
    using assms(2) s1 s2 d by (auto simp: main_round_def)
  show thesis
    by (rule that[OF s1 s2 us d sc]) (use k1 k2 assms(1) in \<open>simp_all add: main_inv_def holds_lock_def sched_inv_def\<close>)
qed

lemma main_round_inv:
  assumes "main_inv s" and "main_round w r s = Some (Inr s')"
  shows "main_inv s' \<and> m_cfg s' = m_cfg s"
proof -
  obtain s1 s2 us sc where p: "tables_in (m_db s2) us" "wake w us (ri_ts r) (m_sched s2) = Some sc"
    "s' = signals (ri_sigs r) (s2\<lparr>m_sched := sc\<rparr>)" "watch_ok s2" "holds_lock s2" "m_cfg s2 = m_cfg s"
    "holds_jobs (queue (m_sched s2)) []"
    using main_round_parts[OF assms] by metis
  have "distinct (map fst us)" using p(1) db_holds_distinct by (auto simp: tables_in_def)
  from wake_inv[OF p(7) this, of w "ri_ts r"] p(2) have "sched_inv sc" by simp
  moreover have "watch_ok (s2\<lparr>m_sched := sc\<rparr>)" using p(4) by (simp add: watch_ok_def)
  ultimately show ?thesis using p by (auto simp: main_inv_def holds_lock_def signals_watch)
qed

text \<open>A round gets through as soon as the minute has passed and the files could be read.\<close>

lemma main_round_goes_on:
  assumes "main_inv s" and "wait_minute w (ri_waits r) s = Some s1" and "reload r s1 = Some (Inr s2)"
  shows "\<exists>s'. main_round w r s = Some (Inr s')"
proof -
  obtain us0 where us0: "tables_in (m_db s) us0" using assms(1) by (auto simp: main_inv_def)
  have ws: "watch_ok s" using assms(1) by (simp add: main_inv_def)
  note k1 = wait_minute_keeps[OF assms(2) ws]
  have "tables_in (m_db s1) us0" using us0 k1 by simp
  note k2 = reload_keeps[OF assms(3) this conjunct1[OF k1]]
  obtain us where us: "tables_in (m_db s2) us" using k2 by blast
  have h: "db_users (m_db s2) = Some us" "distinct (map fst us)" "holds_jobs (queue (m_sched s2)) []"
    using us db_users_holds db_holds_distinct k1 k2 assms(1) by (auto simp: tables_in_def main_inv_def sched_inv_def)
  with wake_inv[OF h(3,2), of w "ri_ts r"] assms(2,3) show ?thesis by (auto simp: main_round_def)
qed

lemma main_round_progress:
  assumes "main_inv s" and "wait_minute w (ri_waits r) s = Some s1" and "reload r s1 \<noteq> None"
  shows "main_round w r s \<noteq> None"
proof -
  obtain x where x: "reload r s1 = Some x" using assms(3) by blast
  show ?thesis
    using main_round_goes_on[OF assms(1,2)] x assms(2) by (cases x) (auto simp: main_round_def)
qed

lemma signals_inv: "main_inv s \<Longrightarrow> main_inv (signals sg s)"
  by (auto simp: main_inv_def holds_lock_def signals_watch)

section \<open>Start-up\<close>

text \<open>The state of a process that has just been started: \<open>old\<close> is what the pid file holds.\<close>

definition cron0 :: "dbcfg \<Rightarrow> ids \<Rightarrow> string \<Rightarrow> bool \<Rightarrow> ctx \<Rightarrow> cron_state" where
  "cron0 cfg ids old reboot c =
     \<lparr>m_opts = opts0, m_cfg = cfg, m_lock = \<lparr>pl_fd = False, pl_text = old, pl_held = False\<rparr>, m_pidfile = (old \<noteq> []),
      m_ids = ids, m_spool = None, m_charset = [],
      m_db = \<lparr>ds_heap = (\<lambda>_. None), ds_brk = 0, ds_ctx = c, ds_new = empty_db 0, ds_old = empty_db 0\<rparr>, m_ifd = -1,
      m_daemon = \<lparr>got_sighup = False, got_sigchld = False, inotify_enabled = False, EnableClustering = False, db_mtime = 0,
        wd = [0, 0, 0], removed = [], log_open = False\<rparr>,
      m_sched = sched0, m_reboot = reboot\<rparr>"

lemma main_log_frame [simp]:
  "m_sched (main_log e x s) = m_sched s" "m_opts (main_log e x s) = m_opts s" "m_cfg (main_log e x s) = m_cfg s"
  "m_lock (main_log e x s) = m_lock s" "m_pidfile (main_log e x s) = m_pidfile s" "m_ids (main_log e x s) = m_ids s"
  "m_ifd (main_log e x s) = m_ifd s" "m_daemon (main_log e x s) = m_daemon s"
  "tables_in (m_db (main_log e x s)) us = tables_in (m_db s) us" "m_reboot (main_log e x s) = m_reboot s"
  by (simp_all add: main_log_def)

lemma acquire_keeps_lock:
  assumes "acquire_daemonlock pidpath sy False c p = (Some p', c')"
  shows "pl_fd p'" and "pl_held p \<or> \<not> pl_fd p \<Longrightarrow> pl_held p'"
  using assms by (auto simp: acquire_daemonlock_def Let_def split: if_splits)

lemma grab_lock_ok:
  assumes "grab_lock pidpath sy s = Inr s'"
  obtains p c where "s' = s\<lparr>m_lock := p, m_pidfile := True, m_db := (m_db s)\<lparr>ds_ctx := c\<rparr>\<rparr>" "pl_fd p"
    "pl_held (m_lock s) \<or> \<not> pl_fd (m_lock s) \<longrightarrow> pl_held p"
    "acquire_daemonlock pidpath sy False (ds_ctx (m_db s)) (m_lock s) = (Some p, c)"
  using assms acquire_keeps_lock
  by (cases "acquire_daemonlock pidpath sy False (ds_ctx (m_db s)) (m_lock s)")
     (fastforce simp: grab_lock_def split: option.splits)

text \<open>After \<open>set_up\<close> the process has the lock and the identity of root.\<close>

lemma set_up_ok:
  assumes "set_up y s = Inr s1" and "\<not> pl_fd (m_lock s)"
  obtains o' where "m_opts s1 = o'" "holds_lock s1" "m_sched s1 = m_sched s" "m_ifd s1 = m_ifd s"
    "m_daemon s1 = (m_daemon s)\<lparr>EnableClustering := Clustering o'\<rparr>" "m_reboot s1 = m_reboot s"
proof -
  obtain o' where o: "parse_args (su_args y) opts0 = Some o'"
    using assms(1) by (auto simp: set_up_def split: option.splits)
  obtain s2 where g: "grab_lock (su_pidpath y) (su_lock1 y) (set_options o' s) = Inr s2"
    using assms(1) o by (auto simp: set_up_def split: sum.splits)
  have l: "m_lock (set_options o' s) = m_lock s" by (simp add: set_options_def)
  obtain p c where p: "s2 = (set_options o' s)\<lparr>m_lock := p, m_pidfile := True, m_db := (m_db (set_options o' s))\<lparr>ds_ctx := c\<rparr>\<rparr>"
      "pl_fd p" "pl_held p"
    using grab_lock_ok[OF g] assms(2) l by metis
  obtain ids1 where i: "set_cron_uid (su_seteuid y) (m_ids s2) = Some ids1"
    using assms(1) o g by (auto simp: set_up_def split: option.splits)
  then have "i_euid ids1 = 0" by (auto simp: set_cron_uid_def split: if_splits)
  moreover obtain dir where "s1 = s2\<lparr>m_ids := ids1, m_spool := Some dir, m_charset := mail_charset (su_codeset y)\<rparr>"
    using assms(1) o g i by (auto simp: set_up_def Let_def split: option.splits if_splits)
  ultimately show thesis using p by (intro that[of o']) (simp_all add: holds_lock_def set_options_def)
qed

lemma daemonize_ok:
  assumes "daemonize y s = Inr s'"
  shows "s' = s \<or> s' = main_log ''STARTUP'' (su_version y) s"
  using assms by (auto simp: daemonize_def split: if_splits)

lemma check_mailer_frame:
  "m_sched (check_mailer y s) = m_sched s" "m_lock (check_mailer y s) = m_lock s" "m_ids (check_mailer y s) = m_ids s"
  "m_daemon (check_mailer y s) = m_daemon s" "m_ifd (check_mailer y s) = m_ifd s"
  "Clustering (m_opts (check_mailer y s)) = Clustering (m_opts s)"
  by (simp_all add: check_mailer_def)

lemma start_watching_ok:
  assumes "EnableClustering (m_daemon s) = Clustering (m_opts s)" and "\<not> inotify_enabled (m_daemon s)"
  shows "watch_ok (start_watching y s) \<and> m_lock (start_watching y s) = m_lock s \<and> m_sched (start_watching y s) = m_sched s
    \<and> m_pidfile (start_watching y s) = m_pidfile s \<and> m_ids (start_watching y s) = m_ids s
    \<and> m_cfg (start_watching y s) = m_cfg s \<and> tables_in (m_db (start_watching y s)) = tables_in (m_db s)"
proof (cases "DisableInotify (m_opts s) \<or> Clustering (m_opts s)")
  case True
  with assms show ?thesis by (auto simp: start_watching_def watch_ok_def fun_eq_iff)
next
  case False
  let ?d = "(m_daemon s)\<lparr>wd := [-2, -2, -2]\<rparr>"
  define s2 where "s2 = (if su_inotify y < 0 then main_log ''INFO'' ''Inotify init failed'' (s\<lparr>m_daemon := ?d, m_ifd := su_inotify y\<rparr>)
    else s\<lparr>m_daemon := ?d, m_ifd := su_inotify y\<rparr>)"
  obtain c d where w: "set_cron_watched (su_watch y) (watchpaths (m_cfg s2)) (su_inotify y) (ds_ctx (m_db s2)) (m_daemon s2) = (c, d)"
    by fastforce
  have e: "start_watching y s = s2\<lparr>m_daemon := d, m_db := (m_db s2)\<lparr>ds_ctx := c\<rparr>\<rparr>"
    using False w by (simp add: start_watching_def Let_def s2_def[symmetric])
  have f: "m_opts s2 = m_opts s" "m_lock s2 = m_lock s" "m_sched s2 = m_sched s" "m_pidfile s2 = m_pidfile s"
    "m_ids s2 = m_ids s" "m_cfg s2 = m_cfg s" "tables_in (m_db s2) = tables_in (m_db s)" "m_daemon s2 = ?d"
    by (auto simp: s2_def fun_eq_iff)
  show ?thesis using watched_flags(1)[OF w] False assms(1) f unfolding e by (auto simp: watch_ok_def fun_eq_iff)
qed

lemma first_load_ok:
  assumes "first_load y s = Some s'"
  obtains us db where "s' = s\<lparr>m_db := db\<rparr>" "tables_in db us"
proof -
  have t: "tables_in ((m_db s)\<lparr>ds_old := empty_db 0\<rparr>) []"
    by (auto simp: tables_in_def db_holds_def dlist_def empty_db_def last_of_def view_def)
  obtain x db where l: "load_database (m_cfg s) (su_fs y) ((m_db s)\<lparr>ds_old := empty_db 0\<rparr>) = Some (x, db)"
      "s' = s\<lparr>m_db := db\<rparr>"
    using assms by (auto simp: first_load_def)
  show thesis using load_database_tables[OF t l(1)] l(2) that by blast
qed

lemma first_jobs_ok:
  assumes "first_jobs w y s = Some s'" and "tables_in (m_db s) us" and "holds_jobs (queue (m_sched s)) []"
  shows "sched_inv (m_sched s') \<and> tables_in (m_db s') us \<and> m_lock s' = m_lock s \<and> m_pidfile s' = m_pidfile s
    \<and> m_ids s' = m_ids s \<and> m_cfg s' = m_cfg s \<and> watch_ok s' = watch_ok s
    \<and> ran (m_sched s') = ran (m_sched s) @ (if m_reboot s then [] else due_jobs (\<lambda>e. flags e AND WHEN_REBOOT \<noteq> 0) us)"
proof -
  let ?sc = "set_time w True (su_now y) (m_sched s)"
  have u: "db_users (m_db s) = Some us" "distinct (map fst us)" "holds_jobs (queue ?sc) []"
    using assms(2,3) db_users_holds db_holds_distinct by (auto simp: tables_in_def set_time_times)
  obtain l c sc where r: "run_reboot_jobs (m_reboot s) (su_creat y) us (ds_ctx (m_db s)) ?sc = Some (l, c, sc)"
      "holds_jobs (queue sc) []"
      "ran sc = ran ?sc @ (if m_reboot s then [] else due_jobs (\<lambda>e. flags e AND WHEN_REBOOT \<noteq> 0) us)"
    using run_reboot_holds[OF u(3,2)] by blast
  have "s' = s\<lparr>m_reboot := l, m_db := (m_db s)\<lparr>ds_ctx := c\<rparr>,
      m_sched := sc\<lparr>timeRunning := clockTime sc, virtualTime := clockTime sc\<rparr>\<rparr>"
    using assms(1) u(1) r(1) by (simp add: first_jobs_def)
  with r assms(2) show ?thesis by (simp add: sched_inv_def watch_ok_def set_time_times)
qed

lemma start_up_parts:
  assumes "start_up w y s = Some (Inr s')"
  obtains s1 s2 s3 s4 where "set_up y s = Inr s1" "daemonize y s1 = Inr s2"
    "grab_lock (su_pidpath y) (su_lock2 y) (check_mailer y s2) = Inr s3" "first_load y s3 = Some s4"
    "first_jobs w y (start_watching y s4) = Some s'"
proof -
  obtain s1 where s1: "set_up y s = Inr s1" using assms by (auto simp: start_up_def split: sum.splits)
  obtain s2 where s2: "daemonize y s1 = Inr s2" using assms s1 by (auto simp: start_up_def split: sum.splits)
  obtain s3 where s3: "grab_lock (su_pidpath y) (su_lock2 y) (check_mailer y s2) = Inr s3"
    using assms s1 s2 by (auto simp: start_up_def split: sum.splits)
  obtain s4 where s4: "first_load y s3 = Some s4" using assms s1 s2 s3 by (auto simp: start_up_def split: option.splits)
  show thesis by (rule that[OF s1 s2 s3 s4]) (use assms s1 s2 s3 s4 in \<open>auto simp: start_up_def\<close>)
qed

text \<open>The lock file as the second call of \<open>acquire_daemonlock\<close> leaves it.\<close>

lemma start_up_inv:
  assumes "start_up w y (cron0 cfg ids old reboot c) = Some (Inr s')"
  shows "main_inv s'" and "\<exists>p0 c0 c1. pl_fd p0 \<and> acquire_daemonlock (su_pidpath y) (su_lock2 y) False c0 p0 = (Some (m_lock s'), c1)"
proof -
  let ?s0 = "cron0 cfg ids old reboot c"
  obtain s1 s2 s3 s4 where p: "set_up y ?s0 = Inr s1" "daemonize y s1 = Inr s2"
    "grab_lock (su_pidpath y) (su_lock2 y) (check_mailer y s2) = Inr s3" "first_load y s3 = Some s4"
    "first_jobs w y (start_watching y s4) = Some s'"
    by (rule start_up_parts[OF assms])
  have "\<not> pl_fd (m_lock ?s0)" by (simp add: cron0_def)
  from set_up_ok[OF p(1) this] have u: "holds_lock s1" "m_sched s1 = sched0" "m_daemon s1 = (m_daemon ?s0)\<lparr>EnableClustering := Clustering (m_opts s1)\<rparr>"
    by (metis cron0_def cron_state.select_convs(11))+
  have d: "holds_lock s2" "m_sched s2 = sched0" "m_daemon s2 = m_daemon s1" "m_opts s2 = m_opts s1"
    using daemonize_ok[OF p(2)] u(1,2) by (auto simp: holds_lock_def)
  obtain pl c1 where g: "s3 = (check_mailer y s2)\<lparr>m_lock := pl, m_pidfile := True, m_db := (m_db (check_mailer y s2))\<lparr>ds_ctx := c1\<rparr>\<rparr>"
      "pl_fd pl" "pl_held pl"
      "acquire_daemonlock (su_pidpath y) (su_lock2 y) False (ds_ctx (m_db (check_mailer y s2))) (m_lock (check_mailer y s2)) = (Some pl, c1)"
    using grab_lock_ok[OF p(3)] d(1) by (metis check_mailer_frame(2) holds_lock_def)
  have h3: "holds_lock s3" "m_sched s3 = sched0" "EnableClustering (m_daemon s3) = Clustering (m_opts s3)"
      "\<not> inotify_enabled (m_daemon s3)"
    using g d u by (simp_all add: holds_lock_def check_mailer_frame cron0_def)
  obtain us db where f: "s4 = s3\<lparr>m_db := db\<rparr>" "tables_in db us" by (rule first_load_ok[OF p(4)])
  define s5 where "s5 = start_watching y s4"
  have h5: "watch_ok s5" "m_lock s5 = pl" "m_sched s5 = sched0" "tables_in (m_db s5) us" "holds_lock s5"
    using start_watching_ok[of s4 y] h3 f g by (auto simp: s5_def holds_lock_def)
  have "holds_jobs (queue (m_sched s5)) []" using h5(3) by (simp add: sched0_def jempty_holds)
  from first_jobs_ok[OF p(5)[folded s5_def] h5(4) this] h5
  show "main_inv s'" and "\<exists>p0 c0 c1. pl_fd p0 \<and> acquire_daemonlock (su_pidpath y) (su_lock2 y) False c0 p0 = (Some (m_lock s'), c1)"
    using g(4) d(1) by (auto simp: main_inv_def holds_lock_def check_mailer_frame)
qed

section \<open>Every run of the daemon\<close>

inductive cron_run :: "world \<Rightarrow> cron_state \<Rightarrow> cron_result \<Rightarrow> bool" for w s0 where
  start: "start_up w y s0 = Some r \<Longrightarrow> cron_run w s0 r"
| round: "cron_run w s0 (Inr s) \<Longrightarrow> main_round w ri s = Some r \<Longrightarrow> cron_run w s0 r"
| stop: "cron_run w s0 (Inr s) \<Longrightarrow> cron_run w s0 (quit s)"

inductive_cases cron_run_cases: "cron_run w s0 r"

lemma cron_run_inv: "cron_run w (cron0 cfg ids old reboot c) (Inr s) \<Longrightarrow> main_inv s"
proof (induction "Inr s :: cron_result" arbitrary: s rule: cron_run.induct)
  case (start y)
  then show ?case by (rule start_up_inv(1))
next
  case (round s ri s')
  then show ?case using main_round_inv by blast
qed (simp add: quit_def)

section \<open>Reload after SIGHUP\<close>

lemma stamp_ctx: "fst (db_stamp cfg f c) = fst (db_stamp cfg f c')"
  by (simp add: db_stamp_def Let_def split: option.splits prod.splits)

text \<open>The next round will read all files.\<close>

definition must_reload :: "cron_state \<Rightarrow> bool" where
  "must_reload s \<longleftrightarrow> \<not> inotify_enabled (m_daemon s) \<and> mtime_db (ds_old (m_db s)) = 0"

lemma sighup_must_reload: "watch_ok s \<Longrightarrow> must_reload (signals (True, b) s)"
  by (auto simp: must_reload_def signals_def handle_signals_def watch_ok_def Let_def)

lemma signals_must_reload: "must_reload s \<Longrightarrow> must_reload (signals sg s)"
  by (auto simp: must_reload_def signals_def handle_signals_def Let_def)

lemma fold_signals_must_reload: "must_reload s \<Longrightarrow> must_reload (fold signals sgs s)"
  by (induction sgs arbitrary: s) (simp_all add: signals_must_reload)

lemma wait_minute_must_reload:
  "wait_minute w ws s = Some s' \<Longrightarrow> must_reload s \<Longrightarrow> must_reload s'"
proof (induction w ws s rule: wait_minute.induct)
  case (2 w t1 ns now ws s)
  let ?sleep = "cron_sleep (timeRunning (m_sched s) + 1) (t1 + GMToff (m_sched s)) (map (\<lambda>(_, t). t + GMToff (m_sched s)) ns)"
  obtain t n where c: "?sleep = Some (t, n)" using "2.prems"(1) by (cases ?sleep) (auto simp: Let_def)
  define s1 where "s1 = fold signals (map fst (take n ns)) s"
  define s2 where "s2 = s1\<lparr>m_sched := set_time w False now (m_sched s1)\<rparr>"
  have m: "must_reload s2" using fold_signals_must_reload[OF "2.prems"(2)] by (simp add: s2_def s1_def must_reload_def)
  have "wait_minute w ((t1, ns, now) # ws) s =
      (if clockTime (m_sched s2) = timeRunning (m_sched s2) then wait_minute w ws s2 else Some s2)"
    by (simp add: c Let_def s2_def s1_def)
  then show ?case
    using "2.IH"[OF refl c refl s1_def s2_def _ _ m] "2.prems"(1) m by (auto split: if_splits)
qed simp

lemma reload_reads_all:
  assumes "must_reload s" and "reload r s = Some (Inr s')" and "tables_in (m_db s) us"
    and "fst (db_stamp (m_cfg s) (ri_fs r) ctx0) \<noteq> 0"
  shows "\<exists>us'. tables_in (m_db s') us' \<and> (\<forall>u \<in> snd ` set us'. up_to_date (m_cfg s) (ri_fs r) u)"
proof -
  obtain x db where l: "load_database (m_cfg s) (ri_fs r) (m_db s) = Some (x, db)"
    using assms(1,2) by (auto simp: reload_def must_reload_def split: option.splits)
  obtain stamp c1 sy where st: "db_stamp (m_cfg s) (ri_fs r) (ds_ctx (m_db s)) = (stamp, c1, sy)" by (metis prod_cases3)
  have "stamp \<noteq> 0" using assms(4) stamp_ctx[of "m_cfg s" "ri_fs r" ctx0 "ds_ctx (m_db s)"] st by simp
  then have x: "x" using l assms(1) by (auto simp: load_database_all[OF st] must_reload_def)
  then obtain us' where us': "tables_in db us'" "\<forall>u \<in> snd ` set us'. up_to_date (m_cfg s) (ri_fs r) u"
    using load_database_tables[OF assms(3) l] by blast
  have "\<exists>c. m_db s' = db\<lparr>ds_ctx := c\<rparr>"
    using assms(1,2) l x by (auto simp: reload_def must_reload_def Let_def split: if_splits prod.splits intro: exI[of _ "ds_ctx db"])
  with us' show ?thesis by auto
qed

section \<open>A concrete run\<close>

definition sample_locksys :: locksys where
  "sample_locksys = \<lparr>ls_open = True, ls_lock = True, ls_write = True, ls_trunc = True, ls_pid = 42\<rparr>"

definition sample_start :: startup where
  "sample_start =
     \<lparr>su_args = [(CHR ''i'', []), (CHR ''n'', [])], su_pidpath = ''p'', su_lock1 = sample_locksys, su_lock2 = sample_locksys,
      su_seteuid = True, su_group = None, su_dir = Some \<lparr>sd_mode = 0x41C0, sd_gid = 0\<rparr>, su_made = None, su_chown = True,
      su_chmod = True, su_putenv = True, su_codeset = None, su_fork = 0, su_version = ''1'', su_sendmail = True,
      su_fs = sample_fs, su_inotify = -1, su_watch = (\<lambda>_. -1), su_now = 0, su_creat = True\<rparr>"

definition sample_cron :: cron_state where
  "sample_cron = cron0 sample_cfg \<lparr>i_ruid = 0, i_euid = 0, i_rgid = 0, i_egid = 0, save_euid = 0, save_egid = 0\<rparr> [] True ctx0"

definition sample_round :: round_in where
  "sample_round = \<lparr>ri_waits = [(61, [], 61)], ri_fs = sample_fs, ri_event = Quiet, ri_garbage = 0, ri_watch = (\<lambda>_. -1),
     ri_ts = [], ri_sigs = (False, False)\<rparr>"

lemma sample_set_up:
  "set_up sample_start sample_cron = Inr (sample_cron\<lparr>m_opts := opts0\<lparr>DisableInotify := True, NoFork := True\<rparr>,
     m_lock := \<lparr>pl_fd = True, pl_text = dec 42 @ [NL], pl_held = True\<rparr>, m_pidfile := True,
     m_spool := Some \<lparr>sd_mode = 0x41C0, sd_gid = 0\<rparr>, m_charset := ''US-ASCII''\<rparr>)"
  by (simp add: set_up_def sample_start_def opts0_def grab_lock_def acquire_daemonlock_def sample_locksys_def Let_def
      set_options_def sample_cron_def cron0_def set_cron_uid_def set_cron_cwd_def mail_charset_def sample_cfg_def)

lemma sample_first_load:
  obtains db where "load_database sample_cfg sample_fs sample_state = Some (True, db)" "db_holds db [(0, sample_table)]"
    "mtime_db (ds_old db) = 5"
  using load_database_refines[OF sample_state_holds sample_stamp sample_stamp_new] sample_aload by auto

lemma sample_gmtoff: "GMToff (set_time sample_world True now sc) = 0" "clockTime (set_time sample_world True now sc) = c_div now 60"
  "isdst (set_time sample_world True now sc) = 0"
  by (simp_all add: set_time_def sample_world_def sample_tm_def get_gmtoff_def Let_def)

lemma sample_started:
  obtains s where "start_up sample_world sample_start sample_cron = Some (Inr s)" "db_holds (m_db s) [(0, sample_table)]"
    "mtime_db (ds_old (m_db s)) = 5" "timeRunning (m_sched s) = 0" "virtualTime (m_sched s) = 0" "GMToff (m_sched s) = 0"
    "isdst (m_sched s) = 0" "m_cfg s = sample_cfg" "\<not> inotify_enabled (m_daemon s)" "m_ifd s = -1" "ran (m_sched s) = []"
proof -
  obtain db where db: "load_database sample_cfg sample_fs sample_state = Some (True, db)"
      "db_holds db [(0, sample_table)]" "mtime_db (ds_old db) = 5"
    by (rule sample_first_load)
  define s1 where "s1 = sample_cron\<lparr>m_opts := opts0\<lparr>DisableInotify := True, NoFork := True\<rparr>,
     m_lock := \<lparr>pl_fd = True, pl_text = dec 42 @ [NL], pl_held = True\<rparr>, m_pidfile := True,
     m_spool := Some \<lparr>sd_mode = 0x41C0, sd_gid = 0\<rparr>, m_charset := ''US-ASCII''\<rparr>"
  have m1: "m_db s1 = sample_state" by (simp add: s1_def sample_cron_def cron0_def sample_state_def)
  have d: "daemonize sample_start s1 = Inr s1" by (simp add: daemonize_def s1_def opts0_def)
  have g: "grab_lock (su_pidpath sample_start) (su_lock2 sample_start) (check_mailer sample_start s1) = Inr s1"
    by (simp add: check_mailer_def sample_start_def grab_lock_def acquire_daemonlock_def sample_locksys_def Let_def s1_def)
  have old: "sample_state\<lparr>ds_old := empty_db 0\<rparr> = sample_state" by (simp add: sample_state_def)
  have cf: "m_cfg s1 = sample_cfg" by (simp add: s1_def sample_cron_def cron0_def)
  have l: "first_load sample_start s1 = Some (s1\<lparr>m_db := db\<rparr>)"
    using db(1) by (simp add: first_load_def m1 old cf sample_start_def)
  define s5 where "s5 = start_watching sample_start (s1\<lparr>m_db := db\<rparr>)"
  have s5: "s5 = (main_log ''No inotify - daemon runs with -i or -c option'' [] (s1\<lparr>m_db := db\<rparr>))\<lparr>m_ifd := -1\<rparr>"
    by (simp add: s5_def start_watching_def s1_def)
  have m5: "db_holds (m_db s5) [(0, sample_table)]" "mtime_db (ds_old (m_db s5)) = 5" "m_sched s5 = sched0"
    using db(2,3) by (simp_all add: s5 main_log_def s1_def sample_cron_def cron0_def)
  let ?sc = "set_time sample_world True 0 sched0"
  have r: "m_reboot s5" by (simp add: s5 s1_def sample_cron_def cron0_def)
  define s6 where "s6 = s5\<lparr>m_reboot := True, m_db := (m_db s5)\<lparr>ds_ctx := log_msg ''CRON'' ''INFO''
      ''@reboot jobs will be run at computer's startup.'' (ds_ctx (m_db s5))\<rparr>,
      m_sched := ?sc\<lparr>timeRunning := clockTime ?sc, virtualTime := clockTime ?sc\<rparr>\<rparr>"
  have "first_jobs sample_world sample_start s5 = Some s6"
    using r by (simp add: first_jobs_def db_users_holds[OF m5(1)] run_reboot_jobs_def s6_def m5(3) sample_start_def Let_def)
  then have su: "start_up sample_world sample_start sample_cron = Some (Inr s6)"
    using sample_set_up d g l by (simp add: start_up_def s1_def[symmetric] s5_def[symmetric])
  have f5: "m_cfg s5 = sample_cfg" "\<not> inotify_enabled (m_daemon s5)" "m_ifd s5 = -1"
    by (simp_all add: s5 s1_def sample_cron_def cron0_def)
  show thesis
    by (rule that[OF su]) (use m5 f5 in \<open>simp_all add: s6_def sample_gmtoff set_time_times c_div_def sched0_def\<close>)
qed

lemma sample_runs:
  obtains s where "cron_run sample_world sample_cron (Inr s)" "db_holds (m_db s) [(0, sample_table)]"
    "mtime_db (ds_old (m_db s)) = 5" "timeRunning (m_sched s) = 0" "virtualTime (m_sched s) = 0" "GMToff (m_sched s) = 0"
    "isdst (m_sched s) = 0" "m_cfg s = sample_cfg" "\<not> inotify_enabled (m_daemon s)" "m_ifd s = -1" "ran (m_sched s) = []"
  using sample_started cron_run.start by metis

lemma sample_stamp_any: "\<exists>c' sy. db_stamp sample_cfg sample_fs c = (5, c', sy)"
  using stamp_ctx[of sample_cfg sample_fs c "ds_ctx sample_state"] sample_stamp by (cases "db_stamp sample_cfg sample_fs c") simp

lemma sample_wait:
  assumes "timeRunning (m_sched s) = 0" and "GMToff (m_sched s) = 0" and "isdst (m_sched s) = 0"
  shows "wait_minute sample_world (ri_waits sample_round) s = Some (s\<lparr>m_sched := set_time sample_world False 61 (m_sched s)\<rparr>)"
  using assms by (simp add: sample_round_def cron_sleep_def s32_def set_time_def sample_world_def sample_tm_def Let_def c_div_def)

text \<open>Both reloads of the sample files go through: nothing to do, or the table is found and kept.\<close>

lemma sample_reload:
  assumes "db_holds (m_db s) [(0, sample_table)]" and "m_cfg s = sample_cfg" and "\<not> inotify_enabled (m_daemon s)"
  shows "\<exists>s'. reload sample_round s = Some (Inr s')"
proof -
  obtain c' sy where st: "db_stamp sample_cfg sample_fs (ds_ctx (m_db s)) = (5, c', sy)" using sample_stamp_any by blast
  have "sy = 0" using st by (auto simp: db_stamp_def Let_def sample_cfg_fields split: prod.splits)
  then have "\<exists>t. aload_all sample_cfg sample_fs (sy \<noteq> 0) (cluster_host_is_local sample_cfg sample_fs)
      \<lparr>a_new = [], a_old = [(0, sample_table)], a_brk = ds_brk (m_db s), a_ctx = c'\<rparr> = Some t"
    by (simp add: aload_all_def ascan_dir_def sample_cfg_fields cluster_host_is_local_def sample_paths aprocess_def
        sample_open user_match_def sample_table_def Let_def)
  then have "load_database sample_cfg sample_fs (m_db s) \<noteq> None"
    using load_database_refines[OF assms(1) st] load_database_all[OF st] by fastforce
  then show ?thesis
    using assms(2,3) by (auto simp: reload_def sample_round_def Let_def split: prod.splits)
qed

section \<open>Properties\<close>









end
