(* ===== verification/CrontabCmd.thy ===== *)
theory CrontabCmd
  imports CronAccess CronUser
begin

text \<open>
  \<open>cronie-1.4.6/src/crontab.c\<close>: the command users edit their tables with. The globals of the program are the
  record \<open>cglob\<close>, the file system (owner and text of each file), the log and the standard output the
  record \<open>cstate\<close>; the results of system calls that can fail are fields of \<open>csys\<close>. Messages to the
  standard error are left out.
\<close>

section \<open>Globals and files\<close>

datatype opt_t = opt_unknown | opt_list | opt_delete | opt_edit | opt_replace | opt_hostset | opt_hostget

record cglob =
  User :: string
  RealUser :: string
  Filename :: string
  Host :: string
  Option :: opt_t
  PromptOnDelete :: bool
  HostSpecified :: bool
  c_pw :: passwd
  selinux_context :: "string option"

record cfile =
  f_owner :: int
  f_text :: string

record cstate =
  files :: "string \<Rightarrow> cfile option"
  TempFilename :: string
  poked :: nat
  out :: string
  cctx :: ctx

record csys =
  sy_spool :: string
  sy_hostfile :: string
  sy_hostname :: "string option"
  sy_mkstemp :: "string \<Rightarrow> string option"
  sy_fdopen :: bool
  sy_ftruncate :: bool
  sy_ferror :: bool
  sy_fchown :: bool
  sy_fclose :: bool
  sy_rename :: bool
  sy_unlink :: bool
  sy_utime :: bool
  sy_write :: bool
  sy_gid_same :: bool
  sy_uid_same :: bool
  sy_euid :: int
  sy_ruid :: int
  sy_readable :: "string \<Rightarrow> bool"
  sy_stale :: string

definition MAX_FNAME :: nat where [macro_defs]: "MAX_FNAME = 4096"
definition MAX_UNAME :: nat where [macro_defs]: "MAX_UNAME = 256"
definition MAX_HOSTNAME :: nat where [macro_defs]: "MAX_HOSTNAME = 64"

text \<open>\<open>fopen (n, "r")\<close>\<close>

definition fopen_r :: "csys \<Rightarrow> cstate \<Rightarrow> string \<Rightarrow> string option" where
  "fopen_r sy s n = (if sy_readable sy n then map_option f_text (files s n) else None)"

definition remove_file :: "string \<Rightarrow> cstate \<Rightarrow> cstate" where
  "remove_file n s = s\<lparr>files := (files s)(n := None)\<rparr>"

definition clog :: "string \<Rightarrow> string \<Rightarrow> string \<Rightarrow> cstate \<Rightarrow> cstate" where
  "clog u ev d s = s\<lparr>cctx := log_msg u ev d (cctx s)\<rparr>"

definition poke_daemon :: "csys \<Rightarrow> cstate \<Rightarrow> cstate" where
  "poke_daemon sy s = (if sy_utime sy then s\<lparr>poked := poked s + 1\<rparr> else s)"

definition spool_path :: "csys \<Rightarrow> string \<Rightarrow> string option" where
  "spool_path sy n = glue_strings MAX_FNAME (sy_spool sy) n CHR ''/''"

section \<open>Arguments\<close>

text \<open>
  The options as \<open>getopt\<close> delivers them. \<open>uid\<close> is the real user id (\<open>MY_UID\<close>), \<open>prevcon\<close> the result of
  \<open>getprevcon\<close>. A message on the left means that the program exits.
\<close>

definition one_op :: "opt_t \<Rightarrow> cglob \<Rightarrow> string + cglob" where
  "one_op o' g = (if Option g \<noteq> opt_unknown then Inl ''only one operation permitted'' else Inr (g\<lparr>Option := o'\<rparr>))"

definition crontab_opt ::
  "int \<Rightarrow> selinux \<Rightarrow> (string \<Rightarrow> passwd option) \<Rightarrow> char \<times> string \<Rightarrow> cglob \<Rightarrow> string + cglob" where
  "crontab_opt uid se getpwnam = (\<lambda>(ch, optarg) g.
     if ch = CHR ''x'' then (case set_debug_flags optarg of None \<Rightarrow> Inl ''bad debug option'' | Some _ \<Rightarrow> Inr g)
     else if ch = CHR ''u'' then
       if uid \<noteq> 0 then Inl ''must be privileged to use -u''
       else if crontab_security_access se \<noteq> 0 then Inl ''Access denied by SELinux, must be privileged to use -u''
       else if Option g = opt_hostset \<or> Option g = opt_hostget then Inl ''cannot use -u with -n or -c''
       else (case getpwnam optarg of
               None \<Rightarrow> Inl ''user unknown''
             | Some p \<Rightarrow>
                 if length optarg \<ge> MAX_UNAME then Inl ''username too long''
                 else Inr (g\<lparr>c_pw := p, User := optarg\<rparr>))
     else if ch = CHR ''l'' then one_op opt_list g
     else if ch = CHR ''r'' then one_op opt_delete g
     else if ch = CHR ''e'' then one_op opt_edit g
     else if ch = CHR ''i'' then Inr (g\<lparr>PromptOnDelete := True\<rparr>)
     else if ch = CHR ''s'' then
       (case getprevcon se of
          None \<Rightarrow> Inl ''Cannot obtain SELinux process context''
        | Some con \<Rightarrow> Inr (g\<lparr>selinux_context := Some con\<rparr>))
     else if ch = CHR ''n'' then
       if uid \<noteq> 0 then Inl ''must be privileged to set host with -n''
       else if Option g \<noteq> opt_unknown then Inl ''only one operation permitted''
       else if User g \<noteq> RealUser g then Inl ''cannot use -u with -n or -c''
       else Inr (g\<lparr>Option := opt_hostset\<rparr>)
     else if ch = CHR ''c'' then
       if Option g \<noteq> opt_unknown then Inl ''only one operation permitted''
       else if User g \<noteq> RealUser g then Inl ''cannot use -u with -n or -c''
       else Inr (g\<lparr>Option := opt_hostget\<rparr>)
     else Inl ''unrecognized option'')"

fun crontab_opts ::
  "int \<Rightarrow> selinux \<Rightarrow> (string \<Rightarrow> passwd option) \<Rightarrow> (char \<times> string) list \<Rightarrow> cglob \<Rightarrow> string + cglob" where
  "crontab_opts uid se getpwnam [] g = Inr g"
| "crontab_opts uid se getpwnam (a # as) g =
     (case crontab_opt uid se getpwnam a g of Inl m \<Rightarrow> Inl m | Inr g1 \<Rightarrow> crontab_opts uid se getpwnam as g1)"

text \<open>The operands behind the options.\<close>

definition crontab_operands :: "string list \<Rightarrow> cglob \<Rightarrow> string + cglob" where
  "crontab_operands args g =
     (case (if Option g = opt_hostset \<and> args \<noteq> [] then
              if length (hd args) \<ge> MAX_HOSTNAME then Inl ''hostname too long''
              else Inr (g\<lparr>HostSpecified := True, Host := hd args\<rparr>, tl args)
            else Inr (g, args)) of
        Inl m \<Rightarrow> Inl m
      | Inr (g1, as) \<Rightarrow>
          if Option g1 \<noteq> opt_unknown then
            if as \<noteq> [] then Inl ''no arguments permitted after this option'' else Inr g1
          else if as \<noteq> [] then
            if length (hd as) \<ge> MAX_FNAME then Inl ''filename too long''
            else Inr (g1\<lparr>Option := opt_replace, Filename := hd as\<rparr>)
          else Inl ''file name must be specified for replace'')"

text \<open>
  The whole of \<open>parse_args\<close>, with the text of the new table when one is opened: \<open>stdin\<close> for \<open>"-"\<close>, or the file
  as a process with the real ids (\<open>user_read\<close>) can open it. The flags say whether the ids can be swapped.
\<close>

definition crontab_parse_args ::
  "int \<Rightarrow> selinux \<Rightarrow> (string \<Rightarrow> passwd option) \<Rightarrow> passwd option \<Rightarrow> string \<Rightarrow> (string \<Rightarrow> string option) \<Rightarrow> bool \<Rightarrow> bool \<Rightarrow>
     (char \<times> string) list \<Rightarrow> string list \<Rightarrow> string + (cglob \<times> string)" where
  "crontab_parse_args uid se getpwnam getpwuid stdin user_read swap_ok back_ok opts args =
     (case getpwuid of
        None \<Rightarrow> Inl ''your UID isn't in the passwd file.''
      | Some p \<Rightarrow>
          if length (pw_name p) \<ge> MAX_UNAME then Inl ''username too long''
          else
            (case crontab_opts uid se getpwnam opts
                    \<lparr>User = pw_name p, RealUser = pw_name p, Filename = [], Host = [], Option = opt_unknown,
                     PromptOnDelete = False, HostSpecified = False, c_pw = p, selinux_context = None\<rparr> of
               Inl m \<Rightarrow> Inl m
             | Inr g \<Rightarrow>
                 (case crontab_operands args g of
                    Inl m \<Rightarrow> Inl m
                  | Inr g1 \<Rightarrow>
                      if Option g1 = opt_replace then
                        if Filename g1 = ''-'' then Inr (g1, stdin)
                        else if \<not> swap_ok then Inl ''swapping uids''
                        else (case user_read (Filename g1) of
                                None \<Rightarrow> Inl (Filename g1)
                              | Some txt \<Rightarrow> if \<not> back_ok then Inl ''swapping uids back'' else Inr (g1, txt))
                      else Inr (g1, []))))"

section \<open>Listing and deleting\<close>

text \<open>\<^const>\<open>None\<close> is \<open>exit (ERROR_EXIT)\<close>.\<close>

definition list_cmd :: "csys \<Rightarrow> cglob \<Rightarrow> cstate \<Rightarrow> cstate option" where
  "list_cmd sy g s =
     (let s1 = clog (RealUser g) ''LIST'' (User g) s in
      case spool_path sy (User g) of
        None \<Rightarrow> None
      | Some n \<Rightarrow>
          (case fopen_r sy s1 n of
             None \<Rightarrow> None
           | Some txt \<Rightarrow> Some (s1\<lparr>out := out s1 @ txt\<rparr>)))"

text \<open>\<open>answer\<close> is the line read from the standard input; the outer \<^const>\<open>None\<close> is \<open>exit (0)\<close> without a deletion.\<close>

definition delete_cmd :: "csys \<Rightarrow> cglob \<Rightarrow> string option \<Rightarrow> cstate \<Rightarrow> cstate option option" where
  "delete_cmd sy g answer s =
     (if PromptOnDelete g \<and> (case answer of None \<Rightarrow> True | Some a \<Rightarrow> hd0 a \<noteq> CHR ''Y'' \<and> hd0 a \<noteq> CHR ''y'') then None
      else
        let s1 = clog (RealUser g) ''DELETE'' (User g) s in
        Some (case spool_path sy (User g) of
                None \<Rightarrow> None
              | Some n \<Rightarrow>
                  if files s1 n = None \<or> \<not> sy_unlink sy then None
                  else Some (poke_daemon sy (remove_file n s1))))"

definition tmp_path :: "csys \<Rightarrow> string option \<Rightarrow> string" where
  "tmp_path sy tmpdir =
     (case (if sy_uid_same sy \<and> sy_gid_same sy then tmpdir else None) of None \<Rightarrow> ''/tmp'' | Some d \<Rightarrow> d)"

definition host_specific_filename :: "csys \<Rightarrow> string \<Rightarrow> bool \<Rightarrow> string option" where
  "host_specific_filename sy filename pre =
     (case sy_hostname sy of
        None \<Rightarrow> None
      | Some hostname \<Rightarrow>
          if pre then glue_strings MAX_FNAME hostname filename CHR ''.''
          else glue_strings MAX_FNAME filename hostname CHR ''.'')"

section \<open>Replacing\<close>

text \<open>
  The check of the syntax (the loop over \<open>load_env\<close> and \<open>load_entry\<close>): the number of errors, at most one. The
  settings are not applied, every entry is read with the empty environment.
\<close>

function check_loop :: "(string \<Rightarrow> passwd option) \<Rightarrow> ctx \<Rightarrow> passwd \<Rightarrow> env \<Rightarrow> string \<Rightarrow> istream \<Rightarrow> (nat \<times> ctx) option" where
  "check_loop getpwnam c pw envp0 envstr f =
     (case load_env envstr f of
        None \<Rightarrow> None
      | Some (st, envstr1, g) \<Rightarrow>
          if st = ENV_ERR then Some (if cstr envstr1 \<noteq> [] then 1 else 0, c)
          else if st = ENV_FALSE then
            (case load_entry getpwnam c g (Some pw) envp0 of
               (Inr e, c1, h) \<Rightarrow> check_loop getpwnam c1 pw envp0 envstr1 h
             | (Inl ec, c1, h) \<Rightarrow>
                 if ec \<noteq> e_none then Some (1, c1) else check_loop getpwnam c1 pw envp0 envstr1 h)
          else check_loop getpwnam c pw envp0 envstr1 g)"
  by pat_completeness auto
termination
  by (relation "measure (\<lambda>(getpwnam, c, pw, envp0, envstr, f). length (rest f))")
     (auto intro: load_loop_dec load_loop_dec_env)

declare check_loop.simps [simp del]

text \<open>Label \<open>done\<close>: what is left of the temporary file goes.\<close>

definition replace_done :: "int \<Rightarrow> cstate \<Rightarrow> int \<times> cstate" where
  "replace_done err s =
     (err, if TempFilename s \<noteq> [] then (remove_file (TempFilename s) s)\<lparr>TempFilename := []\<rparr> else s)"

definition temp_template :: "csys \<Rightarrow> string option" where
  "temp_template sy =
     (case host_specific_filename sy ''tmp.XXXXXXXXXX'' True of
        None \<Rightarrow> None
      | Some safename \<Rightarrow> spool_path sy safename)"

text \<open>From the check of the syntax on, with \<open>t\<close> the temporary file.\<close>

definition replace_install :: "csys \<Rightarrow> cglob \<Rightarrow> string \<Rightarrow> cstate \<Rightarrow> int \<times> cstate" where
  "replace_install sy g t s =
     (let file_owner = (if sy_gid_same sy then 0 else pw_uid (c_pw g)) in
      if \<not> sy_fchown sy then replace_done (-2) s
      else
        let s1 = s\<lparr>files := (files s)(t := map_option (\<lambda>x. x\<lparr>f_owner := file_owner\<rparr>) (files s t))\<rparr> in
        if \<not> sy_fclose sy then replace_done (-2) s1
        else case spool_path sy (User g) of
          None \<Rightarrow> replace_done (-2) s1
        | Some n \<Rightarrow>
            if \<not> sy_rename sy then replace_done (-2) s1
            else
              let s2 = s1\<lparr>files := (files s1)(t := None, n := files s1 t), TempFilename := []\<rparr> in
              replace_done 0 (poke_daemon sy (clog (RealUser g) ''REPLACE'' (User g) s2)))"

text \<open>What is copied to the temporary file: the line of option \<open>-s\<close>, and the text of \<open>NewCrontab\<close>.\<close>

definition new_text :: "cglob \<Rightarrow> string \<Rightarrow> string" where
  "new_text g new =
     (case selinux_context g of None \<Rightarrow> [] | Some con \<Rightarrow> ''SELINUX_ROLE_TYPE='' @ con @ [NL]) @ new"

text \<open>The temporary file \<open>t\<close> is written; \<^const>\<open>None\<close> is the over-read of \<open>load_env\<close>.\<close>

definition replace_checked ::
  "csys \<Rightarrow> (string \<Rightarrow> passwd option) \<Rightarrow> cglob \<Rightarrow> env \<Rightarrow> string \<Rightarrow> string \<Rightarrow> cstate \<Rightarrow> (int \<times> cstate) option" where
  "replace_checked sy getpwnam g envp0 t txt s =
     (if \<not> sy_ftruncate sy then Some (replace_done (-2) s)
      else if sy_ferror sy then Some (replace_done (-2) s)
      else case check_loop getpwnam (cctx s) (c_pw g) envp0 (sy_stale sy) (open_stream txt) of
        None \<Rightarrow> None
      | Some (errs, c2) \<Rightarrow>
          let s1 = s\<lparr>cctx := c2\<rparr> in
          Some (if errs \<noteq> 0 then replace_done (-1) s1 else replace_install sy g t s1))"

definition replace_cmd ::
  "csys \<Rightarrow> (string \<Rightarrow> passwd option) \<Rightarrow> cglob \<Rightarrow> string \<Rightarrow> cstate \<Rightarrow> (int \<times> cstate) option" where
  "replace_cmd sy getpwnam g new s =
     (case env_init (cctx s) of
        (None, c1) \<Rightarrow> Some (-2, s\<lparr>cctx := c1\<rparr>)
      | (Some envp0, c1) \<Rightarrow>
          (let s1 = s\<lparr>cctx := c1\<rparr> in
           case temp_template sy of
             None \<Rightarrow> Some (-2, s1\<lparr>TempFilename := []\<rparr>)
           | Some tmpl \<Rightarrow>
               (case sy_mkstemp sy tmpl of
                  None \<Rightarrow> Some (-2, s1\<lparr>TempFilename := []\<rparr>)
                | Some t \<Rightarrow>
                    if \<not> sy_fdopen sy then Some (-2, (remove_file t s1)\<lparr>TempFilename := []\<rparr>)
                    else replace_checked sy getpwnam g envp0 t (new_text g new)
                      (s1\<lparr>files := (files s1)(t \<mapsto> \<lparr>f_owner = sy_euid sy, f_text = new_text g new\<rparr>),
                          TempFilename := t\<rparr>))))"

section \<open>The host of a cluster\<close>

definition hostset_cmd :: "csys \<Rightarrow> cglob \<Rightarrow> cstate \<Rightarrow> int \<times> cstate" where
  "hostset_cmd sy g s =
     (let h = (if HostSpecified g then Host g else case sy_hostname sy of None \<Rightarrow> Host g | Some n \<Rightarrow> n) in
      case temp_template sy of
        None \<Rightarrow> (-2, s\<lparr>TempFilename := []\<rparr>)
      | Some tmpl \<Rightarrow>
          (case sy_mkstemp sy tmpl of
             None \<Rightarrow> (-2, s\<lparr>TempFilename := []\<rparr>)
           | Some t \<Rightarrow>
               if \<not> sy_fdopen sy then (-2, (remove_file t s)\<lparr>TempFilename := []\<rparr>)
               else
                 let s1 = s\<lparr>files := (files s)(t \<mapsto> \<lparr>f_owner = sy_euid sy, f_text = h @ [NL]\<rparr>), TempFilename := t\<rparr> in
                 if \<not> sy_write sy \<or> \<not> sy_fclose sy then replace_done (-2) s1
                 else (case spool_path sy (sy_hostfile sy) of
                         None \<Rightarrow> replace_done (-2) s1
                       | Some n \<Rightarrow>
                           if \<not> sy_rename sy then replace_done (-2) s1
                           else
                             let s2 = s1\<lparr>files := (files s1)(t := None, n := files s1 t), TempFilename := []\<rparr> in
                             replace_done 0 (poke_daemon sy (clog (RealUser g) ''SET HOST'' h s2)))))"

definition hostget_cmd :: "csys \<Rightarrow> cglob \<Rightarrow> cstate \<Rightarrow> int \<times> cstate" where
  "hostget_cmd sy g s =
     (case spool_path sy (sy_hostfile sy) of
        None \<Rightarrow> (-2, s)
      | Some n \<Rightarrow>
          (case fopen_r sy s n of
             None \<Rightarrow> (-2, s)
           | Some txt \<Rightarrow>
               (case get_string MAX_HOSTNAME (open_stream txt) [NL] of
                  (None, _, _) \<Rightarrow> (-2, s)
                | (Some _, h, _) \<Rightarrow>
                    (0, clog (RealUser g) ''GET HOST'' h (s\<lparr>out := out s @ h @ [NL]\<rparr>)))))"

definition die :: "cstate \<Rightarrow> cstate" where
  "die s = (if TempFilename s \<noteq> [] then remove_file (TempFilename s) s else s)"

section \<open>Editing\<close>

text \<open>The results of \<open>waitpid\<close>: an error, another process, an exit status, a signal, or a stop that is neither. An error
  makes the loop go round again; \<^const>\<open>None\<close> when no more results are given.\<close>

datatype waited = WErr | WOther | WExit int | WSignal int | WStopped

fun wait_loop :: "waited list \<Rightarrow> bool option" where
  "wait_loop [] = None"
| "wait_loop (w # ws) =
     (case w of
        WErr \<Rightarrow> wait_loop ws
      | WOther \<Rightarrow> Some False
      | WExit n \<Rightarrow> Some (n = 0)
      | WSignal _ \<Rightarrow> Some False
      | WStopped \<Rightarrow> Some True)"

text \<open>The answers to the question whether to retry.\<close>

fun answer_loop :: "string option list \<Rightarrow> bool option" where
  "answer_loop [] = None"
| "answer_loop (a # as) =
     (case a of
        None \<Rightarrow> answer_loop as
      | Some q \<Rightarrow>
          if hd0 q = CHR ''y'' \<or> hd0 q = CHR ''Y'' then Some True
          else if hd0 q = CHR ''n'' \<or> hd0 q = CHR ''N'' then Some False
          else answer_loop as)"

text \<open>One run of the editor: what it leaves in the temporary file, and the results of the calls after it.\<close>

record attempt =
  at_ferror :: bool
  at_fork :: bool
  at_waits :: "waited list"
  at_text :: string
  at_lstat :: bool
  at_reg :: bool
  at_mtime :: int
  at_swap :: bool
  at_open :: bool
  at_back :: bool
  at_answers :: "string option list"

text \<open>The end of \<open>edit_cmd\<close>: \<open>exit (ERROR_EXIT)\<close> on the left, a return on the right.\<close>

definition edit_end :: "cglob \<Rightarrow> cstate \<Rightarrow> cstate" where
  "edit_end g s = clog (RealUser g) ''END EDIT'' (User g) s"

definition edit_remove :: "cglob \<Rightarrow> cstate \<Rightarrow> cstate" where
  "edit_remove g s = edit_end g (remove_file (Filename g) s)"

definition edit_fatal :: "cglob \<Rightarrow> cstate \<Rightarrow> cstate" where
  "edit_fatal g s = remove_file (Filename g) s"

definition edit_write :: "cglob \<Rightarrow> string \<Rightarrow> cstate \<Rightarrow> cstate" where
  "edit_write g txt s =
     s\<lparr>files := (files s)(Filename g := map_option (\<lambda>x. x\<lparr>f_text := txt\<rparr>) (files s (Filename g)))\<rparr>"

text \<open>From label \<open>again\<close> on.\<close>

fun edit_again ::
  "csys \<Rightarrow> (string \<Rightarrow> passwd option) \<Rightarrow> cglob \<Rightarrow> attempt list \<Rightarrow> cstate \<Rightarrow> (cstate + cstate) option" where
  "edit_again sy getpwnam g [] s = None"
| "edit_again sy getpwnam g (a # as) s =
     (if at_ferror a \<or> \<not> at_fork a then Some (Inl (edit_fatal g s))
      else case wait_loop (at_waits a) of
        None \<Rightarrow> None
      | Some ok \<Rightarrow>
          (let s1 = edit_write g (at_text a) s in
           if \<not> ok \<or> \<not> at_lstat a then Some (Inl (edit_fatal g s1))
           else if \<not> at_reg a \<or> at_mtime a = 0 \<or> \<not> at_swap a \<or> \<not> at_open a then Some (Inr (edit_remove g s1))
           else if \<not> at_back a then Some (Inl s1)
           else case replace_cmd sy getpwnam g (at_text a) s1 of
             None \<Rightarrow> None
           | Some (r, s2) \<Rightarrow>
               if r = 0 then Some (Inr (edit_remove g s2))
               else if r = -1 then
                 (case answer_loop (at_answers a) of
                    None \<Rightarrow> None
                  | Some True \<Rightarrow> edit_again sy getpwnam g as s2
                  | Some False \<Rightarrow> Some (Inr (edit_end g s2)))
               else Some (Inr (edit_end g s2))))"

record editsys =
  ed_devnull :: bool
  ed_tmpdir :: "string option"
  ed_swap :: bool
  ed_back :: bool
  ed_mkstemp :: "string \<Rightarrow> string option"
  ed_fdopen :: bool
  ed_range_get :: "string \<Rightarrow> string option"
  ed_fflush :: bool
  ed_swap2 :: bool
  ed_back2 :: bool

text \<open>The line written for option \<open>-s\<close>; \<^const>\<open>None\<close> is a failure of the library.\<close>

definition mls_line :: "editsys \<Rightarrow> selinux \<Rightarrow> cglob \<Rightarrow> string option" where
  "mls_line ed se g =
     (case selinux_context g of
        None \<Rightarrow> Some []
      | Some con \<Rightarrow>
          (case context_new se (Some con) of
             None \<Rightarrow> None
           | Some ccon \<Rightarrow> map_option (\<lambda>l. ''MLS_LEVEL='' @ l @ [NL]) (ed_range_get ed ccon)))"

text \<open>The temporary file \<open>t\<close> exists; \<open>old\<close> is the present table.\<close>

definition edit_start ::
  "csys \<Rightarrow> editsys \<Rightarrow> selinux \<Rightarrow> (string \<Rightarrow> passwd option) \<Rightarrow> cglob \<Rightarrow> attempt list \<Rightarrow> string \<Rightarrow> string \<Rightarrow> cstate \<Rightarrow> (cstate + cstate) option" where
  "edit_start sy ed se getpwnam g as t old s =
     (let g1 = g\<lparr>Filename := t, selinux_context := None\<rparr> in
      if \<not> ed_back ed \<or> \<not> ed_fdopen ed then Some (Inl (edit_fatal g1 s))
      else case mls_line ed se g of
        None \<Rightarrow> Some (Inl (edit_fatal g1 s))
      | Some mls \<Rightarrow>
          let s2 = edit_write g1 (old @ mls) s in
          if \<not> ed_fflush ed \<or> \<not> ed_swap2 ed \<or> \<not> ed_back2 ed then Some (Inl s2) else edit_again sy getpwnam g1 as s2)"

definition edit_cmd ::
  "csys \<Rightarrow> editsys \<Rightarrow> selinux \<Rightarrow> (string \<Rightarrow> passwd option) \<Rightarrow> cglob \<Rightarrow> attempt list \<Rightarrow> cstate \<Rightarrow> (cstate + cstate) option" where
  "edit_cmd sy ed se getpwnam g as s =
     (let s0 = clog (RealUser g) ''BEGIN EDIT'' (User g) s in
      case spool_path sy (User g) of
        None \<Rightarrow> Some (Inl s0)
      | Some n \<Rightarrow>
          if files s0 n \<noteq> None \<and> \<not> sy_readable sy n then Some (Inl s0)
          else if files s0 n = None \<and> \<not> ed_devnull ed then Some (Inl s0)
          else
            let old = (case fopen_r sy s0 n of None \<Rightarrow> [] | Some txt \<Rightarrow> txt) in
            case glue_strings MAX_FNAME (tmp_path sy (ed_tmpdir ed)) ''crontab.XXXXXXXXXX'' CHR ''/'' of
              None \<Rightarrow> Some (Inl s0)
            | Some tmpl \<Rightarrow>
                if \<not> ed_swap ed then Some (Inl s0)
                else case ed_mkstemp ed tmpl of
                  None \<Rightarrow> Some (Inl (remove_file tmpl s0))
                | Some t \<Rightarrow>
                    edit_start sy ed se getpwnam g as t old
                      (s0\<lparr>files := (files s0)(t \<mapsto> \<lparr>f_owner = sy_ruid sy, f_text = []\<rparr>)\<rparr>))"

section \<open>The program\<close>

record cworld =
  cw_uid :: int
  cw_allow :: "ufile option"
  cw_deny :: "ufile option"
  cw_cwd_ok :: bool
  cw_pam :: pam
  cw_answer :: "string option"
  cw_attempts :: "attempt list"

text \<open>
  \<open>main\<close>, after \<open>parse_args\<close> has set the globals and opened \<open>new\<close>: the exit status and the files and log
  afterwards; \<^const>\<open>None\<close> when \<open>load_env\<close> over-reads or the editor never comes back.
\<close>

definition crontab_main ::
  "csys \<Rightarrow> editsys \<Rightarrow> selinux \<Rightarrow> (string \<Rightarrow> passwd option) \<Rightarrow> cworld \<Rightarrow> cglob \<Rightarrow> string \<Rightarrow> cstate \<Rightarrow> (int \<times> cstate) option" where
  "crontab_main sy ed se getpwnam w g new s =
     (if \<not> cw_cwd_ok w then Some (1, s)
      else if \<not> allowed (cw_uid w) (RealUser g) (cw_allow w) (cw_deny w)
      then Some (1, clog (RealUser g) ''AUTH'' ''crontab command not allowed'' s)
      else if cron_start_pam (cw_pam w) (c_pw g) \<noteq> 0 then Some (1, s)
      else case Option g of
        opt_unknown \<Rightarrow> Some (1, s)
      | opt_list \<Rightarrow> Some (case list_cmd sy g s of None \<Rightarrow> (1, clog (RealUser g) ''LIST'' (User g) s) | Some s1 \<Rightarrow> (0, s1))
      | opt_delete \<Rightarrow>
          Some (case delete_cmd sy g (cw_answer w) s of
                  None \<Rightarrow> (0, s)
                | Some None \<Rightarrow> (1, clog (RealUser g) ''DELETE'' (User g) s)
                | Some (Some s1) \<Rightarrow> (0, s1))
      | opt_edit \<Rightarrow>
          map_option (\<lambda>r. case r of Inl s1 \<Rightarrow> (1, s1) | Inr s1 \<Rightarrow> (0, s1)) (edit_cmd sy ed se getpwnam g (cw_attempts w) s)
      | opt_replace \<Rightarrow>
          map_option (\<lambda>(r, s1). (if r < 0 then 1 else 0, s1)) (replace_cmd sy getpwnam g new s)
      | opt_hostset \<Rightarrow> Some (case hostset_cmd sy g s of (r, s1) \<Rightarrow> (if r < 0 then 1 else 0, s1))
      | opt_hostget \<Rightarrow> Some (case hostget_cmd sy g s of (r, s1) \<Rightarrow> (if r < 0 then 1 else 0, s1)))"

text \<open>The whole program. \<open>main\<close> puts \<open>"-"\<close> in the place of a missing first argument; every error of \<open>parse_args\<close> ends the process with
  status 1. \<open>noarg\<close> says that there is no argument at all, \<open>opts\<close> and \<open>args\<close> are what \<open>getopt\<close> makes of the arguments.\<close>

definition crontab_program ::
  "csys \<Rightarrow> editsys \<Rightarrow> selinux \<Rightarrow> (string \<Rightarrow> passwd option) \<Rightarrow> passwd option \<Rightarrow> string \<Rightarrow> (string \<Rightarrow> string option) \<Rightarrow> bool \<Rightarrow> bool \<Rightarrow>
     cworld \<Rightarrow> bool \<Rightarrow> (char \<times> string) list \<Rightarrow> string list \<Rightarrow> cstate \<Rightarrow> (int \<times> cstate) option" where
  "crontab_program sy ed se getpwnam getpwuid stdin user_read swap_ok back_ok w noarg opts args s =
     (case crontab_parse_args (cw_uid w) se getpwnam getpwuid stdin user_read swap_ok back_ok opts
             (if noarg then [''-''] else args) of
        Inl _ \<Rightarrow> Some (1, s)
      | Inr (g, new) \<Rightarrow> crontab_main sy ed se getpwnam w g new s)"

end
