(* ===== verification/CrontabCmdProps.thy ===== *)
theory CrontabCmdProps
  imports CrontabCmd CrontabProps
begin

text \<open>
  The properties of the \<open>crontab\<close> command: installing a table is all or nothing, what was checked is what
  the daemon later reads, and the host file of a cluster round trips.
\<close>

section \<open>Installing\<close>

lemma replace_done_temp:
  assumes "TempFilename s = t" and "t \<noteq> []" and "replace_done e s = (r, s')"
  shows "r = e \<and> files s' = (files s)(t := None) \<and> TempFilename s' = [] \<and> poked s' = poked s"
  using assms by (auto simp: replace_done_def remove_file_def)

lemma replace_install_cases:
  assumes "TempFilename s = t" and "t \<noteq> []" and "replace_install sy g t s = (r, s')"
  shows "TempFilename s' = [] \<and>
    (r = -2 \<and> files s' = (files s)(t := None) \<and> poked s' = poked s \<or>
     r = 0 \<and> (\<exists>n. spool_path sy (User g) = Some n
        \<and> files s' = (files s)(t := None, n := map_option (\<lambda>x. x\<lparr>f_owner := if sy_gid_same sy then 0 else pw_uid (c_pw g)\<rparr>) (files s t))))"
  using assms
  by (auto simp: replace_install_def Let_def replace_done_def remove_file_def poke_daemon_def clog_def fun_upd_def
      split: if_splits option.splits)

lemma replace_checked_cases:
  assumes "TempFilename s = t" and "t \<noteq> []" and "replace_checked sy getpwnam g e0 t tx s = Some (r, s')"
  shows "TempFilename s' = [] \<and>
    (r \<noteq> 0 \<and> files s' = (files s)(t := None) \<and> poked s' = poked s \<or>
     r = 0 \<and> (\<exists>n c'. spool_path sy (User g) = Some n
        \<and> check_loop getpwnam (cctx s) (c_pw g) e0 (sy_stale sy) (open_stream tx) = Some (0, c')
        \<and> files s' = (files s)(t := None, n := map_option (\<lambda>x. x\<lparr>f_owner := if sy_gid_same sy then 0 else pw_uid (c_pw g)\<rparr>) (files s t))))"
proof (cases "sy_ftruncate sy \<and> \<not> sy_ferror sy")
  case False
  then have "replace_done (-2) s = (r, s')" using assms(3) by (auto simp: replace_checked_def split: if_splits)
  then show ?thesis using replace_done_temp[OF assms(1,2), of "-2" r s'] by auto
next
  case True
  then obtain errs c2 where ck: "check_loop getpwnam (cctx s) (c_pw g) e0 (sy_stale sy) (open_stream tx) = Some (errs, c2)"
    and rr: "(if errs \<noteq> 0 then replace_done (-1) (s\<lparr>cctx := c2\<rparr>) else replace_install sy g t (s\<lparr>cctx := c2\<rparr>)) = (r, s')"
    using assms(3) by (auto simp: replace_checked_def Let_def split: option.splits)
  show ?thesis
  proof (cases "errs = 0")
    case False
    then show ?thesis using replace_done_temp[of "s\<lparr>cctx := c2\<rparr>" t "-1" r s'] rr assms(1,2) by auto
  next
    case True
    then have "replace_install sy g t (s\<lparr>cctx := c2\<rparr>) = (r, s')" using rr by simp
    from replace_install_cases[OF _ assms(2) this] assms(1) ck True show ?thesis by auto
  qed
qed

text \<open>The names \<open>mkstemp\<close> may give are new, and not that of the file being edited.\<close>

definition fresh_temp :: "csys \<Rightarrow> string \<Rightarrow> cstate \<Rightarrow> bool" where
  "fresh_temp sy ed s \<longleftrightarrow> (\<forall>tmpl t. sy_mkstemp sy tmpl = Some t \<longrightarrow> files s t = None \<and> t \<noteq> [] \<and> t \<noteq> ed)"

lemma replace_effect:
  assumes "fresh_temp sy ed s" and "TempFilename s = []"
    and "replace_cmd sy getpwnam g new s = Some (r, s')"
  shows "TempFilename s' = [] \<and>
    (if r = 0 then
       (\<exists>n own c c'. spool_path sy (User g) = Some n
          \<and> files s' = (files s)(n \<mapsto> \<lparr>f_owner = own, f_text = new_text g new\<rparr>)
          \<and> check_loop getpwnam c (c_pw g) [] (sy_stale sy) (open_stream (new_text g new)) = Some (0, c'))
     else files s' = files s \<and> poked s' = poked s)"
proof -
  obtain eo c1 where ei: "env_init (cctx s) = (eo, c1)" by fastforce
  show ?thesis
  proof (cases "\<exists>tmpl t. eo \<noteq> None \<and> temp_template sy = Some tmpl \<and> sy_mkstemp sy tmpl = Some t \<and> sy_fdopen sy")
    case False
    then show ?thesis using assms ei
      by (auto simp: fresh_temp_def replace_cmd_def remove_file_def fun_upd_idem Let_def split: option.splits if_splits)
  next
    case True
    then obtain e0 tmpl t where t: "eo = Some e0" "temp_template sy = Some tmpl" "sy_mkstemp sy tmpl = Some t" "sy_fdopen sy"
      by blast
    have e0: "e0 = []" using ei t(1) by (auto simp: env_init_def split: prod.splits if_splits)
    have fr: "files s t = None" "t \<noteq> []" using assms(1) t(3) by (auto simp: fresh_temp_def)
    let ?s2 = "s\<lparr>cctx := c1, files := (files s)(t \<mapsto> \<lparr>f_owner = sy_euid sy, f_text = new_text g new\<rparr>), TempFilename := t\<rparr>"
    have undo: "(files ?s2)(t := None) = files s" using fr(1) by (simp add: fun_upd_idem)
    have "replace_checked sy getpwnam g [] t (new_text g new) ?s2 = Some (r, s')"
      using assms(3) ei t e0 by (simp add: replace_cmd_def)
    from replace_checked_cases[OF _ fr(2) this] show ?thesis
      unfolding undo by (auto simp: fun_upd_twist fr)
  qed
qed


section \<open>What was checked is what the daemon reads\<close>

lemma load_rest_plain:
  assumes "allocs c = []" and "pw_fits p"
  shows "\<exists>e. load_rest getpwnam c (Some p) e0 m fl ch f =
    (if ch = Some NL \<or> ch = Some CHR ''*'' then (Inl (e_cmd, ch, f), c)
     else case get_string MAX_COMMAND (unget_char ch f) [NL] of
       (ch2, s, f2) \<Rightarrow> if ch2 = None then (Inl (e_cmd, ch2, f2), c) else (Inr (e s, f2), c))"
proof -
  obtain x where x: "entry_env c p e0 = (Some x, c)" using entry_env_no_alloc_failure[OF assms] by blast
  obtain p1 where p1: "pw_dup c p = (Some p1, c)"
    using pw_layout_Some[of p] assms(1) by (auto simp: pw_dup_def alloc_def)
  have al: "alloc c = (True, c)" using assms(1) by (simp add: alloc_def)
  show ?thesis
    by (intro exI[of _ "\<lambda>s. \<lparr>pwd = p1\<lparr>pw_passwd := []\<rparr>, envp = x, cmd = s, tbits = m, flags = fl\<rparr>"])
       (simp add: load_rest_def load_username_def p1 x al cong: if_cong)
qed

text \<open>With enough memory the environment an entry is read with has no influence on whether it is accepted, nor on
  what is read.\<close>

definition same_reading :: "((ecode + entry) \<times> ctx \<times> istream) \<Rightarrow> ((ecode + entry) \<times> ctx \<times> istream) \<Rightarrow> bool" where
  "same_reading x y \<longleftrightarrow> snd x = snd y \<and> rel_sum (=) (\<lambda>_ _. True) (fst x) (fst y)"

lemma load_body_env:
  assumes "allocs c = []" and "pw_fits p"
  shows "rel_prod (rel_sum (=) (\<lambda>x y. snd x = snd y)) (=)
    (load_body getpwnam c (Some p) e0 fl ch f) (load_body getpwnam c (Some p) e1 fl ch f)"
proof -
  have r: "rel_prod (rel_sum (=) (\<lambda>x y. snd x = snd y)) (=)
      (load_rest getpwnam c (Some p) e0 m fl ch f) (load_rest getpwnam c (Some p) e1 m fl ch f)" for m fl ch f
  proof -
    obtain a where a: "load_rest getpwnam c (Some p) e0 m fl ch f =
      (if ch = Some NL \<or> ch = Some CHR ''*'' then (Inl (e_cmd, ch, f), c)
       else case get_string MAX_COMMAND (unget_char ch f) [NL] of
         (ch2, s, f2) \<Rightarrow> if ch2 = None then (Inl (e_cmd, ch2, f2), c) else (Inr (a s, f2), c))"
      using load_rest_plain[OF assms] by blast
    obtain b where b: "load_rest getpwnam c (Some p) e1 m fl ch f =
      (if ch = Some NL \<or> ch = Some CHR ''*'' then (Inl (e_cmd, ch, f), c)
       else case get_string MAX_COMMAND (unget_char ch f) [NL] of
         (ch2, s, f2) \<Rightarrow> if ch2 = None then (Inl (e_cmd, ch2, f2), c) else (Inr (b s, f2), c))"
      using load_rest_plain[OF assms] by blast
    show ?thesis unfolding a b by (auto split: prod.splits)
  qed
  show ?thesis unfolding load_body_def Let_def by (auto simp: r split: sum.splits prod.splits)
qed

lemma load_entry_env:
  assumes "allocs c = []" and "pw_fits p"
  shows "same_reading (load_entry getpwnam c f (Some p) e0) (load_entry getpwnam c f (Some p) e1)"
proof -
  have "same_reading
      ((\<lambda>(r, c). case r of Inr (e, f) \<Rightarrow> (Inr e, c, f) | Inl (ec, ch, f) \<Rightarrow> (Inl ec, c, to_eol ch f)) (load_body getpwnam c (Some p) e0 fl ch f))
      ((\<lambda>(r, c). case r of Inr (e, f) \<Rightarrow> (Inr e, c, f) | Inl (ec, ch, f) \<Rightarrow> (Inl ec, c, to_eol ch f)) (load_body getpwnam c (Some p) e1 fl ch f))"
    for fl ch f
    using load_body_env[OF assms, of getpwnam e0 fl ch f e1]
    by (cases "load_body getpwnam c (Some p) e0 fl ch f"; cases "load_body getpwnam c (Some p) e1 fl ch f")
       (auto simp: same_reading_def split: sum.splits)
  then show ?thesis
    unfolding load_entry_def Let_def by (auto simp: same_reading_def split: option.splits prod.splits)
qed

lemma load_body_ctx:
  assumes "allocs c = []" and "pw_fits p"
  shows "snd (load_body getpwnam c (Some p) e0 fl ch f) = c"
proof -
  have "snd (load_rest getpwnam c (Some p) e0 m fl ch f) = c" for m fl ch f
  proof -
    obtain a where "load_rest getpwnam c (Some p) e0 m fl ch f =
      (if ch = Some NL \<or> ch = Some CHR ''*'' then (Inl (e_cmd, ch, f), c)
       else case get_string MAX_COMMAND (unget_char ch f) [NL] of
         (ch2, s, f2) \<Rightarrow> if ch2 = None then (Inl (e_cmd, ch2, f2), c) else (Inr (a s, f2), c))"
      using load_rest_plain[OF assms] by blast
    then show ?thesis by (simp split: prod.splits)
  qed
  then show ?thesis by (simp add: load_body_def Let_def split: sum.splits prod.splits)
qed

lemma load_entry_ctx:
  assumes "allocs c = []" and "pw_fits p" and "load_entry getpwnam c f (Some p) e0 = (r, c1, g)" and "r \<noteq> Inl e_option"
  shows "c1 = c"
proof -
  have f: "fst (snd (case x of (r, c) \<Rightarrow> case r of Inr (e, f) \<Rightarrow> (Inr e, c, f) | Inl (ec, ch, f) \<Rightarrow> (Inl ec, c, to_eol ch f)))
      = snd x" for x :: "(entry \<times> istream) parsed \<times> ctx"
    by (simp split: prod.splits sum.splits)
  have "fst (snd (load_entry getpwnam c f (Some p) e0)) = c \<or> fst (load_entry getpwnam c f (Some p) e0) = Inl e_option"
    unfolding load_entry_def Let_def
    by (auto simp: f load_body_ctx[OF assms(1,2)] split: option.splits prod.splits)
  then show ?thesis using assms(3,4) by simp
qed

lemma load_entry_accepts:
  assumes "allocs c = []" and "pw_fits p" and "load_entry getpwnam c f (Some p) e0 = (Inr e, c1, g)"
  shows "c1 = c \<and> (\<exists>e'. load_entry getpwnam c f (Some p) e1 = (Inr e', c, g))"
proof -
  have "c1 = c" using load_entry_ctx[OF assms] by simp
  moreover have "same_reading (Inr e, c1, g) (load_entry getpwnam c f (Some p) e1)"
    using load_entry_env[OF assms(1,2), of getpwnam f e0 e1] assms(3) by simp
  ultimately show ?thesis
    by (cases "load_entry getpwnam c f (Some p) e1") (auto simp: same_reading_def elim: rel_sum.cases)
qed

text \<open>C18. What \<open>crontab\<close> accepts the daemon loads: if the check of a new table finds no error, then \<open>load_user\<close>'s loop over
  the same text, whatever the environment, reads the same lines, loads an entry for each and logs
  nothing.\<close>

theorem checked_table_loads:
  assumes "check_loop getpwnam c p e0 envstr f = Some (0, c')" and "allocs c = []" and "pw_fits p"
  shows "\<exists>es'. load_loop getpwnam c (Some p) tab envstr f ev es = Some (Some (es' @ es), c)"
  using assms
proof (induction getpwnam c p e0 envstr f arbitrary: ev es rule: check_loop.induct)
  case (1 getpwnam c p e0 envstr f)
  obtain st envstr1 g where l: "load_env envstr f = Some (st, envstr1, g)"
    using "1.prems"(1) by (auto simp: check_loop.simps[of getpwnam c] split: option.splits)
  show ?case
  proof (cases st)
    case ENV_ERR
    then show ?thesis using l by (simp add: load_loop.simps[of getpwnam c])
  next
    case ENV_FALSE
    obtain r c1 h where e: "load_entry getpwnam c g (Some p) e0 = (r, c1, h)" by (metis prod_cases3)
    show ?thesis
    proof (cases r)
      case (Inr en)
      obtain en' where en': "c1 = c" "load_entry getpwnam c g (Some p) ev = (Inr en', c, h)"
        using load_entry_accepts[OF "1.prems"(2,3)] e Inr by blast
      have "check_loop getpwnam c1 p e0 envstr1 h = Some (0, c')"
        using "1.prems"(1) l e Inr ENV_FALSE by (simp add: check_loop.simps[of getpwnam c])
      then obtain es' where "load_loop getpwnam c (Some p) tab envstr1 h ev (en' # es) = Some (Some (es' @ en' # es), c)"
        using "1.IH"(2)[OF l refl refl _ ENV_FALSE e[symmetric] Inr refl, of ev "en' # es"] "1.prems"(2,3) en'(1) ENV_FALSE by auto
      then show ?thesis
        using l ENV_FALSE en' by (intro exI[of _ "es' @ [en']"]) (simp add: load_loop.simps[of getpwnam c _ _ envstr f])
    next
      case (Inl ec)
      have ec: "ec = e_none" "check_loop getpwnam c1 p e0 envstr1 h = Some (0, c')"
        using "1.prems"(1) l e Inl ENV_FALSE by (auto simp: check_loop.simps[of getpwnam c] split: if_splits)
      have "load_entry getpwnam c g (Some p) ev = (Inl e_none, c1, h)"
        using load_entry_env[OF "1.prems"(2,3), of getpwnam g e0 ev] e Inl ec(1)
        by (cases "load_entry getpwnam c g (Some p) ev") (auto simp: same_reading_def elim: rel_sum.cases)
      moreover have "c1 = c" using load_entry_ctx[OF "1.prems"(2,3) e] Inl ec(1) by simp
      ultimately show ?thesis
        using "1.IH"(1)[OF l refl refl _ ENV_FALSE e[symmetric] Inl refl, of ev es] "1.prems"(2,3) ec l ENV_FALSE
        by (simp add: load_loop.simps[of getpwnam c _ _ envstr f])
    qed
  next
    case ENV_TRUE
    have "check_loop getpwnam c p e0 envstr1 g = Some (0, c')"
      using "1.prems"(1) l ENV_TRUE by (simp add: check_loop.simps[of getpwnam c])
    then show ?thesis
      using "1.IH"(3)[OF l refl refl] ENV_TRUE "1.prems"(2,3) l env_set_no_alloc_failure[OF "1.prems"(2)]
      by (simp add: load_loop.simps[of getpwnam c _ _ envstr f])
  qed
qed

lemma check_loop_text:
  assumes "list_all line_ok ls" and "allocs c = []" and "pw_fits p" and "rest f = render_crontab ls"
  shows "check_loop getpwnam c p e0 envstr f = Some (0, c)"
  using assms
proof (induction ls arbitrary: f envstr)
  case Nil
  then obtain buf h where "load_env envstr f = Some (ENV_ERR, buf, h)" "cstr buf = []"
    using load_env_end[of f envstr] by (auto simp: render_crontab_def)
  then show ?case by (simp add: check_loop.simps[of getpwnam c])
next
  case (Cons l ls)
  have inp: "rest f = render_line l @ render_crontab ls" using Cons.prems(4) by (simp add: render_crontab_def)
  show ?case
  proof (cases l)
    case (Setting n v)
    then obtain buf g where "load_env envstr f = Some (ENV_TRUE, buf, g)" "rest g = render_crontab ls"
      using load_env_setting[of n v f "render_crontab ls" envstr] Cons.prems(1) inp by auto
    then show ?thesis using Cons.IH[of g buf] Cons.prems by (simp add: check_loop.simps[of getpwnam c _ _ envstr f])
  next
    case (Entry tm s)
    then have ok: "line_ok (Entry tm s)" using Cons.prems(1) by simp
    obtain buf g where g: "load_env envstr f = Some (ENV_FALSE, buf, g)" "rest g = rest f"
      using load_env_entry[OF ok, of f "render_crontab ls" envstr] inp Entry by auto
    have "rest g = render_times tm @ s @ NL # render_crontab ls" using g(2) inp Entry by simp
    then obtain e h where "load_entry getpwnam c g (Some p) e0 = (Inr e, c, h)" "rest h = render_crontab ls"
      using load_entry_text[of tm c p s g "render_crontab ls" getpwnam e0] ok Cons.prems(2,3) by auto
    then show ?thesis using Cons.IH[of h buf] Cons.prems g(1) by (simp add: check_loop.simps[of getpwnam c _ _ envstr f])
  qed
qed

theorem checked_table_loads_witness:
  "\<exists>es'. load_loop (\<lambda>_. None) ctx0 (Some sample_pw) ''tab'' [] (open_stream (render_crontab sample_lines)) [''A=b''] [] =
     Some (Some (es' @ []), ctx0)"
proof -
  have "rest (open_stream (render_crontab sample_lines)) = render_crontab sample_lines" by (simp add: open_stream_def)
  from checked_table_loads[OF check_loop_text[OF sample_lines_ok sample_allocs sample_pw_fits this] sample_allocs sample_pw_fits]
  show ?thesis .
qed

definition good_sys :: csys where
  "good_sys = \<lparr>sy_spool = ''/s'', sy_hostfile = ''.cron.hostname'', sy_hostname = Some ''h'', sy_mkstemp = (\<lambda>_. Some ''/s/tmp''),
     sy_fdopen = True, sy_ftruncate = True, sy_ferror = False, sy_fchown = True, sy_fclose = True, sy_rename = True,
     sy_unlink = True, sy_utime = True, sy_write = True, sy_gid_same = False, sy_uid_same = False, sy_euid = 0, sy_ruid = 1000,
     sy_readable = (\<lambda>_. True), sy_stale = []\<rparr>"

definition joe_glob :: cglob where
  "joe_glob = \<lparr>User = ''joe'', RealUser = ''joe'', Filename = ''-'', Host = [], Option = opt_replace, PromptOnDelete = False,
     HostSpecified = False, c_pw = sample_pw, selinux_context = None\<rparr>"

definition empty_cstate :: cstate where
  "empty_cstate = \<lparr>files = (\<lambda>_. None), TempFilename = [], poked = 0, out = [], cctx = ctx0\<rparr>"

lemma good_sys_paths: "spool_path good_sys ''joe'' = Some ''/s/joe''" "temp_template good_sys = Some ''/s/h.tmp.XXXXXXXXXX''"
  by (simp_all add: spool_path_def temp_template_def host_specific_filename_def good_sys_def glue_strings_spec glued_def macro_defs)

text \<open>C23. Every table in the syntax of \<open>load_user\<close> can be installed: when no system call fails, \<open>replace_cmd\<close> returns 0, the
  user's table is the new text and the spool directory has been touched for the daemon to see.\<close>

theorem replace_accepts:
  assumes "list_all line_ok ls" and "allocs (cctx s) = []" and "pw_fits (c_pw g)" and "selinux_context g = None"
    and "temp_template sy = Some tmpl" and "sy_mkstemp sy tmpl = Some t" and "t \<noteq> []" and "files s t = None"
    and "spool_path sy (User g) = Some n"
    and "sy_fdopen sy" "sy_ftruncate sy" "\<not> sy_ferror sy" "sy_fchown sy" "sy_fclose sy" "sy_rename sy" "sy_utime sy"
  shows "\<exists>s' own. replace_cmd sy getpwnam g (render_crontab ls) s = Some (0, s') \<and> poked s' = poked s + 1
    \<and> files s' = (files s)(n \<mapsto> \<lparr>f_owner = own, f_text = render_crontab ls\<rparr>)"
proof -
  have nt: "new_text g (render_crontab ls) = render_crontab ls" using assms(4) by (simp add: new_text_def)
  have ei: "env_init (cctx s) = (Some [], cctx s)" using assms(2) by (simp add: env_init_def alloc_def)
  have ck: "check_loop getpwnam (cctx s) (c_pw g) [] (sy_stale sy) (open_stream (render_crontab ls)) = Some (0, cctx s)"
    by (rule check_loop_text[OF assms(1-3)]) (simp add: open_stream_def)
  show ?thesis
    using assms(5-) ei nt ck
    by (simp add: replace_cmd_def replace_checked_def replace_install_def Let_def replace_done_def poke_daemon_def clog_def
        fun_upd_twist fun_upd_idem)
       (cases "n = t"; auto simp: fun_upd_twist fun_upd_idem)
qed

theorem replace_accepts_witness:
  "\<exists>s' own. replace_cmd good_sys (\<lambda>_. None) joe_glob (render_crontab sample_lines) empty_cstate = Some (0, s') \<and> poked s' = 1
    \<and> files s' ''/s/joe'' = Some \<lparr>f_owner = own, f_text = render_crontab sample_lines\<rparr>"
proof -
  have "spool_path good_sys (User joe_glob) = Some ''/s/joe''" using good_sys_paths(1) by (simp add: joe_glob_def)
  from replace_accepts[OF sample_lines_ok _ _ _ good_sys_paths(2) _ _ _ this, of empty_cstate "''/s/tmp''" "\<lambda>_. None"]
  show ?thesis using sample_pw_fits by (auto simp: empty_cstate_def joe_glob_def good_sys_def sample_allocs)
qed


section \<open>Other commands\<close>

text \<open>The host of a cluster: what \<open>crontab -n host\<close> stores is what \<open>crontab -c\<close> prints.\<close>

theorem host_roundtrip:
  assumes "HostSpecified g" and "NL \<notin> set (Host g)" and "no_nul (Host g)" and "length (Host g) < MAX_HOSTNAME"
    and "\<And>n. sy_readable sy n" and "hostset_cmd sy g s = (0, s1)"
  shows "\<exists>s2. hostget_cmd sy g s1 = (0, s2) \<and> out s2 = out s1 @ Host g @ [NL] \<and> files s2 = files s1"
proof -
  have "files s1 n = Some f \<and> f_text f = Host g @ [NL]" if "spool_path sy (sy_hostfile sy) = Some n" "files s1 n = Some f" for n f
    using that assms(1,6)
    by (auto simp: hostset_cmd_def Let_def replace_done_def poke_daemon_def clog_def split: option.splits if_splits)
  moreover obtain n f where n: "spool_path sy (sy_hostfile sy) = Some n" "files s1 n = Some f"
    using assms(1,6)
    by (auto simp: hostset_cmd_def Let_def replace_done_def poke_daemon_def clog_def split: option.splits if_splits)
  ultimately have f: "f_text f = Host g @ [NL]" by blast
  have "rest (open_stream (Host g @ [NL])) = Host g @ NL # []" by (simp add: open_stream_def)
  then obtain h where "get_string MAX_HOSTNAME (open_stream (Host g @ [NL])) [NL] = (Some NL, Host g, h)"
    using get_string_line[OF _ assms(2,3,4)] by blast
  then show ?thesis using n f assms(5) by (simp add: hostget_cmd_def fopen_r_def clog_def)
qed

theorem host_roundtrip_witness:
  "\<exists>s1 s2. hostset_cmd good_sys (joe_glob\<lparr>Host := ''node7'', HostSpecified := True\<rparr>) empty_cstate = (0, s1)
     \<and> hostget_cmd good_sys (joe_glob\<lparr>Host := ''node7'', HostSpecified := True\<rparr>) s1 = (0, s2) \<and> out s2 = ''node7'' @ [NL]"
proof -
  let ?g = "joe_glob\<lparr>Host := ''node7'', HostSpecified := True\<rparr>"
  have p: "spool_path good_sys (sy_hostfile good_sys) = Some ''/s/.cron.hostname''"
    by (simp add: spool_path_def good_sys_def glue_strings_spec glued_def macro_defs)
  obtain s1 where s1: "hostset_cmd good_sys ?g empty_cstate = (0, s1)" "out s1 = []"
    using p by (simp add: hostset_cmd_def good_sys_paths empty_cstate_def replace_done_def Let_def poke_daemon_def clog_def)
      (auto simp: good_sys_def replace_done_def poke_daemon_def clog_def)
  from host_roundtrip[OF _ _ _ _ _ s1(1)] s1 show ?thesis by (auto simp: no_nul_def macro_defs good_sys_def)
qed

lemma crontab_opts_own:
  "crontab_opts uid se getpwnam opts g = Inr g' \<Longrightarrow> uid \<noteq> 0 \<Longrightarrow>
     User g' = User g \<and> RealUser g' = RealUser g \<and> c_pw g' = c_pw g \<and> (Option g \<noteq> opt_hostset \<longrightarrow> Option g' \<noteq> opt_hostset)"
proof (induction opts arbitrary: g)
  case (Cons a opts)
  obtain ch arg where a: "a = (ch, arg)" by fastforce
  obtain g1 where g1: "crontab_opt uid se getpwnam (ch, arg) g = Inr g1" "crontab_opts uid se getpwnam opts g1 = Inr g'"
    using Cons.prems(1) a by (auto split: sum.splits)
  have "User g1 = User g \<and> RealUser g1 = RealUser g \<and> c_pw g1 = c_pw g \<and> (Option g \<noteq> opt_hostset \<longrightarrow> Option g1 \<noteq> opt_hostset)"
    using g1(1) Cons.prems(2)
    by (auto simp: crontab_opt_def one_op_def split: if_splits option.splits)
  with Cons.IH[OF g1(2) Cons.prems(2)] show ?case by simp
qed simp

text \<open>Privileges: only root can name another user with \<open>-u\<close> or set the host with \<open>-n\<close>; for everybody else the table
  worked on, and the identity used, are the caller's own.\<close>

theorem unprivileged_own_table:
  assumes "crontab_parse_args uid se getpwnam (Some p) stdin user_read swap_ok back_ok opts args = Inr (g, new)" and "uid \<noteq> 0"
  shows "User g = pw_name p \<and> RealUser g = pw_name p \<and> c_pw g = p \<and> Option g \<noteq> opt_hostset \<and> length (User g) < MAX_UNAME
    \<and> (Option g = opt_replace \<longrightarrow> (if Filename g = ''-'' then new = stdin else user_read (Filename g) = Some new))"
proof -
  let ?g0 = "\<lparr>User = pw_name p, RealUser = pw_name p, Filename = [], Host = [], Option = opt_unknown,
    PromptOnDelete = False, HostSpecified = False, c_pw = p, selinux_context = None\<rparr>"
  obtain g1 g2 where g: "crontab_opts uid se getpwnam opts ?g0 = Inr g1" "crontab_operands args g1 = Inr g2"
      "length (pw_name p) < MAX_UNAME"
      "(if Option g2 = opt_replace then
          if Filename g2 = ''-'' then Inr (g2, stdin)
          else if \<not> swap_ok then Inl ''swapping uids''
          else (case user_read (Filename g2) of
                  None \<Rightarrow> Inl (Filename g2)
                | Some x \<Rightarrow> if \<not> back_ok then Inl ''swapping uids back'' else Inr (g2, x))
        else Inr (g2, [])) = Inr (g, new)"
    using assms(1) by (auto simp: crontab_parse_args_def split: sum.splits if_splits)
  have 1: "User g1 = pw_name p \<and> RealUser g1 = pw_name p \<and> c_pw g1 = p \<and> Option g1 \<noteq> opt_hostset"
    using crontab_opts_own[OF g(1) assms(2)] by simp
  have 2: "User g2 = User g1 \<and> RealUser g2 = RealUser g1 \<and> c_pw g2 = c_pw g1 \<and> Option g2 \<noteq> opt_hostset"
    using g(2) 1 by (auto simp: crontab_operands_def split: if_splits)
  have "g = g2" using g(4) by (auto split: if_splits option.splits)
  then show ?thesis using 1 2 g(3,4) by (auto split: if_splits option.splits)
qed

theorem unprivileged_own_table_witness:
  "\<exists>g new. crontab_parse_args 1000 no_selinux (\<lambda>_. None) (Some sample_pw) ''x'' (\<lambda>_. None) True True [] [''-''] = Inr (g, new)
     \<and> User g = ''joe'' \<and> new = ''x''"
proof -
  obtain g new where g: "crontab_parse_args 1000 no_selinux (\<lambda>_. None) (Some sample_pw) ''x'' (\<lambda>_. None) True True [] [''-''] = Inr (g, new)"
      "Filename g = ''-''" "Option g = opt_replace"
    by (auto simp: crontab_parse_args_def crontab_operands_def sample_pw_def macro_defs)
  from unprivileged_own_table[OF g(1)] g show ?thesis by (auto simp: sample_pw_def)
qed

section \<open>Editing\<close>

abbreviation final_state :: "cstate + cstate \<Rightarrow> cstate" where
  "final_state r \<equiv> (case r of Inl s \<Rightarrow> s | Inr s \<Rightarrow> s)"

definition edited :: "csys \<Rightarrow> (string \<Rightarrow> passwd option) \<Rightarrow> cglob \<Rightarrow> attempt \<Rightarrow> cfile option \<Rightarrow> bool" where
  "edited sy getpwnam g a fo \<longleftrightarrow>
     at_reg a \<and> at_mtime a \<noteq> 0 \<and> (\<exists>own. fo = Some \<lparr>f_owner = own, f_text = at_text a\<rparr>)
     \<and> (\<exists>c c'. check_loop getpwnam c (c_pw g) [] (sy_stale sy) (open_stream (at_text a)) = Some (0, c'))"

text \<open>One attempt: the conditions under which the edited text is checked at all, and what then becomes of the table.\<close>

definition attempt_ok :: "attempt \<Rightarrow> bool" where
  "attempt_ok a \<longleftrightarrow> \<not> at_ferror a \<and> at_fork a \<and> wait_loop (at_waits a) = Some True \<and> at_lstat a \<and> at_reg a \<and> at_mtime a \<noteq> 0
    \<and> at_swap a \<and> at_open a \<and> at_back a"

lemma edit_ends_keep:
  assumes "x \<noteq> Filename g"
  shows "files (edit_fatal g s) x = files s x" "files (edit_remove g s) x = files s x" "files (edit_end g s) = files s"
  using assms by (auto simp: edit_fatal_def edit_remove_def edit_end_def remove_file_def clog_def)

lemma edit_write_keeps:
  "x \<noteq> Filename g \<Longrightarrow> files (edit_write g tx s) x = files s x" "TempFilename (edit_write g tx s) = TempFilename s"
  "fresh_temp sy (Filename g) s \<Longrightarrow> fresh_temp sy (Filename g) (edit_write g tx s)"
  by (auto simp: edit_write_def fresh_temp_def)

lemma edit_not_checked:
  assumes "edit_again sy getpwnam g (a # as) s = Some r" and "\<not> attempt_ok a" and x: "x \<noteq> Filename g"
  shows "files (final_state r) x = files s x"
  using assms(1,2) edit_write_keeps(1)[OF x] edit_ends_keep[OF x]
  by (auto simp: Let_def attempt_ok_def split: if_splits option.splits)

lemma edit_checked:
  assumes "edit_again sy getpwnam g (a # as) s = Some r" and "attempt_ok a"
  obtains k s2 where "replace_cmd sy getpwnam g (at_text a) (edit_write g (at_text a) s) = Some (k, s2)"
    "(if k = 0 then Some (Inr (edit_remove g s2))
      else if k = -1 then
        (case answer_loop (at_answers a) of
           None \<Rightarrow> None
         | Some True \<Rightarrow> edit_again sy getpwnam g as s2
         | Some False \<Rightarrow> Some (Inr (edit_end g s2)))
      else Some (Inr (edit_end g s2))) = Some r"
  using assms by (auto simp: Let_def attempt_ok_def split: option.splits)

lemma edit_again_safe:
  assumes "fresh_temp sy (Filename g) s" and "TempFilename s = []" and "selinux_context g = None"
    and "edit_again sy getpwnam g as s = Some r" and "x \<noteq> Filename g"
  shows "files (final_state r) x = files s x \<or>
    spool_path sy (User g) = Some x \<and> (\<exists>a \<in> set as. edited sy getpwnam g a (files (final_state r) x))"
  using assms
proof (induction as arbitrary: s)
  case (Cons a as)
  let ?s1 = "edit_write g (at_text a) s"
  note x = Cons.prems(5) and w = edit_write_keeps(1)[OF Cons.prems(5)] and ends = edit_ends_keep[OF Cons.prems(5)]
  show ?case
  proof (cases "attempt_ok a")
    case False
    then show ?thesis using edit_not_checked[OF Cons.prems(4) _ x] by blast
  next
    case ok: True
    obtain k s2 where k: "replace_cmd sy getpwnam g (at_text a) ?s1 = Some (k, s2)"
        "(if k = 0 then Some (Inr (edit_remove g s2))
          else if k = -1 then
            (case answer_loop (at_answers a) of
               None \<Rightarrow> None
             | Some True \<Rightarrow> edit_again sy getpwnam g as s2
             | Some False \<Rightarrow> Some (Inr (edit_end g s2)))
          else Some (Inr (edit_end g s2))) = Some r"
      by (rule edit_checked[OF Cons.prems(4) ok])
    have nt: "new_text g tx = tx" for tx using Cons.prems(3) by (simp add: new_text_def)
    have t1: "TempFilename ?s1 = []" using Cons.prems(2) by (simp add: edit_write_keeps(2))
    note at = replace_effect[OF edit_write_keeps(3)[OF Cons.prems(1)] t1 k(1), unfolded nt]
    consider "k = 0" | "k \<noteq> 0" "edit_again sy getpwnam g as s2 = Some r"
      | "k \<noteq> 0" "edit_again sy getpwnam g as s2 \<noteq> Some r" by blast
    then show ?thesis
    proof cases
      case 1
      then obtain n own c c' where n: "spool_path sy (User g) = Some n"
          "files s2 = (files ?s1)(n \<mapsto> \<lparr>f_owner = own, f_text = at_text a\<rparr>)"
          "check_loop getpwnam c (c_pw g) [] (sy_stale sy) (open_stream (at_text a)) = Some (0, c')"
        using at by auto
      have "edited sy getpwnam g a (files s2 n)" using ok n(2,3) by (auto simp: edited_def attempt_ok_def)
      moreover have "files (final_state r) x = files s2 x" using k(2) 1 ends by auto
      ultimately show ?thesis using n(1,2) w by (cases "x = n") auto
    next
      case 2
      then have s2: "files s2 = files ?s1" "TempFilename s2 = []" using at by auto
      then have "fresh_temp sy (Filename g) s2" using edit_write_keeps(3)[OF Cons.prems(1)] by (simp add: fresh_temp_def)
      from Cons.IH[OF this s2(2) Cons.prems(3) 2(2) x] show ?thesis using s2(1) w by auto
    next
      case 3
      then show ?thesis using at k(2) ends w by (auto split: if_splits option.splits bool.splits)
    qed
  qed
qed simp

lemma edit_start_safe:
  assumes "edit_start sy ed se getpwnam g as t old s = Some r" and "fresh_temp sy t s" and "TempFilename s = []" and "x \<noteq> t"
  shows "files (final_state r) x = files s x \<or>
    spool_path sy (User g) = Some x \<and> (\<exists>a \<in> set as. edited sy getpwnam g a (files (final_state r) x))"
proof -
  let ?g1 = "g\<lparr>Filename := t, selinux_context := None\<rparr>"
  have f: "files (edit_write ?g1 tx s) x = files s x" "files (edit_fatal ?g1 s) x = files s x" for tx
    using assms(4) by (auto simp: edit_write_def edit_fatal_def remove_file_def)
  show ?thesis
  proof (cases "ed_back ed \<and> ed_fdopen ed \<and> mls_line ed se g \<noteq> None \<and> ed_fflush ed \<and> ed_swap2 ed \<and> ed_back2 ed")
    case False
    then show ?thesis using assms(1) f by (auto simp: edit_start_def Let_def split: if_splits option.splits)
  next
    case True
    then obtain mls where m: "mls_line ed se g = Some mls" by blast
    let ?s2 = "edit_write ?g1 (old @ mls) s"
    have "edit_again sy getpwnam ?g1 as ?s2 = Some r" using assms(1) True m by (simp add: edit_start_def Let_def)
    moreover have "fresh_temp sy (Filename ?g1) ?s2" using assms(2) by (auto simp: fresh_temp_def edit_write_def)
    moreover have "TempFilename ?s2 = []" using assms(3) by (simp add: edit_write_def)
    ultimately show ?thesis
      using edit_again_safe[of sy ?g1 ?s2 getpwnam as r x] assms(4) f(1)[of "old @ mls"] by (auto simp: edited_def)
  qed
qed

lemma edit_cmd_safe:
  assumes "edit_cmd sy ed se getpwnam g as s = Some r" and "TempFilename s = []"
    and "\<forall>tmpl t. ed_mkstemp ed tmpl = Some t \<longrightarrow> x \<noteq> t \<and> fresh_temp sy t s"
    and "\<forall>tmpl. glue_strings MAX_FNAME (tmp_path sy (ed_tmpdir ed)) ''crontab.XXXXXXXXXX'' CHR ''/'' = Some tmpl \<longrightarrow> x \<noteq> tmpl"
  shows "files (final_state r) x = files s x \<or>
    spool_path sy (User g) = Some x \<and> (\<exists>a \<in> set as. edited sy getpwnam g a (files (final_state r) x))"
proof (cases "files (final_state r) x = files s x")
  case False
  let ?s0 = "clog (RealUser g) ''BEGIN EDIT'' (User g) s"
  have s0: "files ?s0 = files s" "TempFilename ?s0 = []" using assms(2) by (simp_all add: clog_def)
  have rm: "files (remove_file tmpl ?s0) x = files s x" if "x \<noteq> tmpl" for tmpl using that s0(1) by (simp add: remove_file_def)
  obtain tmpl t old where t: "ed_mkstemp ed tmpl = Some t"
      "edit_start sy ed se getpwnam g as t old (?s0\<lparr>files := (files ?s0)(t \<mapsto> \<lparr>f_owner = sy_ruid sy, f_text = []\<rparr>)\<rparr>) = Some r"
    using assms(1) False assms(4) s0(1) rm unfolding edit_cmd_def Let_def
    by (auto split: option.split_asm if_split_asm)
  have x: "x \<noteq> t" "fresh_temp sy t s" using assms(3) t(1) by auto
  then have "fresh_temp sy t (?s0\<lparr>files := (files ?s0)(t \<mapsto> \<lparr>f_owner = sy_ruid sy, f_text = []\<rparr>)\<rparr>)"
    using s0(1) by (auto simp: fresh_temp_def)
  from edit_start_safe[OF t(2) this _ x(1)] s0 x(1) show ?thesis by auto
qed simp


definition good_edit :: editsys where
  "good_edit = \<lparr>ed_devnull = True, ed_tmpdir = None, ed_swap = True, ed_back = True, ed_mkstemp = (\<lambda>_. Some ''/tmp/c''), ed_fdopen = True,
     ed_range_get = (\<lambda>_. None), ed_fflush = True, ed_swap2 = True, ed_back2 = True\<rparr>"

definition one_attempt :: attempt where
  "one_attempt = \<lparr>at_ferror = False, at_fork = True, at_waits = [WErr, WExit 0], at_text = render_crontab sample_lines, at_lstat = True,
     at_reg = True, at_mtime = 0, at_swap = True, at_open = True, at_back = True, at_answers = []\<rparr>"


section \<open>The whole command\<close>

lemma parse_args_own:
  assumes "crontab_parse_args uid se getpwnam (Some p) stdin user_read swap_ok back_ok opts args = Inr (g, new)" and "uid \<noteq> 0"
  shows "User g = pw_name p \<and> RealUser g = pw_name p \<and> c_pw g = p \<and> Option g \<noteq> opt_hostset"
  using unprivileged_own_table[OF assms] by blast

text \<open>A table the check accepts.\<close>

definition checked_file :: "csys \<Rightarrow> (string \<Rightarrow> passwd option) \<Rightarrow> passwd \<Rightarrow> cfile option \<Rightarrow> bool" where
  "checked_file sy getpwnam p f \<longleftrightarrow>
     (\<exists>own txt c c'. f = Some \<lparr>f_owner = own, f_text = txt\<rparr> \<and> check_loop getpwnam c p [] (sy_stale sy) (open_stream txt) = Some (0, c'))"

text \<open>The names of temporary files are new, and \<open>x\<close> is not one of them.\<close>

definition temps_fresh :: "csys \<Rightarrow> editsys \<Rightarrow> cstate \<Rightarrow> string \<Rightarrow> bool" where
  "temps_fresh sy ed s x \<longleftrightarrow>
     (\<forall>tmpl t. sy_mkstemp sy tmpl = Some t \<longrightarrow> files s t = None \<and> t \<noteq> [])
   \<and> (\<forall>tmpl t. ed_mkstemp ed tmpl = Some t \<longrightarrow> x \<noteq> t \<and> fresh_temp sy t s)
   \<and> (\<forall>tmpl. glue_strings MAX_FNAME (tmp_path sy (ed_tmpdir ed)) ''crontab.XXXXXXXXXX'' CHR ''/'' = Some tmpl \<longrightarrow> x \<noteq> tmpl)"

text \<open>Which files the commands change, and to what.\<close>

lemma delete_changes:
  assumes "delete_cmd sy g answer s = Some (Some s')" and "files s' x \<noteq> files s x"
  shows "spool_path sy (User g) = Some x \<and> files s' x = None"
  using assms by (auto simp: delete_cmd_def Let_def clog_def poke_daemon_def remove_file_def split: if_splits option.splits)

lemma readers_keep:
  "list_cmd sy g s = Some s' \<Longrightarrow> files s' = files s" "files (snd (hostget_cmd sy g s)) = files s" "files (clog u ev d s) = files s"
  by (auto simp: list_cmd_def hostget_cmd_def clog_def Let_def split: option.splits prod.splits)

lemma replace_changes:
  assumes "replace_cmd sy getpwnam g new s = Some (r, s')" and "temps_fresh sy ed s x" and "TempFilename s = []"
    and "files s' x \<noteq> files s x"
  shows "spool_path sy (User g) = Some x \<and> checked_file sy getpwnam (c_pw g) (files s' x)"
proof -
  have "fresh_temp sy [] s" using assms(2) by (auto simp: temps_fresh_def fresh_temp_def)
  from replace_effect[OF this assms(3,1)] assms(4) show ?thesis
    by (auto simp: checked_file_def split: if_splits) blast
qed

lemma edit_changes:
  assumes "edit_cmd sy ed se getpwnam g as s = Some r" and "temps_fresh sy ed s x" and "TempFilename s = []"
    and "files (final_state r) x \<noteq> files s x"
  shows "spool_path sy (User g) = Some x \<and> checked_file sy getpwnam (c_pw g) (files (final_state r) x)"
proof -
  have "spool_path sy (User g) = Some x \<and> (\<exists>a \<in> set as. edited sy getpwnam g a (files (final_state r) x))"
    using edit_cmd_safe[OF assms(1,3)] assms(2,4) unfolding temps_fresh_def by blast
  then show ?thesis by (auto simp: edited_def checked_file_def)
qed

lemma crontab_main_changes:
  assumes "crontab_main sy ed se getpwnam w g new s = Some (k, s')" and "Option g \<noteq> opt_hostset" and "temps_fresh sy ed s x"
    and "TempFilename s = []" and "files s' x \<noteq> files s x"
  shows "spool_path sy (User g) = Some x \<and> allowed (cw_uid w) (RealUser g) (cw_allow w) (cw_deny w)
    \<and> cron_start_pam (cw_pam w) (c_pw g) = 0 \<and> (files s' x = None \<or> checked_file sy getpwnam (c_pw g) (files s' x))"
proof -
  have go: "allowed (cw_uid w) (RealUser g) (cw_allow w) (cw_deny w)" "cron_start_pam (cw_pam w) (c_pw g) = 0" "cw_cwd_ok w"
    using assms(1,5) readers_keep(3) by (auto simp: crontab_main_def split: if_splits)
  note m = assms(1)[unfolded crontab_main_def, simplified go, simplified]
  have "spool_path sy (User g) = Some x \<and> (files s' x = None \<or> checked_file sy getpwnam (c_pw g) (files s' x))"
  proof (cases "Option g")
    case opt_list
    then show ?thesis using m assms(5) readers_keep by (auto split: option.splits)
  next
    case opt_delete
    then show ?thesis using m assms(5) readers_keep(3) delete_changes[of sy g "cw_answer w" s s' x] by (auto split: option.splits)
  next
    case opt_edit
    then have "map_option (\<lambda>r. case r of Inl s1 \<Rightarrow> (1, s1) | Inr s1 \<Rightarrow> (0, s1)) (edit_cmd sy ed se getpwnam g (cw_attempts w) s) = Some (k, s')"
      using m by simp
    then obtain r where r: "edit_cmd sy ed se getpwnam g (cw_attempts w) s = Some r" "s' = final_state r"
      by (cases "edit_cmd sy ed se getpwnam g (cw_attempts w) s") (auto split: sum.split_asm)
    show ?thesis using edit_changes[OF r(1) assms(3,4)] assms(5) r(2) by blast
  next
    case opt_replace
    then obtain r where "replace_cmd sy getpwnam g new s = Some (r, s')" using m by auto
    then show ?thesis using replace_changes assms(3-5) by blast
  qed (use m assms(2,5) readers_keep(2)[of sy g s] in \<open>auto split: prod.splits\<close>)
  then show ?thesis using go by blast
qed

text \<open>C21. A run of the \<open>crontab\<close> command by a user without privileges, whatever the options, operands, editor and system calls do: a file
  that is different afterwards, the temporary files apart, is the table of the calling user in the spool directory;
  the access lists and PAM allowed the user; and the table is gone, or its text is one the check accepts.\<close>

theorem unprivileged_program:
  assumes "crontab_program sy ed se getpwnam (Some p) stdin user_read swap_ok back_ok w noarg opts args s = Some (k, s')"
    and "cw_uid w \<noteq> 0" and "TempFilename s = []" and "temps_fresh sy ed s x" and "files s' x \<noteq> files s x"
  shows "spool_path sy (pw_name p) = Some x \<and> allowed (cw_uid w) (pw_name p) (cw_allow w) (cw_deny w)
    \<and> cron_start_pam (cw_pam w) p = 0 \<and> (files s' x = None \<or> checked_file sy getpwnam p (files s' x))"
proof -
  obtain args' g new where g: "crontab_parse_args (cw_uid w) se getpwnam (Some p) stdin user_read swap_ok back_ok opts args' = Inr (g, new)"
      "crontab_main sy ed se getpwnam w g new s = Some (k, s')"
    using assms(1,5) by (auto simp: crontab_program_def split: sum.splits if_splits)
  note o = parse_args_own[OF g(1) assms(2)]
  from crontab_main_changes[OF g(2) _ assms(4,3,5)] o show ?thesis by auto
qed

definition joe_world :: cworld where
  "joe_world = \<lparr>cw_uid = 1000, cw_allow = None, cw_deny = Some \<lparr>uf_seek_ok = True, uf_read_err = False, uf_text = []\<rparr>, cw_cwd_ok = True,
     cw_pam = \<lparr>pam_start = (\<lambda>_. 0), pam_set_item = 0, pam_acct_mgmt = 0, pam_setcred = 0, pam_open_session = 0, pam_getenvlist = [],
       pam_strerror = (\<lambda>_. [])\<rparr>, cw_answer = None, cw_attempts = []\<rparr>"

theorem unprivileged_program_witness:
  "\<exists>s'. crontab_program good_sys good_edit no_selinux (\<lambda>_. None) (Some sample_pw) [] (\<lambda>_. None) True True joe_world False [(CHR ''r'', [])] []
      (empty_cstate\<lparr>files := [''/s/joe'' \<mapsto> \<lparr>f_owner = 1000, f_text = []\<rparr>]\<rparr>) = Some (0, s')
    \<and> files s' ''/s/joe'' = None \<and> spool_path good_sys (pw_name sample_pw) = Some ''/s/joe''"
proof -
  let ?s = "empty_cstate\<lparr>files := [''/s/joe'' \<mapsto> \<lparr>f_owner = 1000, f_text = []\<rparr>]\<rparr>"
  let ?g = "joe_glob\<lparr>Filename := [], Option := opt_delete\<rparr>"
  have pa: "crontab_parse_args (cw_uid joe_world) no_selinux (\<lambda>_. None) (Some sample_pw) [] (\<lambda>_. None) True True [(CHR ''r'', [])] [] = Inr (?g, [])"
    by code_simp
  have al: "allowed (cw_uid joe_world) (RealUser ?g) (cw_allow joe_world) (cw_deny joe_world)" "cron_start_pam (cw_pam joe_world) (c_pw ?g) = 0"
    by (simp_all add: joe_world_def allowed_def in_file_def in_file_loop.simps[of _ _ _ "[]"] fgets_def cron_start_pam_def)
  have "cw_cwd_ok joe_world" "Option ?g = opt_delete" "delete_cmd good_sys ?g (cw_answer joe_world) ?s =
      Some (Some (poke_daemon good_sys (remove_file ''/s/joe'' (clog ''joe'' ''DELETE'' ''joe'' ?s))))"
    by (simp_all add: delete_cmd_def joe_glob_def good_sys_paths clog_def joe_world_def) (simp add: good_sys_def)
  then obtain s' where s': "crontab_program good_sys good_edit no_selinux (\<lambda>_. None) (Some sample_pw) [] (\<lambda>_. None) True True joe_world
      False [(CHR ''r'', [])] [] ?s = Some (0, s')" "files s' ''/s/joe'' = None"
    using al pa by (simp add: crontab_program_def crontab_main_def poke_daemon_def remove_file_def)
  have tmpl: "glue_strings MAX_FNAME (tmp_path good_sys (ed_tmpdir good_edit)) ''crontab.XXXXXXXXXX'' CHR ''/'' = Some ''/tmp/crontab.XXXXXXXXXX''"
    by (simp add: tmp_path_def good_sys_def good_edit_def glue_strings_spec glued_def macro_defs)
  have t: "temps_fresh good_sys good_edit ?s ''/s/joe''"
    unfolding temps_fresh_def fresh_temp_def tmpl by (simp add: good_sys_def good_edit_def)
  from unprivileged_program[OF s'(1) _ _ t] s' show ?thesis by (auto simp: joe_world_def empty_cstate_def)
qed

end
