(* ===== verification/CronCommand.thy ===== *)
theory CronCommand
  imports CronAccess CronUser
begin

text \<open>
  \<open>cronie-1.4.6/src/do_command.c\<close> and \<open>popen.c\<close>: running a job. The processes of one job (the child that reads the
  output and mails it, the grandchild that runs the command, the process that feeds its input) are
  one function, \<open>child_process\<close>, whose result says what was executed, what was written to its input,
  what was mailed and what was logged. What the command prints and the results of \<open>pipe\<close>, \<open>fork\<close> and
  the mailer are fields of the record \<open>jobworld\<close>.
\<close>

section \<open>The command and its input\<close>

text \<open>
  The loop that splits a command at the first \<open>%\<close> without a backslash, in place: the first result is what is
  written below \<open>p\<close>, the second where \<open>input_data\<close> points. A backslash before a \<open>%\<close> goes.
\<close>

fun split_loop :: "bool \<Rightarrow> string \<Rightarrow> string \<Rightarrow> string \<times> string" where
  "split_loop escaped p [] = (p, [])"
| "split_loop escaped p (ch # s) =
     (if escaped then split_loop False (if ch = CHR ''%'' then butlast p @ [ch] else p @ [ch]) s
      else if ch = CHR 0x5C then split_loop True (p @ [ch]) s
      else if ch = CHR ''%'' then (p, s)
      else split_loop False (p @ [ch]) s)"

definition split_cmd :: "string \<Rightarrow> string \<times> string" where
  "split_cmd s = split_loop False [] s"

text \<open>What is written to the standard input: \<open>%\<close> becomes a newline, \<open>\%\<close> a \<open>%\<close>; a missing last newline is added.\<close>

fun feed_loop :: "bool \<Rightarrow> bool \<Rightarrow> string \<Rightarrow> string" where
  "feed_loop escaped need_newline [] =
     (if escaped then [CHR 0x5C] else []) @ (if need_newline then [NL] else [])"
| "feed_loop escaped need_newline (ch0 # s) =
     (let pre = (if escaped \<and> ch0 \<noteq> CHR ''%'' then [CHR 0x5C] else []);
          ch = (if \<not> escaped \<and> ch0 = CHR ''%'' then NL else ch0)
      in if ch = CHR 0x5C then pre @ feed_loop True need_newline s
         else pre @ ch # feed_loop False (ch \<noteq> NL) s)"

definition feed_input :: "string \<Rightarrow> string" where
  "feed_input s = feed_loop False False s"

definition MkUpper :: "char \<Rightarrow> char" where
  "MkUpper c = (if c_islower c then char_of (ord_char c - 32) else c)"

section \<open>Addresses\<close>

definition safe_delim :: string where
  "safe_delim = ''@!:%-.,_+''"

fun safe_chars :: "bool \<Rightarrow> string \<Rightarrow> bool" where
  "safe_chars first [] = True"
| "safe_chars first (ch # t) \<longleftrightarrow>
     c_isascii ch \<and> c_isprint ch \<and> (c_isalnum ch \<or> (\<not> first \<and> strchr safe_delim ch)) \<and> safe_chars False t"

definition safe_p :: "string \<Rightarrow> string \<Rightarrow> ctx \<Rightarrow> bool \<times> ctx" where
  "safe_p usernm s c = (if safe_chars True s then (True, c) else (False, log_msg usernm ''UNSAFE'' s c))"

section \<open>Pipes to programs\<close>

definition MAX_ARGS :: nat where [macro_defs]: "MAX_ARGS = 1024"

definition blank_char :: "char \<Rightarrow> bool" where
  "blank_char c \<longleftrightarrow> c = SP \<or> c = TAB \<or> c = NL"

text \<open>One call of \<open>strtok\<close>: the token and what is left.\<close>

definition strtok :: "string \<Rightarrow> string option \<times> string" where
  "strtok s =
     (let t = dropWhile blank_char s in
      if t = [] then (None, [])
      else (Some (takeWhile (\<lambda>c. \<not> blank_char c) t), drop 1 (dropWhile (\<lambda>c. \<not> blank_char c) t)))"

text \<open>The loop that fills \<open>argv\<close>: room for \<open>n\<close> more pointers.\<close>

fun argv_loop :: "nat \<Rightarrow> string \<Rightarrow> string option list" where
  "argv_loop 0 s = []"
| "argv_loop (Suc n) s = (case strtok s of (None, _) \<Rightarrow> [None] | (Some w, r) \<Rightarrow> Some w # argv_loop n r)"

text \<open>The program and its arguments, given to \<open>execvp\<close>; \<^const>\<open>None\<close> when the array is not terminated.\<close>

definition popen_argv :: "string \<Rightarrow> string list option" where
  "popen_argv program =
     (let argv = argv_loop MAX_ARGS program in
      if argv \<noteq> [] \<and> last argv = None then Some (map the (butlast argv)) else None)"

text \<open>
  \<open>pids\<close> maps descriptors to processes. The arguments are the results of \<open>getdtablesize\<close> and \<open>malloc\<close> (when the
  table does not exist yet), \<open>pipe\<close>, \<open>fork\<close> and the descriptor of the stream.
\<close>

type_synonym ptable = "(nat \<Rightarrow> nat) option"

definition cron_popen ::
  "bool \<Rightarrow> bool \<Rightarrow> nat option \<Rightarrow> nat \<Rightarrow> string \<Rightarrow> string \<Rightarrow> ptable \<Rightarrow> (nat \<times> string list option) option \<times> ptable" where
  "cron_popen table_ok pipe_ok fork_pid fdes program type pids =
     (if type \<noteq> ''r'' \<and> type \<noteq> ''w'' then (None, pids)
      else if pids = None \<and> \<not> table_ok then (None, pids)
      else
        let t = (case pids of None \<Rightarrow> (\<lambda>_. 0) | Some t \<Rightarrow> t) in
        if \<not> pipe_ok then (None, Some t)
        else case fork_pid of
          None \<Rightarrow> (None, Some t)
        | Some pid \<Rightarrow> (Some (fdes, popen_argv program), Some (t(fdes := pid))))"

text \<open>The loop over \<open>wait\<close>: pairs of a process and its exit status, \<^const>\<open>None\<close> for an error; the result of
  \<open>cron_pclose\<close> is \<open>-1\<close> then. The outer \<^const>\<open>None\<close>: no more results are given.\<close>

fun pclose_wait :: "nat \<Rightarrow> (nat \<times> int) option list \<Rightarrow> int option" where
  "pclose_wait pid [] = None"
| "pclose_wait pid (w # ws) =
     (case w of None \<Rightarrow> Some (-1) | Some (p, st) \<Rightarrow> if p = pid then Some st else pclose_wait pid ws)"

definition cron_pclose :: "nat \<Rightarrow> (nat \<times> int) option list \<Rightarrow> ptable \<Rightarrow> (int \<times> ptable) option" where
  "cron_pclose fdes ws pids =
     (case pids of
        None \<Rightarrow> Some (-1, pids)
      | Some t \<Rightarrow>
          if t fdes = 0 then Some (-1, pids)
          else map_option (\<lambda>st. (st, Some (t(fdes := 0)))) (pclose_wait (t fdes) ws))"

section \<open>The mail\<close>

record jobworld =
  jw_output :: string
  jw_pipe1 :: bool
  jw_pipe2 :: bool
  jw_fork :: bool
  jw_fork_input :: bool
  jw_hostname :: string
  jw_charset :: string
  jw_mailarg :: string
  jw_mailcmd :: string
  jw_table :: bool
  jw_mailpipe :: bool
  jw_mailpid :: "nat option"
  jw_mailfd :: nat
  jw_waits :: "(nat \<times> int) option list"
  jw_syslog :: bool
  jw_words :: word_bufs

text \<open>Newlines in the headers a user sets become blanks.\<close>

definition no_newlines :: "string \<Rightarrow> string" where
  "no_newlines s = map (\<lambda>c. if c = NL then SP else c) s"

definition mail_headers :: "jobworld \<Rightarrow> string \<Rightarrow> string \<Rightarrow> string \<Rightarrow> string \<Rightarrow> env \<Rightarrow> string list" where
  "mail_headers w mailfrom mailto usernm cm jobenv =
     [''From: '' @ mailfrom @ '' (Cron Daemon)'',
      ''To: '' @ mailto,
      ''Subject: Cron <'' @ usernm @ ''@'' @ fst (first_word (jw_words w) (jw_hostname w) ''.'') @ ''> '' @ cm,
      (case env_get ''CONTENT_TYPE'' jobenv of
         None \<Rightarrow> ''Content-Type: text/plain; charset='' @ jw_charset w
       | Some ct \<Rightarrow> ''Content-Type: '' @ no_newlines ct)] @
     (case env_get ''CONTENT_TRANSFER_ENCODING'' jobenv of
        None \<Rightarrow> []
      | Some te \<Rightarrow> [''Content-Transfer-Encoding: '' @ no_newlines te]) @
     [''Auto-Submitted: auto-generated''] @
     map (\<lambda>v. ''X-Cron-Env: <'' @ v @ ''>'') jobenv"

definition mail_text :: "string list \<Rightarrow> string \<Rightarrow> string" where
  "mail_text hs body = concat (map (\<lambda>h. h @ [NL]) hs) @ NL # body"

definition MAILFMT :: string where
  "MAILFMT = ''%s -FCronDaemon -i -odi -oem -oi -t -f %s''"

text \<open>The command line of the mailer; \<^const>\<open>None\<close> when it is too long.\<close>

definition mail_command :: "jobworld \<Rightarrow> string \<Rightarrow> string option" where
  "mail_command w mailfrom =
     (if jw_mailcmd w = [] then
        if strlens [MAILFMT, jw_mailarg w, mailfrom] + 1 \<ge> MAX_COMMAND then None
        else Some (jw_mailarg w @ '' -FCronDaemon -i -odi -oem -oi -t -f '' @ mailfrom)
      else Some (jw_mailcmd w))"

text \<open>The sender: \<open>MAILFROM\<close> if set, not empty and safe, \<open>root\<close> otherwise.\<close>

definition mail_sender :: "string \<Rightarrow> string option \<Rightarrow> ctx \<Rightarrow> string \<times> ctx" where
  "mail_sender usernm mailfrom c =
     (case mailfrom of
        None \<Rightarrow> (''root'', c)
      | Some f \<Rightarrow>
          if f = [] then (''root'', c)
          else case safe_p usernm f c of (ok, c1) \<Rightarrow> (if ok then f else ''root'', c1))"

text \<open>The recipient: \<open>MAILTO\<close>, or the user when it is not set; nobody when it is set to the empty string.\<close>

definition mail_recipient :: "string \<Rightarrow> string option \<Rightarrow> string option" where
  "mail_recipient usernm mailto =
     (case mailto of None \<Rightarrow> Some usernm | Some t \<Rightarrow> if t = [] then None else Some t)"

section \<open>A job\<close>

record jobrun =
  jr_status :: int
  jr_exec :: "(string \<times> string \<times> env \<times> creds) option"
  jr_stdin :: "string option"
  jr_mail :: "(string list option \<times> string) option"
  jr_syslog :: "string list"
  jr_ctx :: ctx

text \<open>Whether the mail is to be sent, and to whom.\<close>

definition mail_wanted :: "jobworld \<Rightarrow> string \<Rightarrow> string option \<Rightarrow> ctx \<Rightarrow> string option \<times> ctx" where
  "mail_wanted w usernm mailto c =
     (case mailto of
        None \<Rightarrow> (None, c)
      | Some t \<Rightarrow> (case safe_p usernm t c of (ok, c1) \<Rightarrow> (if ok \<and> jw_mailcmd w \<noteq> ''off'' then Some t else None, c1)))"

text \<open>\<open>%04x\<close> of an \<open>int\<close>.\<close>

definition hex_digit :: "nat \<Rightarrow> char" where
  "hex_digit n = char_of (if n < 10 then n + 48 else n + 87)"

fun hex :: "nat \<Rightarrow> string" where
  "hex n = (if n < 16 then [hex_digit n] else hex (n div 16) @ [hex_digit (n mod 16)])"

declare hex.simps [simp del]

definition hex4 :: "int \<Rightarrow> string" where
  "hex4 x = (let h = hex (nat (x mod 2 ^ 32)) in replicate (4 - length h) CHR ''0'' @ h)"

definition bytes_msg :: "nat \<Rightarrow> int \<Rightarrow> string" where
  "bytes_msg n st =
     ''mailed '' @ dec n @ '' byte'' @ (if n = 1 then [] else ''s'') @ '' of output but got status 0x'' @ hex4 st @ [NL]"

text \<open>
  The output of the command is read, mailed, and, with option \<open>-s\<close>, logged. The block that collects the lines
  for the log stands behind the loop that reads the output, so that it only ever sees the first
  character and the end of file (\<open>(char) EOF\<close>). \<open>jr_status\<close> is 1 for \<open>_exit (ERROR_EXIT)\<close>; \<^const>\<open>None\<close> when
  \<open>cron_pclose\<close> waits for ever.
\<close>

definition syslog_output :: "jobworld \<Rightarrow> char \<Rightarrow> string list" where
  "syslog_output w ch = (if jw_syslog w then [(if ch \<noteq> NL then [ch] else []) @ [CHR 0xFF]] else [])"

text \<open>The mail: the pipe to the mailer is opened, written and closed.\<close>

definition send_mail :: "jobworld \<Rightarrow> entry \<Rightarrow> string \<Rightarrow> env \<Rightarrow> string \<Rightarrow> string \<Rightarrow> jobrun \<Rightarrow> jobrun option" where
  "send_mail w e cm jobenv mailfrom to r =
     (case mail_command w mailfrom of
        None \<Rightarrow> Some (r\<lparr>jr_status := 1\<rparr>)
      | Some mailcmd \<Rightarrow>
          (case cron_popen (jw_table w) (jw_mailpipe w) (jw_mailpid w) (jw_mailfd w) mailcmd ''w'' None of
             (None, _) \<Rightarrow> Some (r\<lparr>jr_status := 1\<rparr>)
           | (Some (fdes, argv), pids) \<Rightarrow>
               (case cron_pclose fdes (jw_waits w) pids of
                  None \<Rightarrow> None
                | Some (st, _) \<Rightarrow>
                    (let usernm = pw_name (pwd e);
                         c1 = (if st \<noteq> 0 then log_msg usernm ''MAIL'' (bytes_msg (length (jw_output w)) st) (jr_ctx r)
                               else jr_ctx r)
                     in Some (r\<lparr>jr_mail := Some (argv, mail_text (mail_headers w mailfrom to usernm cm jobenv) (jw_output w)),
                                jr_syslog := syslog_output w (hd (jw_output w)), jr_ctx := c1\<rparr>)))))"

definition handle_output :: "jobworld \<Rightarrow> entry \<Rightarrow> string \<Rightarrow> env \<Rightarrow> jobrun \<Rightarrow> jobrun option" where
  "handle_output w e cm jobenv r =
     (case jw_output w of
        [] \<Rightarrow> Some r
      | ch # _ \<Rightarrow>
          (let usernm = pw_name (pwd e) in
           case mail_sender usernm (env_get ''MAILFROM'' (envp e)) (jr_ctx r) of
             (mailfrom, c1) \<Rightarrow>
               (case mail_wanted w usernm (mail_recipient usernm (env_get ''MAILTO'' jobenv)) c1 of
                  (None, c2) \<Rightarrow> Some (r\<lparr>jr_ctx := c2, jr_syslog := syslog_output w ch\<rparr>)
                | (Some to, c2) \<Rightarrow> send_mail w e cm jobenv mailfrom to (r\<lparr>jr_ctx := c2\<rparr>))))"

text \<open>Both processes that act for the user give up the privileges for good, in the home directory; \<open>HOME\<close> unset is a
  failing \<open>chdir (NULL)\<close>.\<close>

definition give_up :: "(string \<Rightarrow> bool) \<Rightarrow> entry \<Rightarrow> env \<Rightarrow> creds \<Rightarrow> ctx \<Rightarrow> creds option \<times> ctx" where
  "give_up sys e jobenv cr c =
     (case (case env_get ''HOME'' jobenv of
              None \<Rightarrow> cron_change_user_permanently (\<lambda>f. f \<noteq> ''chdir'' \<and> sys f) c (pwd e) ''(null)'' cr
            | Some home \<Rightarrow> cron_change_user_permanently sys c (pwd e) home cr) of
        (st, c1, cr1) \<Rightarrow> (if st < 0 then None else Some cr1, c1))"

text \<open>The grandchild: gives up the privileges, logs the command and becomes the shell.\<close>

definition run_command ::
  "(string \<Rightarrow> bool) \<Rightarrow> entry \<Rightarrow> string \<Rightarrow> env \<Rightarrow> creds \<Rightarrow> ctx \<Rightarrow> (string \<times> string \<times> env \<times> creds) option \<times> ctx" where
  "run_command sys e cm jobenv cr c =
     (case give_up sys e jobenv cr c of
        (None, c1) \<Rightarrow> (None, c1)
      | (Some cr1, c1) \<Rightarrow>
          (let c3 = (if flags e AND DONT_LOG = 0
                     then (case mkprints c1 cm of (x, c2) \<Rightarrow> log_msg (pw_name (pwd e)) ''CMD'' (name_or_null x) c2) else c1) in
           case env_get ''SHELL'' jobenv of
             None \<Rightarrow> (None, c3)
           | Some shell \<Rightarrow> (Some (shell, cm, jobenv, cr1), c3)))"

text \<open>The process that writes the input.\<close>

definition feeder :: "(string \<Rightarrow> bool) \<Rightarrow> jobworld \<Rightarrow> entry \<Rightarrow> string \<Rightarrow> env \<Rightarrow> creds \<Rightarrow> ctx \<Rightarrow> string option \<times> ctx" where
  "feeder sys w e input_data jobenv cr c =
     (if input_data \<noteq> [] \<and> jw_fork_input w then
        (case give_up sys e jobenv cr c of
           (None, c1) \<Rightarrow> (None, c1)
         | (Some _, c1) \<Rightarrow> (Some (feed_input input_data), c1))
      else (None, c))"

definition child_process ::
  "selinux \<Rightarrow> pam \<Rightarrow> (string \<Rightarrow> bool) \<Rightarrow> (int \<Rightarrow> nat \<times> nat) \<Rightarrow> int \<Rightarrow> int \<Rightarrow> jobworld \<Rightarrow> ctx \<Rightarrow> entry \<Rightarrow> user \<Rightarrow> creds \<Rightarrow>
     jobrun option" where
  "child_process se p sys ltime t0 t1 w c e u cr =
     (let res = (\<lambda>st c. \<lparr>jr_status = st, jr_exec = None, jr_stdin = None, jr_mail = None, jr_syslog = [], jr_ctx = c\<rparr>) in
      case cron_set_job_security_context se p sys ltime t0 t1 c e u cr of
        None \<Rightarrow> None
      | Some (js, c1) \<Rightarrow>
          if js_status js \<noteq> 0 then Some (res 1 c1)
          else case js_env js of
            None \<Rightarrow> None
          | Some jobenv \<Rightarrow>
              if \<not> jw_pipe1 w then Some (res 0 (log_msg ''CRON'' ''PIPE() FAILED'' ''stdin_pipe'' c1))
              else if \<not> jw_pipe2 w then Some (res 0 (log_msg ''CRON'' ''PIPE() FAILED'' ''stdout_pipe'' c1))
              else
                (case split_cmd (cmd e) of
                   (command, input_data) \<Rightarrow>
                     if \<not> jw_fork w then Some (res 1 (log_msg ''CRON'' ''CAN'T FORK'' ''child_process'' c1))
                     else
                       (case run_command sys e command jobenv (js_creds js) c1 of
                          (ex, c2) \<Rightarrow>
                            (case feeder sys w e input_data jobenv (js_creds js) c2 of
                               (inp, c3) \<Rightarrow>
                                 handle_output w e command jobenv ((res 0 c3)\<lparr>jr_exec := ex, jr_stdin := inp\<rparr>)))))"

text \<open>\<open>do_command\<close>: the daemon returns at once with its context; the child gives up the descriptor of the lock
  and runs the job.\<close>

definition do_command ::
  "bool \<Rightarrow> selinux \<Rightarrow> pam \<Rightarrow> (string \<Rightarrow> bool) \<Rightarrow> (int \<Rightarrow> nat \<times> nat) \<Rightarrow> int \<Rightarrow> int \<Rightarrow> jobworld \<Rightarrow> string \<Rightarrow> locksys \<Rightarrow>
     ctx \<Rightarrow> pidlock \<Rightarrow> entry \<Rightarrow> user \<Rightarrow> creds \<Rightarrow> ctx \<times> (pidlock option \<times> jobrun option) option" where
  "do_command fork_ok se p sys ltime t0 t1 w pidfile ls c pl e u cr =
     (if \<not> fork_ok then (log_msg ''CRON'' ''CAN'T FORK'' ''do_command'' c, None)
      else case acquire_daemonlock pidfile ls True c pl of
        (pl1, c1) \<Rightarrow> (c, Some (pl1, child_process se p sys ltime t0 t1 w c1 e u cr)))"

end
