(* ===== verification/CommandProps.thy ===== *)
theory CommandProps
  imports CronCommand DaemonProps
begin

text \<open>
  The properties of running a job: what is executed and as whom, what it reads, and what is mailed.
\<close>

section \<open>Command and input\<close>

text \<open>How a crontab writes a command and lines of input: percent signs escaped, lines separated by them.\<close>

definition esc :: "string \<Rightarrow> string" where
  "esc s = concat (map (\<lambda>c. if c = CHR ''%'' then [CHR 0x5C, c] else [c]) s)"

fun input_text :: "string list \<Rightarrow> string" where
  "input_text [] = []"
| "input_text [l] = esc l"
| "input_text (l # ls) = esc l @ CHR ''%'' # input_text ls"

definition plain :: "string \<Rightarrow> bool" where
  "plain s \<longleftrightarrow> CHR 0x5C \<notin> set s \<and> NL \<notin> set s"

lemma split_loop_esc:
  "CHR 0x5C \<notin> set a \<Longrightarrow> split_loop False p (esc a @ s) = split_loop False (p @ a) s"
  by (induction a arbitrary: p) (auto simp: esc_def)

lemma feed_loop_esc:
  "plain a \<Longrightarrow> feed_loop False nn (esc a @ s) = a @ feed_loop False (if a = [] then nn else True) s"
  by (induction a arbitrary: nn) (auto simp: esc_def plain_def)

lemma feed_loop_lines:
  "ls \<noteq> [] \<Longrightarrow> last ls \<noteq> [] \<Longrightarrow> list_all plain ls \<Longrightarrow>
     feed_loop False nn (input_text ls) = concat (map (\<lambda>l. l @ [NL]) ls)"
proof (induction ls arbitrary: nn rule: input_text.induct)
  case (2 l)
  then show ?case using feed_loop_esc[of l nn "[]"] by simp
next
  case (3 l l' ls)
  then show ?case using feed_loop_esc[of l nn "CHR ''%'' # input_text (l' # ls)"] by (simp add: Let_def)
qed simp

text \<open>C20. A command and the lines of its input survive the way through the crontab: written with percent signs escaped
  and lines separated by percent signs, the text splits into exactly the command, and the standard
  input gets exactly the lines.\<close>

theorem command_input_roundtrip:
  assumes "CHR 0x5C \<notin> set a" and "list_all plain ls" and "ls \<noteq> []" and "last ls \<noteq> []"
  shows "split_cmd (esc a) = (a, []) \<and> split_cmd (esc a @ CHR ''%'' # input_text ls) = (a, input_text ls)
    \<and> feed_input (input_text ls) = concat (map (\<lambda>l. l @ [NL]) ls)"
  using split_loop_esc[OF assms(1), of "[]" "[]"] split_loop_esc[OF assms(1), of "[]" "CHR ''%'' # input_text ls"]
    feed_loop_lines[OF assms(3,4,2), of False]
  by (simp add: split_cmd_def feed_input_def)

theorem command_input_roundtrip_witness:
  "split_cmd (''date +'' @ CHR 0x5C # ''%d%one%two'') = (''date +%d'', ''one%two'')
   \<and> feed_input ''one%two'' = ''one'' @ NL # ''two'' @ [NL]"
proof -
  have e: "esc ''date +%d'' = ''date +'' @ CHR 0x5C # ''%d''" "input_text [''one'', ''two''] = ''one%two''" by code_simp+
  have p: "CHR 0x5C \<notin> set ''date +%d''" "list_all plain [''one'', ''two'']" by (simp_all add: plain_def)
  from command_input_roundtrip[OF p] e show ?thesis by simp
qed

section \<open>Who runs it\<close>

lemma give_up_ok:
  assumes "give_up sys e jobenv cr c = (Some cr1, c1)"
  shows "\<exists>home. env_get ''HOME'' jobenv = Some home
    \<and> cr1 = cr\<lparr>c_ruid := pw_uid (pwd e), c_euid := pw_uid (pwd e), c_cwd := home\<rparr> \<and> c1 = c"
  using assms
  by (auto simp: give_up_def cron_change_user_permanently_def Let_def split: option.splits if_splits prod.splits)

lemma run_command_exec:
  assumes "run_command sys e cm jobenv cr c = (Some (sh, cm', ev, cr1), c1)"
  shows "cm' = cm \<and> ev = jobenv \<and> env_get ''SHELL'' jobenv = Some sh
    \<and> (\<exists>home. env_get ''HOME'' jobenv = Some home
        \<and> cr1 = cr\<lparr>c_ruid := pw_uid (pwd e), c_euid := pw_uid (pwd e), c_cwd := home\<rparr>)"
  using assms give_up_ok
  by (fastforce simp: run_command_def Let_def split: option.splits prod.splits)

lemma send_mail_cases:
  assumes "send_mail w e cm jobenv mailfrom to r = Some r'"
  obtains "r' = r\<lparr>jr_status := 1\<rparr>"
  | line where "mail_command w mailfrom = Some line" and "jr_exec r' = jr_exec r" and "jr_status r' = jr_status r"
    and "jr_mail r' = Some (popen_argv line, mail_text (mail_headers w mailfrom to (pw_name (pwd e)) cm jobenv) (jw_output w))"
    and "jr_syslog r' = syslog_output w (hd (jw_output w))"
  using assms by (auto simp: send_mail_def cron_popen_def Let_def split: option.splits prod.splits if_splits)

lemma handle_output_exec: "handle_output w e cm jobenv r = Some r' \<Longrightarrow> jr_exec r' = jr_exec r"
  by (auto simp: handle_output_def Let_def elim: send_mail_cases split: list.splits prod.splits option.splits)

lemma pclose_wait_returns: "Some (pid, st) \<in> set ws \<Longrightarrow> pclose_wait pid ws \<noteq> None"
  by (induction ws) (auto split: option.splits)

lemma handle_output_returns:
  assumes "jw_mailpid w = Some pid" and "Some (pid, st) \<in> set (jw_waits w)"
  obtains r' where "handle_output w e cm jobenv r = Some r'"
proof -
  have "send_mail w e cm jobenv mailfrom to r \<noteq> None" for mailfrom to r
    using pclose_wait_returns[OF assms(2)] assms(1)
    by (auto simp: send_mail_def cron_popen_def cron_pclose_def Let_def split: option.splits prod.splits if_splits)
  then have "handle_output w e cm jobenv r \<noteq> None"
    by (simp add: handle_output_def Let_def split: list.splits prod.splits option.splits)
  then show ?thesis using that by blast
qed

text \<open>C19. A command is executed only as the owner of its entry: real and effective user id, group and
  supplementary groups are the owner's, PAM has authorized it; the program is the \<open>SHELL\<close> and the directory the
  \<open>HOME\<close> of the job's environment, and the command is the entry's up to the first unescaped percent sign.\<close>

theorem job_runs_as_owner:
  assumes "child_process se p sys ltime t0 t1 w c e u cr = Some r" and "jr_exec r = Some (sh, cm, ev, cr')"
  shows "c_ruid cr' = pw_uid (pwd e) \<and> c_euid cr' = pw_uid (pwd e) \<and> c_gid cr' = pw_gid (pwd e)
    \<and> c_groups cr' = (pw_name (pwd e), pw_gid (pwd e)) \<and> cron_start_pam p (pwd e) = 0
    \<and> env_get ''SHELL'' ev = Some sh \<and> env_get ''HOME'' ev = Some (c_cwd cr') \<and> cm = fst (split_cmd (cmd e))"
proof -
  obtain js c1 where js: "cron_set_job_security_context se p sys ltime t0 t1 c e u cr = Some (js, c1)" "js_status js = 0"
    using assms by (auto simp: child_process_def Let_def split: option.splits if_splits prod.splits)
  obtain jobenv c2 where jc: "run_command sys e (fst (split_cmd (cmd e))) jobenv (js_creds js) c1 = (Some (sh, cm, ev, cr'), c2)"
    using assms js
    by (auto simp: child_process_def Let_def dest!: handle_output_exec split: option.splits if_splits prod.splits)
  show ?thesis using job_security_ok[OF js] run_command_exec[OF jc] by auto
qed

definition sample_job :: entry where
  "sample_job = \<lparr>pwd = sample_pw, envp = [''SHELL=/bin/sh'', ''HOME=/home/joe''], cmd = ''date%x'', tbits = replicate tbits_size 255, flags = 0\<rparr>"

definition sample_jobworld :: jobworld where
  "sample_jobworld = \<lparr>jw_output = ''out'', jw_pipe1 = True, jw_pipe2 = True, jw_fork = True, jw_fork_input = True, jw_hostname = ''h.x'',
     jw_charset = ''C'', jw_mailarg = ''/usr/sbin/sendmail'', jw_mailcmd = [], jw_table = True, jw_mailpipe = True, jw_mailpid = Some 7, jw_mailfd = 5, jw_waits = [Some (6, 1), Some (7, 0)], jw_syslog = True,
     jw_words = (False, [], [])\<rparr>"

lemma sample_child:
  "\<exists>r. child_process no_selinux sample_pam (\<lambda>_. True) (\<lambda>_. (0, 0)) 60 61 sample_jobworld ctx0 sample_job (snd (hd sample_db)) root_creds = Some r
     \<and> jr_exec r = Some (''/bin/sh'', ''date'', [''SHELL=/bin/sh'', ''HOME=/home/joe''],
         root_creds\<lparr>c_ruid := 1000, c_euid := 1000, c_gid := 100, c_groups := (''joe'', 100), c_cwd := ''/home/joe''\<rparr>)"
proof -
  let ?S = "cron_set_job_security_context no_selinux sample_pam (\<lambda>_. True) (\<lambda>_. (0, 0)) 60 61 ctx0 sample_job (snd (hd sample_db)) root_creds"
  have "map_option (\<lambda>(js, c). (js_status js, js_env js, js_creds js)) ?S = Some (0, Some [''SHELL=/bin/sh'', ''HOME=/home/joe''],
      root_creds\<lparr>c_ruid := 1000, c_gid := 100, c_groups := (''joe'', 100)\<rparr>)"
    by code_simp
  then obtain js c1 where js: "?S = Some (js, c1)" "js_status js = 0" "js_env js = Some [''SHELL=/bin/sh'', ''HOME=/home/joe'']"
      "js_creds js = root_creds\<lparr>c_ruid := 1000, c_gid := 100, c_groups := (''joe'', 100)\<rparr>"
    by auto
  have sp: "split_cmd (cmd sample_job) = (''date'', ''x'')" by code_simp
  have gu: "give_up (\<lambda>_. True) sample_job [''SHELL=/bin/sh'', ''HOME=/home/joe''] cr c =
      (Some (cr\<lparr>c_ruid := 1000, c_euid := 1000, c_cwd := ''/home/joe''\<rparr>), c)" for cr c
  proof -
    have "env_get ''HOME'' [''SHELL=/bin/sh'', ''HOME=/home/joe''] = Some ''/home/joe''" by code_simp
    then show ?thesis by (simp add: give_up_def cron_change_user_permanently_def sample_job_def sample_pw_def)
  qed
  have sh: "env_get ''SHELL'' [''SHELL=/bin/sh'', ''HOME=/home/joe''] = Some ''/bin/sh''" by code_simp
  obtain c2 where rc: "run_command (\<lambda>_. True) sample_job ''date'' [''SHELL=/bin/sh'', ''HOME=/home/joe''] (js_creds js) c1 =
      (Some (''/bin/sh'', ''date'', [''SHELL=/bin/sh'', ''HOME=/home/joe''],
         root_creds\<lparr>c_ruid := 1000, c_euid := 1000, c_gid := 100, c_groups := (''joe'', 100), c_cwd := ''/home/joe''\<rparr>), c2)"
    by (simp add: run_command_def gu sh js(4) Let_def)
  obtain i c3 where fe: "feeder (\<lambda>_. True) sample_jobworld sample_job ''x'' [''SHELL=/bin/sh'', ''HOME=/home/joe''] (js_creds js) c2 = (i, c3)"
    by fastforce
  have w: "jw_pipe1 sample_jobworld" "jw_pipe2 sample_jobworld" "jw_fork sample_jobworld" by (simp_all add: sample_jobworld_def)
  let ?r = "\<lparr>jr_status = 0, jr_exec = Some (''/bin/sh'', ''date'', [''SHELL=/bin/sh'', ''HOME=/home/joe''],
      root_creds\<lparr>c_ruid := 1000, c_euid := 1000, c_gid := 100, c_groups := (''joe'', 100), c_cwd := ''/home/joe''\<rparr>),
      jr_stdin = i, jr_mail = None, jr_syslog = [], jr_ctx = c3\<rparr>"
  obtain r' where r': "handle_output sample_jobworld sample_job ''date'' [''SHELL=/bin/sh'', ''HOME=/home/joe''] ?r = Some r'"
    by (rule handle_output_returns[of sample_jobworld 7 0]) (simp_all add: sample_jobworld_def)
  have "child_process no_selinux sample_pam (\<lambda>_. True) (\<lambda>_. (0, 0)) 60 61 sample_jobworld ctx0 sample_job (snd (hd sample_db)) root_creds
      = Some r'"
    unfolding child_process_def Let_def js(1) option.case prod.case js(2,3) sp rc fe
    by (simp add: w rc fe r')
  then show ?thesis using handle_output_exec[OF r'] by simp
qed

theorem job_runs_as_owner_witness:
  "\<exists>r sh cm ev cr'. child_process no_selinux sample_pam (\<lambda>_. True) (\<lambda>_. (0, 0)) 60 61 sample_jobworld ctx0 sample_job (snd (hd sample_db)) root_creds = Some r
     \<and> jr_exec r = Some (sh, cm, ev, cr') \<and> c_euid cr' = 1000 \<and> c_gid cr' = 100 \<and> cm = ''date''"
proof -
  obtain r sh cm ev cr' where r: "child_process no_selinux sample_pam (\<lambda>_. True) (\<lambda>_. (0, 0)) 60 61 sample_jobworld ctx0 sample_job
      (snd (hd sample_db)) root_creds = Some r" "jr_exec r = Some (sh, cm, ev, cr')"
    using sample_child by blast
  have "fst (split_cmd (cmd sample_job)) = ''date''" by code_simp
  with job_runs_as_owner[OF r] r show ?thesis by (simp add: sample_job_def sample_pw_def)
qed

section \<open>The mail\<close>

lemma safe_chars_props:
  assumes "safe_chars b s" and "c \<in> set s"
  shows "\<not> blank_char c" "c \<noteq> NL" "c \<noteq> NUL"
proof -
  have "c_isprint c" "c_isalnum c \<or> strchr safe_delim c" using assms by (induction b s rule: safe_chars.induct) auto
  moreover have "c \<noteq> SP" using calculation by (auto simp: ctype_simps ord_char_def strchr_def safe_delim_def)
  ultimately show "\<not> blank_char c" "c \<noteq> NL" "c \<noteq> NUL"
    by (auto simp: blank_char_def ctype_simps ord_char_def)
qed

lemma argv_loop_word:
  assumes "w \<noteq> []" and "\<forall>c \<in> set w. \<not> blank_char c" and "blank_char b"
  shows "argv_loop (Suc n) (w @ b # s) = Some w # argv_loop n s" "argv_loop (Suc (Suc n)) w = [Some w, None]"
proof -
  obtain c v where w: "w = c # v" using assms(1) by (cases w) auto
  have d: "dropWhile blank_char (w @ t) = w @ t" for t using assms(2) w by simp
  have t: "takeWhile (\<lambda>c. \<not> blank_char c) (w @ b # s) = w" "dropWhile (\<lambda>c. \<not> blank_char c) (w @ b # s) = b # s"
    using assms(2,3) by (simp_all add: takeWhile_append2 dropWhile_append2)
  show "argv_loop (Suc n) (w @ b # s) = Some w # argv_loop n s"
    using assms(1) t by (simp add: strtok_def d)
  have "takeWhile (\<lambda>c. \<not> blank_char c) w = w" "dropWhile (\<lambda>c. \<not> blank_char c) w = []" "dropWhile blank_char w = w"
    using assms(2) d[of "[]"] by (auto simp: takeWhile_eq_all_conv dropWhile_eq_Nil_conv)
  then show "argv_loop (Suc (Suc n)) w = [Some w, None]"
    using assms(1) by (simp add: strtok_def Let_def del: dropWhile_eq_Nil_conv)
qed

lemma mail_sender_safe:
  assumes "mail_sender usernm mf c = (f, c')"
  shows "f \<noteq> [] \<and> safe_chars True f"
proof -
  have "safe_chars True ''root''" by code_simp
  then show ?thesis
    using assms by (auto simp: mail_sender_def safe_p_def split: option.splits if_splits)
qed

lemma mailer_words:
  assumes "prog \<noteq> []" and "\<forall>c \<in> set prog. \<not> blank_char c" and "f \<noteq> []" and "\<forall>c \<in> set f. \<not> blank_char c"
  shows "popen_argv (prog @ '' -FCronDaemon -i -odi -oem -oi -t -f '' @ f) =
    Some [prog, ''-FCronDaemon'', ''-i'', ''-odi'', ''-oem'', ''-oi'', ''-t'', ''-f'', f]"
proof -
  have b: "blank_char SP" by (simp add: blank_char_def)
  have w: "x \<noteq> [] \<Longrightarrow> list_all (\<lambda>c. \<not> blank_char c) x \<Longrightarrow> argv_loop (Suc n) (x @ SP # s) = Some x # argv_loop n s" for x n s
    using argv_loop_word(1)[OF _ _ b] by (simp add: list_all_iff)
  have bl: "list_all (\<lambda>c. \<not> blank_char c) ''-FCronDaemon''" "list_all (\<lambda>c. \<not> blank_char c) ''-i''" "list_all (\<lambda>c. \<not> blank_char c) ''-odi''"
    "list_all (\<lambda>c. \<not> blank_char c) ''-oem''" "list_all (\<lambda>c. \<not> blank_char c) ''-oi''" "list_all (\<lambda>c. \<not> blank_char c) ''-t''"
    "list_all (\<lambda>c. \<not> blank_char c) ''-f''" "list_all (\<lambda>c. \<not> blank_char c) prog"
    using assms(2) by (simp_all add: blank_char_def list_all_iff)
  obtain n where n: "MAX_ARGS = Suc (Suc (Suc (Suc (Suc (Suc (Suc (Suc (Suc (Suc n)))))))))"
    using that[of 1014] by (simp add: macro_defs)
  have tx: "prog @ '' -FCronDaemon -i -odi -oem -oi -t -f '' @ f =
      prog @ SP # ''-FCronDaemon'' @ SP # ''-i'' @ SP # ''-odi'' @ SP # ''-oem'' @ SP # ''-oi'' @ SP # ''-t'' @ SP # ''-f'' @ SP # f"
    by simp
  have "argv_loop MAX_ARGS (prog @ '' -FCronDaemon -i -odi -oem -oi -t -f '' @ f) =
      [Some prog, Some ''-FCronDaemon'', Some ''-i'', Some ''-odi'', Some ''-oem'', Some ''-oi'', Some ''-t'', Some ''-f'', Some f, None]"
    unfolding tx n
    by (simp only: w[OF assms(1) bl(8)] w[OF _ bl(1)] w[OF _ bl(2)] w[OF _ bl(3)] w[OF _ bl(4)] w[OF _ bl(5)] w[OF _ bl(6)] w[OF _ bl(7)]
        argv_loop_word(2)[OF assms(3,4) b] list.distinct simp_thms)
  then show ?thesis by (simp add: popen_argv_def)
qed

text \<open>What is mailed: an instance of \<open>send_mail\<close> with a safe sender and a safe recipient.\<close>

lemma handle_output_mail:
  assumes "handle_output w e cm jobenv r = Some r'" and "jr_mail r' = Some (argv, msg)" and "jr_mail r = None"
  obtains mailfrom to line where "mailfrom \<noteq> []" and "safe_chars True mailfrom" and "safe_chars True to"
    and "mail_command w mailfrom = Some line" and "argv = popen_argv line"
    and "msg = mail_text (mail_headers w mailfrom to (pw_name (pwd e)) cm jobenv) (jw_output w)"
proof -
  obtain mailfrom c1 to c2 where m: "mail_sender (pw_name (pwd e)) (env_get ''MAILFROM'' (envp e)) (jr_ctx r) = (mailfrom, c1)"
      "mail_wanted w (pw_name (pwd e)) (mail_recipient (pw_name (pwd e)) (env_get ''MAILTO'' jobenv)) c1 = (Some to, c2)"
      "send_mail w e cm jobenv mailfrom to (r\<lparr>jr_ctx := c2\<rparr>) = Some r'"
    using assms
    by (auto simp: handle_output_def Let_def split: list.splits prod.splits option.splits)
  have "safe_chars True to" using m(2) by (auto simp: mail_wanted_def safe_p_def split: option.splits if_splits)
  with m(3) assms(2,3) mail_sender_safe[OF m(1)] show ?thesis by (auto elim!: send_mail_cases intro: that)
qed

text \<open>C25. The mailer cannot be given arguments through the crontab: whatever \<open>MAILFROM\<close> and \<open>MAILTO\<close> a user sets, the default
  mail command is executed with exactly its seven fixed arguments and one safe sender address.\<close>

theorem mailer_arguments:
  assumes "handle_output w e cm jobenv r = Some r'" and "jr_mail r' = Some (argv, msg)" and "jr_mail r = None"
    and "jw_mailcmd w = []" and "jw_mailarg w \<noteq> []" and "\<forall>c \<in> set (jw_mailarg w). \<not> blank_char c"
  shows "\<exists>f. argv = Some [jw_mailarg w, ''-FCronDaemon'', ''-i'', ''-odi'', ''-oem'', ''-oi'', ''-t'', ''-f'', f] \<and> safe_chars True f"
proof -
  obtain f line where f: "f \<noteq> []" "safe_chars True f" "mail_command w f = Some line" "argv = popen_argv line"
    using handle_output_mail[OF assms(1-3)] .
  have "line = jw_mailarg w @ '' -FCronDaemon -i -odi -oem -oi -t -f '' @ f"
    using assms(4) f(3) by (auto simp: mail_command_def split: if_splits)
  then show ?thesis using mailer_words[OF assms(5,6) f(1)] safe_chars_props(1)[OF f(2)] f(2,4) by simp
qed

definition run0 :: jobrun where
  "run0 = \<lparr>jr_status = 0, jr_exec = None, jr_stdin = None, jr_mail = None, jr_syslog = [], jr_ctx = ctx0\<rparr>"

lemma sample_mail:
  "\<exists>r' argv msg. handle_output sample_jobworld (sample_job\<lparr>envp := [''MAILFROM=-oQ/tmp x'']\<rparr>) ''date'' [''MAILTO=joe''] run0 = Some r'
     \<and> jr_mail r' = Some (argv, msg)"
proof -
  let ?e = "sample_job\<lparr>envp := [''MAILFROM=-oQ/tmp x'']\<rparr>"
  define c where "c = log_msg ''joe'' ''UNSAFE'' ''-oQ/tmp x'' ctx0"
  have s: "mail_sender ''joe'' (env_get ''MAILFROM'' [''MAILFROM=-oQ/tmp x'']) ctx0 = (''root'', c)"
    unfolding c_def by code_simp
  have m: "mail_wanted sample_jobworld ''joe'' (mail_recipient ''joe'' (env_get ''MAILTO'' [''MAILTO=joe''])) c = (Some ''joe'', c)"
    unfolding c_def by code_simp
  obtain line where l: "mail_command sample_jobworld ''root'' = Some line"
    by (simp add: mail_command_def sample_jobworld_def MAILFMT_def macro_defs)
  have w: "jw_output sample_jobworld = ''out''" "jw_table sample_jobworld" "jw_mailpipe sample_jobworld" "jw_mailpid sample_jobworld = Some 7"
      "jw_waits sample_jobworld = [Some (6, 1), Some (7, 0)]"
    by (simp_all add: sample_jobworld_def)
  have e: "pw_name (pwd sample_job) = ''joe''" "pw_name (pwd ?e) = ''joe''" "envp ?e = [''MAILFROM=-oQ/tmp x'']" "jr_ctx run0 = ctx0"
    by (simp_all add: sample_job_def sample_pw_def run0_def)
  show ?thesis
    using s m by (simp add: handle_output_def Let_def e w send_mail_def l cron_popen_def cron_pclose_def)
qed

theorem mailer_arguments_witness:
  "\<exists>r' argv msg. handle_output sample_jobworld (sample_job\<lparr>envp := [''MAILFROM=-oQ/tmp x'']\<rparr>) ''date'' [''MAILTO=joe''] run0 = Some r'
     \<and> jr_mail r' = Some (argv, msg)
     \<and> (\<exists>f. argv = Some [''/usr/sbin/sendmail'', ''-FCronDaemon'', ''-i'', ''-odi'', ''-oem'', ''-oi'', ''-t'', ''-f'', f] \<and> safe_chars True f)"
proof -
  obtain r' argv msg where m: "handle_output sample_jobworld (sample_job\<lparr>envp := [''MAILFROM=-oQ/tmp x'']\<rparr>) ''date'' [''MAILTO=joe''] run0
      = Some r'" "jr_mail r' = Some (argv, msg)"
    using sample_mail by blast
  from mailer_arguments[OF m] m show ?thesis by (auto simp: sample_jobworld_def blank_char_def run0_def)
qed

lemma no_newlines_NL: "NL \<notin> set (no_newlines s)"
  by (auto simp: no_newlines_def)



text \<open>With option \<open>-s\<close> the output of a job is meant to go to the log; whatever the job prints, the log gets only its
  first character, followed by the byte \<open>0xFF\<close>.\<close>

theorem syslog_first_character:
  assumes "handle_output w e cm jobenv r = Some r'" and "jr_status r = 0" and "jr_status r' = 0"
    and "jw_output w = ch # s" and "jw_syslog w"
  shows "jr_syslog r' = [(if ch = NL then [] else [ch]) @ [CHR 0xFF]]"
  using assms
  by (auto simp: handle_output_def Let_def syslog_output_def elim!: send_mail_cases split: prod.splits option.splits)

theorem syslog_first_character_witness:
  "\<exists>r'. handle_output (sample_jobworld\<lparr>jw_mailcmd := ''off''\<rparr>) sample_job ''date'' [] run0 = Some r'
     \<and> jr_status r' = 0 \<and> jr_syslog r' = [CHR ''o'' # [CHR 0xFF]]"
proof -
  have "map_option jr_status (handle_output (sample_jobworld\<lparr>jw_mailcmd := ''off''\<rparr>) sample_job ''date'' [] run0) = Some 0"
    by code_simp
  then obtain r' where r: "handle_output (sample_jobworld\<lparr>jw_mailcmd := ''off''\<rparr>) sample_job ''date'' [] run0 = Some r'"
      "jr_status r' = 0" by auto
  from syslog_first_character[OF r(1) _ r(2), of "CHR ''o''" "''ut''"] r show ?thesis by (simp add: sample_jobworld_def run0_def)
qed

lemma strtok_shorter: "strtok s = (Some w, r) \<Longrightarrow> length r < length s"
proof -
  assume a: "strtok s = (Some w, r)"
  let ?t = "dropWhile blank_char s"
  have "r = drop 1 (dropWhile (\<lambda>c. \<not> blank_char c) ?t)" "?t \<noteq> []"
    using a unfolding strtok_def Let_def by (auto split: if_splits)
  moreover have "length (dropWhile (\<lambda>c. \<not> blank_char c) ?t) \<le> length ?t" "length ?t \<le> length s"
    by (rule length_dropWhile_le)+
  moreover have "hd ?t \<in> set ?t \<and> \<not> blank_char (hd ?t)" using \<open>?t \<noteq> []\<close> hd_dropWhile hd_in_set by blast
  then have "length (dropWhile (\<lambda>c. \<not> blank_char c) ?t) < length ?t"
    by (cases ?t) (auto simp: le_imp_less_Suc length_dropWhile_le)
  ultimately show "length r < length s" by simp
qed

function words_of :: "string \<Rightarrow> string list" where
  "words_of s = (case strtok s of (None, _) \<Rightarrow> [] | (Some w, r) \<Rightarrow> w # words_of r)"
  by pat_completeness auto
termination
  by (relation "measure length") (auto dest: strtok_shorter[OF sym])

declare words_of.simps [simp del]

lemma argv_loop_words:
  "argv_loop n s = (if length (words_of s) < n then map Some (words_of s) @ [None] else map Some (take n (words_of s)))"
proof (induction n arbitrary: s)
  case (Suc n)
  obtain wo r where w: "strtok s = (wo, r)" by fastforce
  show ?case
  proof (cases wo)
    case None
    then show ?thesis using w by (simp add: words_of.simps[of s])
  next
    case (Some v)
    then have "words_of s = v # words_of r" using w by (simp add: words_of.simps[of s])
    then show ?thesis using w Some Suc[of r] by simp
  qed
qed simp

text \<open>\<open>cron_popen\<close> builds a terminated argument vector exactly for programs of fewer than 1024 words; for longer
  ones the array given to \<open>execvp\<close> has no terminator.\<close>

theorem popen_terminated:
  "popen_argv program = (if length (words_of program) < MAX_ARGS then Some (words_of program) else None)"
proof (cases "length (words_of program) < MAX_ARGS")
  case True
  then show ?thesis by (simp add: popen_argv_def argv_loop_words comp_def)
next
  case False
  then have "take MAX_ARGS (words_of program) \<noteq> []" by (auto simp: macro_defs)
  then show ?thesis using False by (simp add: popen_argv_def argv_loop_words last_map)
qed

end
