(* ===== verification/AnaLog.thy ===== *)
theory AnaLog
  imports CronEntryTimes
begin

text \<open>
  \<open>cronie-1.4.6/anacron/log.c\<close>: the messages of \<open>anacron\<close>, and how its functions end. A message is given with its
  format already filled in; \<open>err\<close> is the text of \<open>strerror (errno)\<close>. A function of \<open>anacron\<close> either goes on
  (\<open>Go\<close>) or ends the process (\<open>Exit\<close> with its status and the state at that moment).
\<close>

datatype ('s, 'a) ares = Go 'a | Exit int 's

fun go_on :: "('s, 'a) ares \<Rightarrow> ('a \<Rightarrow> ('s, 'b) ares) \<Rightarrow> ('s, 'b) ares" where
  "go_on (Go x) f = f x"
| "go_on (Exit n s) f = Exit n s"

lemma go_on_Go: "go_on r f = Go y \<longleftrightarrow> (\<exists>x. r = Go x \<and> f x = Go y)"
  by (cases r) auto

datatype priority = EXPLAIN_LEVEL | COMPLAIN_LEVEL

record alog =
  al_open :: bool
  al_sys :: "(priority \<times> string) list"
  al_err :: string
  complaints :: int
  in_background :: bool
  quiet :: bool
  program_name :: string
  is_primary :: bool

definition alog0 :: alog where
  "alog0 = \<lparr>al_open = False, al_sys = [], al_err = [], complaints = 0, in_background = True, quiet = False, program_name = ''anacron'',
     is_primary = True\<rparr>"

definition MAX_MSG :: nat where [macro_defs]: "MAX_MSG = 150"

definition truncated :: string where
  "truncated = '' (truncated)''"

definition xopenlog :: "alog \<Rightarrow> alog" where
  "xopenlog l = (if \<not> al_open l then l\<lparr>al_open := True\<rparr> else l)"

definition xcloselog :: "alog \<Rightarrow> alog" where
  "xcloselog l = l\<lparr>al_open := False\<rparr>"

text \<open>\<open>vsnprintf\<close> fills \<open>MAX_MSG\<close> bytes and a terminator; \<open>m\<close> is the whole text.\<close>

definition make_msg :: "string \<Rightarrow> string" where
  "make_msg m =
     (let buf = take MAX_MSG m in
      if length m \<ge> MAX_MSG then take (MAX_MSG + 1 - (length truncated + 1)) buf @ truncated else buf)"

definition slog :: "priority \<Rightarrow> string \<Rightarrow> alog \<Rightarrow> alog" where
  "slog p m l0 =
     (let msg = make_msg m; l1 = xopenlog l0; l = l1\<lparr>al_sys := al_sys l1 @ [(p, msg)]\<rparr> in
      if \<not> in_background l then
        if p = EXPLAIN_LEVEL \<and> \<not> quiet l then l\<lparr>al_err := al_err l @ msg @ [NL]\<rparr>
        else if p = COMPLAIN_LEVEL then l\<lparr>al_err := al_err l @ program_name l @ '': '' @ msg @ [NL]\<rparr>
        else l
      else l)"

definition log_e :: "priority \<Rightarrow> string \<Rightarrow> string \<Rightarrow> alog \<Rightarrow> alog" where
  "log_e p m err l0 =
     (let msg = make_msg m; l1 = xopenlog l0; l = l1\<lparr>al_sys := al_sys l1 @ [(p, msg @ '': '' @ err)]\<rparr> in
      if \<not> in_background l then
        if p = EXPLAIN_LEVEL \<and> \<not> quiet l then l\<lparr>al_err := al_err l @ msg @ '': '' @ err @ [NL]\<rparr>
        else if p = COMPLAIN_LEVEL then l\<lparr>al_err := al_err l @ program_name l @ '': '' @ msg @ '': '' @ err @ [NL]\<rparr>
        else l
      else l)"

definition explain :: "string \<Rightarrow> alog \<Rightarrow> alog" where
  "explain m l = slog EXPLAIN_LEVEL m l"

definition explain_e :: "string \<Rightarrow> string \<Rightarrow> alog \<Rightarrow> alog" where
  "explain_e m err l = log_e EXPLAIN_LEVEL m err l"

definition complain :: "string \<Rightarrow> alog \<Rightarrow> alog" where
  "complain m l = (let l1 = slog COMPLAIN_LEVEL m l in l1\<lparr>complaints := complaints l1 + 1\<rparr>)"

definition complain_e :: "string \<Rightarrow> string \<Rightarrow> alog \<Rightarrow> alog" where
  "complain_e m err l = (let l1 = log_e COMPLAIN_LEVEL m err l in l1\<lparr>complaints := complaints l1 + 1\<rparr>)"

text \<open>The log with which \<open>die\<close> and \<open>die_e\<close> end the process, with status 1.\<close>

definition ana_die :: "string \<Rightarrow> alog \<Rightarrow> alog" where
  "ana_die m l = (let l1 = slog COMPLAIN_LEVEL m l in if is_primary l1 then complain ''Aborted'' l1 else l1)"

definition ana_die_e :: "string \<Rightarrow> string \<Rightarrow> alog \<Rightarrow> alog" where
  "ana_die_e m err l = (let l1 = log_e COMPLAIN_LEVEL m err l in if is_primary l1 then complain ''Aborted'' l1 else l1)"

section \<open>Properties\<close>

text \<open>What is logged for a message never exceeds the buffer: short messages are logged whole, longer ones, and one of
  exactly 150 characters that would still fit, are cut and marked.\<close>

lemma make_msg_bounded:
  "length (make_msg m) \<le> MAX_MSG
   \<and> make_msg m = (if length m < MAX_MSG then m else take 138 m @ '' (truncated)'')"
  by (simp add: make_msg_def truncated_def macro_defs Let_def min_def)

lemma slog_fields [simp]:
  "complaints (slog p m l) = complaints l" "in_background (slog p m l) = in_background l" "is_primary (slog p m l) = is_primary l"
  "al_sys (slog p m l) = al_sys l @ [(p, make_msg m)]" "al_open (slog p m l)"
  by (simp_all add: slog_def xopenlog_def Let_def)

lemma complain_fields [simp]:
  "complaints (complain m l) = complaints l + 1" "complaints (explain m l) = complaints l"
  by (simp_all add: complain_def explain_def Let_def)

end
