(* ===== verification/AnaTab.thy ===== *)
theory AnaTab
  imports AnaLog
begin

text \<open>
  \<open>cronie-1.4.6/anacron/readtab.c\<close> and \<open>matchrx.c\<close>: reading \<open>/etc/anacrontab\<close>. The lists of jobs and of settings, which the code
  links through \<open>first_job_rec\<close>, \<open>last_job_rec\<close>, \<open>first_env_rec\<close> and \<open>last_env_rec\<close>, are lists; \<open>prev_env_rec\<close>
  is the number of settings read before the job. Memory that is used without having been set is a
  field of \<open>junk\<close>, so that what the code reads there is visible in the model.
\<close>

section \<open>Regular expressions\<close>

text \<open>
  The expressions of the code are anchored sequences of groups of character classes, each once,
  any number of times or at least once. Matching takes the longest choice from left to right, as
  \<open>regexec\<close> does.
\<close>

datatype quant = Once | Any | Some1

type_synonym atom = "(char \<Rightarrow> bool) \<times> quant"
type_synonym rx = "(bool \<times> atom list) list"

definition atom_lens :: "atom \<Rightarrow> string \<Rightarrow> nat list" where
  "atom_lens = (\<lambda>(p, q) s.
     let m = length (takeWhile p s) in
     case q of Once \<Rightarrow> if m \<ge> 1 then [1] else [] | Any \<Rightarrow> rev [0..<m + 1] | Some1 \<Rightarrow> rev [1..<m + 1])"

fun first_some :: "'a option list \<Rightarrow> 'a option" where
  "first_some [] = None"
| "first_some (x # xs) = (case x of None \<Rightarrow> first_some xs | Some _ \<Rightarrow> x)"

primrec rx_atoms :: "atom list \<Rightarrow> string \<Rightarrow> string list option" where
  "rx_atoms [] s = (if s = [] then Some [] else None)"
| "rx_atoms (a # as) s =
     first_some (map (\<lambda>k. map_option (\<lambda>ms. take k s # ms) (rx_atoms as (drop k s))) (atom_lens a s))"

fun sub_offsets :: "nat \<Rightarrow> rx \<Rightarrow> string list \<Rightarrow> (nat \<times> nat) list" where
  "sub_offsets pos [] ms = []"
| "sub_offsets pos ((cap, as) # gs) ms =
     (let n = length (concat (take (length as) ms)) in
      (if cap then [(pos, pos + n)] else []) @ sub_offsets (pos + n) gs (drop (length as) ms))"

text \<open>
  \<open>match_rx\<close>: the result, the substrings, and the string as the terminators written behind the substrings leave
  it. \<open>ok\<close> says whether \<open>regcomp\<close> and \<open>regexec\<close> work.
\<close>

definition match_rx :: "bool \<Rightarrow> rx \<Rightarrow> string \<Rightarrow> nat \<Rightarrow> int \<times> string list \<times> string" where
  "match_rx ok r s n_sub =
     (if \<not> ok then (-1, [], s)
      else case rx_atoms (concat (map snd r)) s of
        None \<Rightarrow> (0, [], s)
      | Some ms \<Rightarrow>
          (let os = take n_sub (sub_offsets 0 r ms) in
           (1, map (\<lambda>(so, eo). take (eo - so) (drop so s)) os, if os = [] then s else take (snd (hd os)) s)))"

definition blank :: "char \<Rightarrow> bool" where
  "blank c \<longleftrightarrow> c = SP \<or> c = TAB"

definition rx_env :: rx where
  "rx_env = [(False, [(blank, Any)]), (True, [(\<lambda>c. \<not> blank c \<and> c \<noteq> CHR ''='', Some1)]), (False, [(blank, Any), (\<lambda>c. c = CHR ''='', Once)]),
     (True, [(\<lambda>c. True, Any)])]"

definition rx_range :: rx where
  "rx_range = [(True, [(c_isdigit, Some1)]), (False, [(\<lambda>c. c = CHR ''-'', Once)]), (True, [(c_isdigit, Some1)])]"

definition rx_delay :: rx where
  "rx_delay = [(True, [(c_isdigit, Some1)])]"

definition rx_tail :: rx where
  "rx_tail = [(False, [(blank, Some1)]), (True, [(c_isdigit, Some1)]), (False, [(blank, Some1)]),
     (True, [(\<lambda>c. \<not> blank c \<and> c \<noteq> CHR ''/'', Some1)]), (False, [(blank, Some1)]), (True, [(\<lambda>c. \<not> blank c, Once), (\<lambda>c. True, Any)])]"

definition rx_job :: rx where
  "rx_job = [(False, [(blank, Any)]), (True, [(c_isdigit, Some1)])] @ rx_tail"

definition rx_period :: rx where
  "rx_period = [(False, [(blank, Any)]), (True, [(\<lambda>c. c = CHR ''@'', Once), (\<lambda>c. \<not> blank c, Some1)])] @ rx_tail"

text \<open>The first expression, \<open>^[ \t]*($|#)\<close>, is not anchored at its end.\<close>

definition empty_line :: "string \<Rightarrow> bool" where
  "empty_line s \<longleftrightarrow> (let t = dropWhile blank s in t = [] \<or> hd t = CHR ''#'')"

section \<open>Jobs and settings\<close>

record job_rec =
  a_period :: int
  a_named_period :: int
  a_delay :: int
  a_ident :: string
  a_command :: string
  a_mailto :: string
  a_tab_line :: int
  a_arg_num :: int
  a_locked :: bool
  a_output :: string
  a_header :: nat
  a_job_pid :: int
  a_mailer_pid :: int
  a_drop_job :: int
  a_prev_env :: nat

record junk =
  jk_named :: "int \<Rightarrow> int"
  jk_drop :: "int \<Rightarrow> int"
  jk_from :: "string option"
  jk_to :: "string option"

record tabworld =
  tw_name :: string
  tw_args :: "string list"
  tw_fnmatch :: "string \<Rightarrow> string \<Rightarrow> int"
  tw_rx :: bool
  tw_random :: "int \<Rightarrow> int"
  tw_junk :: junk

record tabstate =
  ts_jobs :: "job_rec list"
  ts_envs :: "string list"
  jobs_read :: int
  line_num :: int
  random_number :: int
  range_start :: int
  range_stop :: int
  ts_log :: alog

definition conv2int :: "string \<Rightarrow> int" where
  "conv2int s = (case strtol10 s of (l, erange) \<Rightarrow> if erange \<or> l < 0 \<or> l > INT_MAX then -1 else l)"

text \<open>\<open>job_arg_num\<close>, with 1 for \<open>FNM_NOMATCH\<close>; \<^const>\<open>None\<close> is \<open>die\<close>.\<close>

fun job_arg_loop :: "(string \<Rightarrow> string \<Rightarrow> int) \<Rightarrow> string \<Rightarrow> int \<Rightarrow> string list \<Rightarrow> int option" where
  "job_arg_loop fm idn i [] = Some (-1)"
| "job_arg_loop fm idn i (a # as) =
     (if fm a idn = 0 then Some i else if fm a idn \<noteq> 1 then None else job_arg_loop fm idn (i + 1) as)"

definition job_arg_num :: "tabworld \<Rightarrow> string \<Rightarrow> int option" where
  "job_arg_num w idn = job_arg_loop (tw_fnmatch w) idn 0 (tw_args w)"

definition register_env :: "string \<Rightarrow> string \<Rightarrow> tabstate \<Rightarrow> tabstate" where
  "register_env env_var v s = s\<lparr>ts_envs := ts_envs s @ [env_var @ CHR ''='' # v]\<rparr>"

definition line_msg :: "tabworld \<Rightarrow> string \<Rightarrow> string \<Rightarrow> string \<Rightarrow> tabstate \<Rightarrow> tabstate" where
  "line_msg w a b c s = s\<lparr>ts_log := complain (a @ tw_name w @ b @ dec (nat (line_num s)) @ c) (ts_log s)\<rparr>"

text \<open>The common end of \<open>register_job\<close> and \<open>register_period_job\<close>: the record is filled and put at the end of the list.\<close>

definition add_job :: "tabworld \<Rightarrow> int \<Rightarrow> int \<Rightarrow> int \<Rightarrow> string \<Rightarrow> string \<Rightarrow> tabstate \<Rightarrow> (alog, tabstate) ares" where
  "add_job w per named dly idn com s =
     (case job_arg_num w idn of
        None \<Rightarrow> Exit 1 (ana_die ''fnmatch() error'' (ts_log s))
      | Some n \<Rightarrow>
          Go (s\<lparr>ts_jobs := ts_jobs s @
                [\<lparr>a_period = per, a_named_period = named, a_delay = s32 (dly + random_number s), a_ident = idn, a_command = com,
                  a_mailto = [], a_tab_line = line_num s, a_arg_num = n, a_locked = False, a_output = [], a_header = 0,
                  a_job_pid = 0, a_mailer_pid = 0, a_drop_job = jk_drop (tw_junk w) (line_num s),
                  a_prev_env = length (ts_envs s)\<rparr>]\<rparr>))"

definition register_job :: "tabworld \<Rightarrow> string \<Rightarrow> string \<Rightarrow> string \<Rightarrow> string \<Rightarrow> tabstate \<Rightarrow> (alog, tabstate) ares" where
  "register_job w periods delays idn com s0 =
     (let s = s0\<lparr>jobs_read := jobs_read s0 + 1\<rparr>; per = conv2int periods; dly = conv2int delays in
      if per < 0 \<or> dly < 0 then Go (line_msg w [] '': number out of range on line '' '', skipping'' s)
      else add_job w per 0 dly idn com s)"

definition named_period :: "string \<Rightarrow> int option" where
  "named_period periods =
     (if strncmp_eq ''@monthly'' periods 7 then Some 1
      else if strncmp_eq ''@yearly'' periods 7 \<or> strncmp_eq ''@annualy'' periods 8 then Some 2
      else if strncmp_eq ''@daily'' periods 7 then Some 3
      else if strncmp_eq ''@weekly'' periods 7 then Some 4
      else None)"

definition register_period_job :: "tabworld \<Rightarrow> string \<Rightarrow> string \<Rightarrow> string \<Rightarrow> string \<Rightarrow> tabstate \<Rightarrow> (alog, tabstate) ares" where
  "register_period_job w periods delays idn com s0 =
     (let s = s0\<lparr>jobs_read := jobs_read s0 + 1\<rparr>; dly = conv2int delays in
      if dly < 0 then Go (line_msg w [] '': number out of range on line '' '', skipping'' s)
      else case named_period periods of
        Some n \<Rightarrow> add_job w 0 n dly idn com s
      | None \<Rightarrow>
          add_job w 0 (jk_named (tw_junk w) (line_num s)) dly idn com
            (line_msg w [] '': Unknown named period on line '' '', skipping'' s))"

section \<open>Lines\<close>

text \<open>The loop of \<open>read_tab_line\<close>: the line, what is left of the file, and whether its end was seen.\<close>

fun tab_line :: "char \<Rightarrow> string \<Rightarrow> string \<Rightarrow> string \<times> string \<times> bool" where
  "tab_line prev acc [] = (acc @ (if prev \<noteq> NUL then [prev] else []), [], True)"
| "tab_line prev acc (c # s) =
     (if c = NL \<and> prev \<noteq> BSLASH then (acc @ (if prev \<noteq> NUL then [prev] else []), s, False)
      else tab_line c (acc @ (if prev \<noteq> BSLASH \<and> prev \<noteq> NUL \<and> prev \<noteq> NL then [prev] else if prev = NL then [SP] else [])) s)"

definition read_tab_line :: "string \<times> bool \<Rightarrow> (string \<times> string \<times> bool) option" where
  "read_tab_line = (\<lambda>(s, eof). if eof then None else Some (tab_line NUL [] s))"

definition bad_line :: "tabworld \<Rightarrow> tabstate \<Rightarrow> tabstate" where
  "bad_line w s = line_msg w ''Invalid syntax in '' '' on line '' '' - skipping this line'' s"

text \<open>The assignment \<open>env_var = value\<close>: the hours and the random delay are taken out first; the terminator written
  behind the first hour shortens the value that is registered.\<close>

definition env_assignment :: "tabworld \<Rightarrow> string \<Rightarrow> string \<Rightarrow> tabstate \<Rightarrow> tabstate" where
  "env_assignment w env_var v s =
     (case (if strncmp_eq env_var ''START_HOURS_RANGE'' 17 then
              (case match_rx (tw_rx w) rx_range v 2 of
                 (r, subs, v1) \<Rightarrow>
                   (case (if r = 1 then (Some (subs ! 0), Some (subs ! 1)) else (jk_from (tw_junk w), jk_to (tw_junk w))) of
                      (Some from, Some to) \<Rightarrow>
                        if r = -1 then None else Some (v1, s\<lparr>range_start := atoi from, range_stop := atoi to\<rparr>)
                    | _ \<Rightarrow> None))
            else Some (v, s)) of
        None \<Rightarrow> bad_line w s
      | Some (v1, s1) \<Rightarrow>
          if strncmp_eq env_var ''RANDOM_DELAY'' 12 then
            (case match_rx (tw_rx w) rx_delay v1 0 of
               (r, _, _) \<Rightarrow>
                 if r \<noteq> -1 then register_env env_var v1 (s1\<lparr>random_number := tw_random w (atoi v1)\<rparr>) else bad_line w s1)
          else register_env env_var v1 s1)"

definition parse_tab_line :: "tabworld \<Rightarrow> string \<Rightarrow> tabstate \<Rightarrow> (alog, tabstate) ares" where
  "parse_tab_line w l s =
     (if \<not> tw_rx w then Exit 1 (ana_die (''Regex error reading '' @ tw_name w) (ts_log s))
      else if empty_line l then Go s
      else case match_rx (tw_rx w) rx_env l 2 of
        (r, subs, _) \<Rightarrow>
          if r = 1 then Go (env_assignment w (subs ! 0) (subs ! 1) s)
          else case match_rx (tw_rx w) rx_job l 4 of
            (r, subs, _) \<Rightarrow>
              if r = 1 then register_job w (subs ! 0) (subs ! 1) (subs ! 2) (subs ! 3) s
              else case match_rx (tw_rx w) rx_period l 4 of
                (r, subs, _) \<Rightarrow>
                  if r = 1 then register_period_job w (subs ! 0) (subs ! 1) (subs ! 2) (subs ! 3) s
                  else Go (bad_line w s))"

lemma tab_line_shorter: "tab_line prev acc s = (l, r, eof) \<Longrightarrow> length r + (if eof then 0 else 1) < length s + 1"
  by (induction s arbitrary: prev acc) (auto split: if_splits intro: less_SucI)

function tab_loop :: "tabworld \<Rightarrow> string \<Rightarrow> bool \<Rightarrow> tabstate \<Rightarrow> (alog, tabstate) ares" where
  "tab_loop w txt eof s =
     (case read_tab_line (txt, eof) of
        None \<Rightarrow> Go s
      | Some (l, r, eof1) \<Rightarrow> go_on (parse_tab_line w l (s\<lparr>line_num := line_num s + 1\<rparr>)) (tab_loop w r eof1))"
  by pat_completeness auto
termination
  by (relation "measure (\<lambda>(w, txt, eof, s). length txt + (if eof then 0 else 1))")
     (auto simp: read_tab_line_def split: if_splits dest!: tab_line_shorter[OF sym] tab_line_shorter)

declare tab_loop.simps [simp del]

text \<open>
  \<open>read_tab\<close>: \<open>tab\<close> is the text of the file if it can be opened, \<open>chdir_ok\<close> whether the spool directory can be entered,
  \<open>read_ok\<close> whether reading and closing the file work.
\<close>

definition read_tab :: "tabworld \<Rightarrow> string \<Rightarrow> bool \<Rightarrow> bool \<Rightarrow> string option \<Rightarrow> tabstate \<Rightarrow> (alog, tabstate) ares" where
  "read_tab w spool chdir_ok read_ok tab s0 =
     (let s = s0\<lparr>ts_jobs := [], ts_envs := [], jobs_read := 0, line_num := 0\<rparr> in
      if \<not> chdir_ok then Exit 1 (ana_die_e (''Can't chdir to '' @ spool) [] (ts_log s))
      else case tab of
        None \<Rightarrow> Exit 1 (ana_die_e (''Error opening '' @ tw_name w) [] (ts_log s))
      | Some txt \<Rightarrow>
          if \<not> read_ok then Exit 1 (ana_die_e (''Error reading '' @ tw_name w) [] (ts_log s))
          else tab_loop w txt False s)"

end
