(* ===== verification/AnaGregor.thy ===== *)
theory AnaGregor
  imports CronSched
begin

text \<open>
  \<open>cronie-1.4.6/anacron/gregor.c\<close>: dates and day numbers of the proleptic Gregorian calendar. The functions that
  look at the clock take the broken-down local time as an argument.
\<close>

section \<open>The code\<close>

definition days_in_month :: "int list" where
  "days_in_month = [31, 28, 31, 30, 31, 30, 31, 31, 30, 31, 30, 31]"

definition leap :: "int \<Rightarrow> bool" where
  "leap year \<longleftrightarrow> year mod 4 = 0 \<and> (year mod 100 \<noteq> 0 \<or> year mod 400 = 0)"

text \<open>The loop over the months before this one, from the last down to January.\<close>

fun month_loop :: "nat \<Rightarrow> int \<Rightarrow> int" where
  "month_loop 0 dn = dn"
| "month_loop (Suc i) dn = month_loop i (dn + days_in_month ! i)"

definition day_num :: "int \<Rightarrow> int \<Rightarrow> int \<Rightarrow> int" where
  "day_num year month day =
     (if year < 1 then -1
      else if year > INT_MAX div 366 then -1
      else if month > 12 \<or> month < 1 then -1
      else if day < 1 then -1
      else if (if month \<noteq> 2 then day > days_in_month ! nat (month - 1)
               else (leap year \<and> day > 29) \<or> (\<not> leap year \<and> day > 28)) then -1
      else
        let i = year - 1;
            dn = i * 365 + (i div 4 - i div 100 + i div 400);
            dn1 = month_loop (nat (month - 1)) dn;
            dn2 = (if month > 2 \<and> leap year then dn1 + 1 else dn1)
        in dn2 + day)"

definition days_last_month :: "tm \<Rightarrow> int" where
  "days_last_month t =
     (if tm_mon t = 0 then days_in_month ! 11
      else if tm_mon t = 2 then days_in_month ! 1 + (if leap (tm_year t + 1900) then 1 else 0)
      else days_in_month ! nat (tm_mon t - 1))"

definition days_this_month :: "tm \<Rightarrow> int" where
  "days_this_month t =
     (if tm_mon t = 1 then days_in_month ! 1 + (if leap (tm_year t + 1900) then 1 else 0)
      else days_in_month ! nat (tm_mon t))"

definition days_last_year :: "tm \<Rightarrow> int" where
  "days_last_year t = (if leap (tm_year t - 1 + 1900) then 366 else 365)"

definition days_this_year :: "tm \<Rightarrow> int" where
  "days_this_year t = (if leap (tm_year t + 1900) then 366 else 365)"

lemma days_in_month_pos: "n < 12 \<Longrightarrow> 0 < days_in_month ! n"
proof -
  have "list_all (\<lambda>d. 0 < d) days_in_month" "length days_in_month = 12" by (simp_all add: days_in_month_def)
  then show "n < 12 \<Longrightarrow> 0 < days_in_month ! n" by (simp add: list_all_length)
qed

lemma month_lengths_pos:
  assumes "0 \<le> tm_mon t" and "tm_mon t \<le> 11"
  shows "0 < days_last_month t" "0 < days_this_month t"
  using assms days_in_month_pos[of 11] days_in_month_pos[of 1] days_in_month_pos[of "nat (tm_mon t - 1)"] days_in_month_pos[of "nat (tm_mon t)"]
  by (auto simp: days_last_month_def days_this_month_def)

section \<open>The calendar\<close>

text \<open>The reference: the days of a month, the valid dates, and going from one day to the next and back.\<close>

definition month_days :: "int \<Rightarrow> int \<Rightarrow> int" where
  "month_days y m = (if m = 2 \<and> leap y then 29 else days_in_month ! nat (m - 1))"

definition MAX_YEAR :: int where [macro_defs]: "MAX_YEAR = 5867441"

definition valid_date :: "int \<times> int \<times> int \<Rightarrow> bool" where
  "valid_date = (\<lambda>(y, m, d). 1 \<le> y \<and> y \<le> MAX_YEAR \<and> 1 \<le> m \<and> m \<le> 12 \<and> 1 \<le> d \<and> d \<le> month_days y m)"

definition next_day :: "int \<times> int \<times> int \<Rightarrow> int \<times> int \<times> int" where
  "next_day = (\<lambda>(y, m, d).
     if d < month_days y m then (y, m, d + 1) else if m < 12 then (y, m + 1, 1) else (y + 1, 1, 1))"

definition prev_day :: "int \<times> int \<times> int \<Rightarrow> int \<times> int \<times> int" where
  "prev_day = (\<lambda>(y, m, d).
     if 1 < d then (y, m, d - 1) else if 1 < m then (y, m - 1, month_days y (m - 1)) else (y - 1, 12, 31))"

lemma max_year: "INT_MAX div 366 = MAX_YEAR"
  by (simp add: macro_defs)

lemma month_cases:
  assumes "1 \<le> (m::int)" and "m \<le> 12"
  obtains "m = 1" | "m = 2" | "m = 3" | "m = 4" | "m = 5" | "m = 6" | "m = 7" | "m = 8" | "m = 9" | "m = 10" | "m = 11" | "m = 12"
proof -
  have "m = 1 \<or> m = 2 \<or> m = 3 \<or> m = 4 \<or> m = 5 \<or> m = 6 \<or> m = 7 \<or> m = 8 \<or> m = 9 \<or> m = 10 \<or> m = 11 \<or> m = 12"
    using assms by presburger
  then show ?thesis using that by blast
qed

lemma day_num_valid: "day_num y m d \<noteq> -1 \<Longrightarrow> valid_date (y, m, d)"
  by (auto simp: day_num_def max_year valid_date_def month_days_def days_in_month_def split: if_splits)

lemma day_num_invalid: "\<not> valid_date (y, m, d) \<Longrightarrow> day_num y m d = -1"
  using day_num_valid by blast

definition year_days :: "int \<Rightarrow> int" where
  "year_days i = i * 365 + (i div 4 - i div 100 + i div 400)"

definition before_month :: "int \<Rightarrow> int \<Rightarrow> int" where
  "before_month y m = month_loop (nat (m - 1)) 0 + (if m > 2 \<and> leap y then 1 else 0)"

lemma month_loop_add: "month_loop n a = a + month_loop n 0"
proof (induction n arbitrary: a)
  case (Suc n)
  show ?case using Suc[of "a + days_in_month ! n"] Suc[of "days_in_month ! n"] by simp
qed simp

lemma day_num_sum: "valid_date (y, m, d) \<Longrightarrow> day_num y m d = year_days (y - 1) + before_month y m + d"
  using month_loop_add[of "nat (m - 1)" "year_days (y - 1)"]
  by (auto simp: day_num_def max_year valid_date_def month_days_def days_in_month_def year_days_def before_month_def Let_def)

lemma before_month_step:
  assumes "1 \<le> m" and "m < 12"
  shows "before_month y (m + 1) = before_month y m + month_days y m"
proof -
  have "1 \<le> m" "m \<le> 12" using assms by auto
  then show ?thesis
    using assms by (cases rule: month_cases) (simp_all add: before_month_def month_days_def days_in_month_def eval_nat_numeral)
qed

lemma before_month_values: "before_month y 1 = 0" "before_month y 12 = 334 + (if leap y then 1 else 0)"
  by (simp_all add: before_month_def days_in_month_def eval_nat_numeral)

lemma div_step:
  assumes "0 < (k::int)"
  shows "y div k = (y - 1) div k + (if y mod k = 0 then 1 else 0)"
proof (cases "y mod k = 0")
  case True
  have "y = k * (y div k) + y mod k" by simp
  with True have "y - 1 = k * (y div k - 1) + (k - 1)" by (simp add: algebra_simps)
  then have "(y - 1) div k = y div k - 1" by (rule int_div_pos_eq) (use assms in auto)
  with True show ?thesis by simp
next
  case False
  have r: "0 \<le> y mod k" "y mod k < k" using assms by simp_all
  have "y - 1 = k * (y div k) + (y mod k - 1)" by simp
  then have "(y - 1) div k = y div k" by (rule int_div_pos_eq) (use r False in auto)
  with False show ?thesis by simp
qed

lemma year_days_step: "year_days y = year_days (y - 1) + 365 + (if leap y then 1 else 0)"
proof -
  have "400 dvd y \<Longrightarrow> 100 dvd y" "100 dvd y \<Longrightarrow> 4 dvd y"
    using dvd_trans[of 100 400 y] dvd_trans[of 4 100 y] by simp_all
  then have d: "y mod 400 = 0 \<Longrightarrow> y mod 100 = 0" "y mod 100 = 0 \<Longrightarrow> y mod 4 = 0"
    by (simp_all only: mod_eq_0_iff_dvd)
  have s: "y * 365 + (a - b + c) = (y - 1) * 365 + (a' - b' + c') + 365 + (if p \<and> (\<not> q \<or> r) then 1 else 0)"
    if "a = a' + (if p then 1 else 0)" "b = b' + (if q then 1 else 0)" "c = c' + (if r then 1 else 0)" "r \<Longrightarrow> q" "q \<Longrightarrow> p"
    for a b c a' b' c' :: int and p q r
    using that by (cases p; cases q; cases r) simp_all
  show ?thesis
    unfolding year_days_def leap_def
    by (rule s) (use div_step[of 4 y] div_step[of 100 y] div_step[of 400 y] d in \<open>simp_all only: zero_less_numeral\<close>)
qed

lemma next_prev_day:
  assumes "valid_date x" and "x \<noteq> (1, 1, 1)"
  shows "valid_date (prev_day x)" "next_day (prev_day x) = x"
proof -
  obtain y m d where x: "x = (y, m, d)" by (cases x) auto
  have md: "28 \<le> month_days y' m'" if "1 \<le> m'" "m' \<le> 12" for y' m'
    using that by (cases rule: month_cases) (auto simp: month_days_def days_in_month_def)
  show "valid_date (prev_day x)" "next_day (prev_day x) = x"
    using assms md[of "m - 1" y]
    by (auto simp: x valid_date_def prev_day_def next_day_def month_days_def days_in_month_def split: if_splits)
qed

lemma day_num_step:
  assumes "valid_date (y, m, d)" and "next_day (y, m, d) = (y', m', d')" and "valid_date (y', m', d')"
  shows "day_num y' m' d' = day_num y m d + 1"
  using assms before_month_step[of m y] before_month_values[of y] before_month_values[of y'] year_days_step[of y]
  by (auto simp: day_num_sum next_day_def valid_date_def month_days_def days_in_month_def split: if_splits)

lemma year_days_mono: "0 \<le> i \<Longrightarrow> 0 \<le> year_days i"
  using zdiv_mono2[of i 4 100] by (simp add: year_days_def pos_imp_zdiv_nonneg_iff add_nonneg_nonneg)

lemma day_num_pos:
  assumes "valid_date (y, m, d)"
  shows "1 \<le> day_num y m d"
proof -
  have "0 \<le> before_month y m" using assms
    by (auto simp: valid_date_def elim!: month_cases[of m] simp: before_month_def days_in_month_def eval_nat_numeral)
  then show ?thesis
    using assms year_days_mono[of "y - 1"] by (simp add: day_num_sum[OF assms]) (simp add: valid_date_def)
qed

lemma day_num_upper:
  assumes "valid_date (y, m, d)"
  shows "day_num y m d \<le> INT_MAX"
proof -
  have v: "1 \<le> y" "y \<le> MAX_YEAR" "1 \<le> m" "m \<le> 12" "d \<le> 31"
    using assms by (auto simp: valid_date_def month_days_def elim!: month_cases[of m] simp: days_in_month_def split: if_splits)
  have "before_month y m \<le> 335"
    using v(3,4) by (cases rule: month_cases) (simp_all add: before_month_def days_in_month_def eval_nat_numeral)
  moreover have "(y - 1) div 4 - (y - 1) div 100 + (y - 1) div 400 \<le> (y - 1) div 4"
    using v(1) zdiv_mono2[of "y - 1" 100 400] by simp
  then have "year_days (y - 1) \<le> (y - 1) * 365 + (y - 1) div 4" by (simp add: year_days_def)
  ultimately show ?thesis using v by (simp add: day_num_sum[OF assms] macro_defs)
qed

lemma day_num_counts:
  "valid_date (y, m, d) \<Longrightarrow> day_num y m d = int n + 1 \<Longrightarrow> (next_day ^^ n) (1, 1, 1) = (y, m, d)"
proof (induction n arbitrary: y m d)
  case 0
  show ?case
  proof (rule ccontr)
    assume "\<not> ?thesis"
    then have ne: "(y, m, d) \<noteq> (1, 1, 1)" by auto
    obtain y' m' d' where p: "prev_day (y, m, d) = (y', m', d')" by (cases "prev_day (y, m, d)") auto
    from next_prev_day[OF 0(1) ne] p have "day_num y m d = day_num y' m' d' + 1" "valid_date (y', m', d')"
      using day_num_step[of y' m' d' y m d] 0(1) by auto
    then show False using 0(2) day_num_pos[of y' m' d'] by simp
  qed
next
  case (Suc n)
  have ne: "(y, m, d) \<noteq> (1, 1, 1)"
    using Suc.prems(2) by (auto simp: day_num_def max_year macro_defs days_in_month_def)
  obtain y' m' d' where p: "prev_day (y, m, d) = (y', m', d')" by (cases "prev_day (y, m, d)") auto
  from next_prev_day[OF Suc.prems(1) ne] p have np: "next_day (y', m', d') = (y, m, d)" "valid_date (y', m', d')" by auto
  then have "day_num y' m' d' = int n + 1" using day_num_step[of y' m' d' y m d] Suc.prems by simp
  from Suc.IH[OF np(2) this] np(1) show ?case by simp
qed

lemma day_num_inj:
  assumes "valid_date (y, m, d)" and "valid_date (y', m', d')" and "day_num y m d = day_num y' m' d'"
  shows "(y, m, d) = (y', m', d')"
proof -
  have "day_num y m d = int (nat (day_num y m d - 1)) + 1" using day_num_pos[OF assms(1)] by simp
  then show ?thesis using day_num_counts[OF assms(1)] day_num_counts[OF assms(2)] assms(3) by metis
qed

text \<open>C38. \<open>day_num\<close> counts the days of the Gregorian calendar from 1 January of the year 1: the date with number \<open>n\<close> is
  reached from it by \<open>n - 1\<close> steps from one day to the next, the number fits an \<open>int\<close>, and exactly the
  invalid dates give \<open>-1\<close>.\<close>

theorem day_num_calendar:
  "(valid_date (y, m, d) \<longrightarrow> 1 \<le> day_num y m d \<and> day_num y m d \<le> INT_MAX
      \<and> (next_day ^^ nat (day_num y m d - 1)) (1, 1, 1) = (y, m, d))
   \<and> (day_num y m d = -1 \<longleftrightarrow> \<not> valid_date (y, m, d))"
proof -
  have "valid_date (y, m, d) \<Longrightarrow> (next_day ^^ nat (day_num y m d - 1)) (1, 1, 1) = (y, m, d)"
    using day_num_pos[of y m d] by (intro day_num_counts) auto
  then show ?thesis using day_num_pos day_num_upper day_num_invalid[of y m d] by fastforce
qed

theorem day_num_calendar_witness:
  "day_num 1 12 31 = 365 \<and> (next_day ^^ 364) (1, 1, 1) = (1, 12, 31)"
proof -
  have v: "valid_date (1, 12, 31)" by (simp add: valid_date_def month_days_def days_in_month_def macro_defs)
  have n: "day_num 1 12 31 = 365"
    by (simp add: day_num_def max_year macro_defs days_in_month_def eval_nat_numeral leap_def)
  from day_num_calendar[of 1 12 31] v show ?thesis unfolding n by simp
qed

end
