(* ===== verification/AnaLock.thy ===== *)
theory AnaLock
  imports AnaTab AnaGregor
begin

text \<open>
  \<open>cronie-1.4.6/anacron/lock.c\<close>: the time stamps that say when a job last ran, and the choice of the jobs to run
  (\<open>arrange_jobs\<close> of \<open>readtab.c\<close>). The spool directory maps the identifier of a job to the text of its
  time stamp. \<open>sys\<close> says which system calls succeed, \<open>others\<close> which files another process has locked.
\<close>

record spool =
  sp_files :: "string \<Rightarrow> string option"
  sp_log :: alog

record daycfg =
  force :: bool
  update_only :: bool
  testing_only :: bool
  now_opt :: bool
  year :: int
  month :: int
  day_of_month :: int
  day_now :: int
  tm_now :: tm
  sys :: "string \<Rightarrow> bool"
  others :: "string \<Rightarrow> bool"

definition dies :: "string \<Rightarrow> spool \<Rightarrow> (spool, 'a) ares" where
  "dies m s = Exit 1 (s\<lparr>sp_log := ana_die_e m [] (sp_log s)\<rparr>)"

text \<open>Opening creates a missing file.\<close>

definition open_tsfile :: "daycfg \<Rightarrow> job_rec \<Rightarrow> spool \<Rightarrow> (spool, spool) ares" where
  "open_tsfile w jr s =
     (if \<not> sys w ''open'' then dies (''Can't open timestamp file for job '' @ a_ident jr) s
      else
        let s1 = (if sp_files s (a_ident jr) = None then s\<lparr>sp_files := (sp_files s)(a_ident jr \<mapsto> [])\<rparr> else s) in
        if \<not> sys w ''fchown'' then dies (''Can't chown timestamp file '' @ a_ident jr) s1
        else if \<not> sys w ''fchmod'' then dies (''Can't chmod timestamp file '' @ a_ident jr) s1
        else Go s1)"

text \<open>1 for success, 0 when another process holds the lock.\<close>

definition lock_file :: "daycfg \<Rightarrow> job_rec \<Rightarrow> spool \<Rightarrow> (spool, bool) ares" where
  "lock_file w jr s = (if \<not> sys w ''fcntl'' then dies ''fcntl() error'' s else Go (\<not> others w (a_ident jr)))"

definition xclose :: "daycfg \<Rightarrow> spool \<Rightarrow> (spool, spool) ares" where
  "xclose w s = (if \<not> sys w ''close'' then dies ''Can't close file descriptor'' s else Go s)"

text \<open>One conversion \<open>%<n>d\<close> of \<open>sscanf\<close>: blanks are skipped, a sign counts as one of the characters.\<close>

definition scan_d :: "nat \<Rightarrow> string \<Rightarrow> (int \<times> string) option" where
  "scan_d n s =
     (let t = dropWhile c_isspace s;
          sgn = (t \<noteq> [] \<and> (hd t = CHR ''-'' \<or> hd t = CHR ''+''));
          u = (if sgn then tl t else t);
          ds = takeWhile c_isdigit (take (if sgn then n - 1 else n) u);
          v = digits_val 0 ds
      in if ds = [] then None else Some (if sgn \<and> hd t = CHR ''-'' then - v else v, drop (length ds) u))"

definition scan_date :: "string \<Rightarrow> (int \<times> int \<times> int) option" where
  "scan_date s =
     (case scan_d 4 s of
        None \<Rightarrow> None
      | Some (y, s1) \<Rightarrow>
          (case scan_d 2 s1 of
             None \<Rightarrow> None
           | Some (m, s2) \<Rightarrow> (case scan_d 2 s2 of None \<Rightarrow> None | Some (d, _) \<Rightarrow> Some (y, m, d))))"

text \<open>The number of days since the job ran; the file holds eight bytes or more.\<close>

definition day_delta :: "daycfg \<Rightarrow> string \<Rightarrow> int" where
  "day_delta w txt =
     (let dn = (case scan_date (cstr (take 8 txt)) of None \<Rightarrow> 0 | Some (y, m, d) \<Rightarrow> day_num y m d)
      in s32 (day_now w - dn))"

text \<open>The named periods: the days that must have passed, and the number of days at which the job runs anyway.
  \<^const>\<open>None\<close> is the unknown period that makes the program die.\<close>

definition period_bounds :: "daycfg \<Rightarrow> int \<Rightarrow> (int \<times> int) option" where
  "period_bounds w named =
     (if named = 1 then Some (days_last_month (tm_now w), days_this_month (tm_now w))
      else if named = 2 then Some (days_last_year (tm_now w), days_this_year (tm_now w))
      else if named = 3 then Some (1, 1)
      else if named = 4 then Some (7, 7)
      else None)"

definition too_early :: "daycfg \<Rightarrow> job_rec \<Rightarrow> string \<Rightarrow> bool option" where
  "too_early w jr txt =
     (if \<not> force w \<and> length txt \<ge> 8 then
        let delta = day_delta w txt in
        if 0 \<le> delta \<and> delta < a_period jr then Some True
        else if a_named_period jr \<noteq> 0 then
          map_option (\<lambda>(per, bypass). delta < per \<and> delta \<noteq> bypass) (period_bounds w (a_named_period jr))
        else Some False
      else Some False)"

definition consider_job :: "daycfg \<Rightarrow> job_rec \<Rightarrow> spool \<Rightarrow> (spool, bool \<times> spool) ares" where
  "consider_job w jr s =
     go_on (open_tsfile w jr s) (\<lambda>s1.
       if \<not> sys w ''read'' then dies (''Error reading timestamp file '' @ a_ident jr) s1
       else case too_early w jr (the (sp_files s1 (a_ident jr))) of
         None \<Rightarrow> Exit 1 (s1\<lparr>sp_log := ana_die (''Unknown named period for '' @ a_ident jr) (sp_log s1)\<rparr>)
       | Some True \<Rightarrow> go_on (xclose w s1) (\<lambda>s2. Go (False, s2))
       | Some False \<Rightarrow>
           go_on (lock_file w jr s1) (\<lambda>locked.
             if locked then Go (True, s1)
             else go_on (xclose w s1) (\<lambda>s2.
               Go (False, s2\<lparr>sp_log := explain (''Job `'' @ a_ident jr @ CHR 0x27 # '' locked by another anacron - skipping'') (sp_log s2)\<rparr>))))"

text \<open>\<open>%0<n>d\<close>\<close>

definition pad_dec :: "nat \<Rightarrow> int \<Rightarrow> string" where
  "pad_dec n x =
     (if x < 0 then let t = dec (nat (- x)) in CHR ''-'' # replicate (n - 1 - length t) CHR ''0'' @ t
      else let t = dec (nat x) in replicate (n - length t) CHR ''0'' @ t)"

definition stamp_text :: "daycfg \<Rightarrow> string" where
  "stamp_text w = take 9 (pad_dec 4 (year w) @ pad_dec 2 (month w) @ pad_dec 2 (day_of_month w) @ [NL])"

definition update_timestamp :: "daycfg \<Rightarrow> job_rec \<Rightarrow> spool \<Rightarrow> (spool, spool) ares" where
  "update_timestamp w jr s =
     (let old = the (sp_files s (a_ident jr)); n = length (stamp_text w) in
      if \<not> sys w ''lseek'' then dies (''Can't lseek timestamp file for job '' @ a_ident jr) s
      else if \<not> sys w ''write'' then dies (''Can't write timestamp file for job '' @ a_ident jr) s
      else if \<not> sys w ''ftruncate''
      then dies ''ftruncate error'' (s\<lparr>sp_files := (sp_files s)(a_ident jr \<mapsto> stamp_text w @ drop n old)\<rparr>)
      else Go (s\<lparr>sp_files := (sp_files s)(a_ident jr \<mapsto> stamp_text w)\<rparr>))"

definition fake_job :: "daycfg \<Rightarrow> job_rec \<Rightarrow> spool \<Rightarrow> (spool, spool) ares" where
  "fake_job w jr s =
     go_on (open_tsfile w jr s) (\<lambda>s1. go_on (update_timestamp w jr s1) (\<lambda>s2. xclose w s2))"

section \<open>Arranging the jobs\<close>

definition execution_order :: "bool \<Rightarrow> job_rec \<Rightarrow> job_rec \<Rightarrow> int" where
  "execution_order nw j1 j2 =
     (let d = s32 (a_arg_num j1 - a_arg_num j2) in
      if d \<noteq> 0 \<and> nw then d
      else
        let d = s32 (a_delay j1 - a_delay j2) in
        if d \<noteq> 0 then d else s32 (a_tab_line j1 - a_tab_line j2))"

text \<open>\<open>qsort\<close>: any sorting algorithm gives the same array, the order is total on jobs of different lines.\<close>

fun qs_insert :: "('a \<Rightarrow> 'a \<Rightarrow> int) \<Rightarrow> 'a \<Rightarrow> 'a list \<Rightarrow> 'a list" where
  "qs_insert cmp x [] = [x]"
| "qs_insert cmp x (y # ys) = (if cmp x y \<le> 0 then x # y # ys else y # qs_insert cmp x ys)"

definition qsort :: "('a \<Rightarrow> 'a \<Rightarrow> int) \<Rightarrow> 'a list \<Rightarrow> 'a list" where
  "qsort cmp xs = foldr (qs_insert cmp) xs []"

text \<open>The loop over the list of jobs; a job that is going to run keeps its time stamp open and locked.\<close>

fun arrange_loop :: "daycfg \<Rightarrow> job_rec list \<Rightarrow> spool \<Rightarrow> (spool, job_rec list \<times> spool) ares" where
  "arrange_loop w [] s = Go ([], s)"
| "arrange_loop w (j # js) s =
     (if a_arg_num j = -1 then arrange_loop w js s
      else if update_only w \<or> testing_only w then go_on (arrange_loop w js s) (\<lambda>(sel, s1). Go (j # sel, s1))
      else go_on (consider_job w j s) (\<lambda>(run, s1).
        go_on (arrange_loop w js s1) (\<lambda>(sel, s2). Go (if run then j\<lparr>a_locked := True\<rparr> # sel else sel, s2))))"

definition arrange_jobs :: "daycfg \<Rightarrow> job_rec list \<Rightarrow> spool \<Rightarrow> (spool, job_rec list \<times> spool) ares" where
  "arrange_jobs w js s = go_on (arrange_loop w js s) (\<lambda>(sel, s1). Go (qsort (execution_order (now_opt w)) sel, s1))"

end
