(* ===== verification/AnaRun.thy ===== *)
theory AnaRun
  imports AnaLock
begin

text \<open>
  \<open>cronie-1.4.6/anacron/runjob.c\<close>: starting the jobs, and looking after the processes that end. The global
  \<open>job_array\<close>, the counters, the environment of the process and the spool directory are the record \<open>arun\<close>; it also
  records what was executed (command and environment of each shell) and what was mailed. Process ids
  are numbered upwards. The temporary file of a job is its field \<open>a_output\<close>: the mail header, and
  what the job has written once it has ended. What fails inside a child after the \<open>fork\<close> shows
  only in its exit status and output.
\<close>

section \<open>The state\<close>

record arun =
  r_jobs :: "job_rec list"
  r_spool :: spool
  r_env :: env
  running_jobs :: int
  running_mailers :: int
  r_next_pid :: int
  got_sigalrm :: bool
  r_execs :: "(string \<times> env) list"
  r_mails :: "(string \<times> string) list"

datatype topen = TOk | TExist | TErr | TNoName

datatype wstat = Exited int | Signaled int | OtherEnd

datatype wres = WaitErr | WaitNone | WaitDone wstat

record runsys =
  rs_day :: daycfg
  rs_envs :: "string list"
  rs_hostname :: "string option"
  rs_user :: "string option"
  rs_codeset :: string
  rs_temp :: "string \<Rightarrow> nat \<Rightarrow> topen"
  rs_sendmail :: bool
  rs_out :: "string \<Rightarrow> string"

definition r_sys :: "runsys \<Rightarrow> string \<Rightarrow> bool" where
  "r_sys w f = sys (rs_day w) f"

definition rlog :: "(alog \<Rightarrow> alog) \<Rightarrow> arun \<Rightarrow> arun" where
  "rlog f st = st\<lparr>r_spool := (r_spool st)\<lparr>sp_log := f (sp_log (r_spool st))\<rparr>\<rparr>"

definition rdies :: "string \<Rightarrow> arun \<Rightarrow> (arun, 'a) ares" where
  "rdies m st = Exit 1 (rlog (ana_die_e m []) st)"

fun in_spool :: "(spool, spool) ares \<Rightarrow> arun \<Rightarrow> (arun, arun) ares" where
  "in_spool (Go sp) st = Go (st\<lparr>r_spool := sp\<rparr>)"
| "in_spool (Exit n sp) st = Exit n (st\<lparr>r_spool := sp\<rparr>)"

definition upd_job :: "nat \<Rightarrow> (job_rec \<Rightarrow> job_rec) \<Rightarrow> arun \<Rightarrow> arun" where
  "upd_job k f st = st\<lparr>r_jobs := (r_jobs st)[k := f (r_jobs st ! k)]\<rparr>"

section \<open>Starting a job\<close>

text \<open>The loop of \<open>temp_file\<close>: at most \<open>max_retries\<close> attempts; \<open>f i\<close> is the result of the \<open>i\<close>-th.\<close>

definition max_retries :: nat where [macro_defs]: "max_retries = 50"

function temp_loop :: "(nat \<Rightarrow> topen) \<Rightarrow> nat \<Rightarrow> topen" where
  "temp_loop f i = (if f i = TExist \<and> i < max_retries then temp_loop f (i + 1) else f i)"
  by pat_completeness auto
termination by (relation "measure (\<lambda>(f, i). max_retries - i)") auto

declare temp_loop.simps [simp del]

definition temp_file :: "runsys \<Rightarrow> nat \<Rightarrow> arun \<Rightarrow> (arun, arun) ares" where
  "temp_file w k st =
     (case temp_loop (rs_temp w (a_ident (r_jobs st ! k))) 1 of
        TNoName \<Rightarrow> Exit 1 (rlog (ana_die ''Can't find a unique temporary filename'') st)
      | TExist \<Rightarrow> rdies ''Can't open temporary file for writing'' st
      | TErr \<Rightarrow> rdies ''Can't open temporary file for writing'' st
      | TOk \<Rightarrow>
          if \<not> r_sys w ''open_tmp'' then rdies ''Can't open temporary file for reading'' st
          else if \<not> r_sys w ''unlink'' then rdies ''Can't unlink temporary file'' st
          else Go (upd_job k (\<lambda>j. j\<lparr>a_output := []\<rparr>) st))"

definition username :: "runsys \<Rightarrow> arun \<Rightarrow> (arun, string) ares" where
  "username w st = (case rs_user w of None \<Rightarrow> rdies ''getpwuid() error'' st | Some u \<Rightarrow> Go u)"

text \<open>\<open>setup_env\<close>: the settings from the first up to the last before the job. \<open>putenv\<close> replaces a variable or adds it.\<close>

fun put_envs :: "runsys \<Rightarrow> string list \<Rightarrow> arun \<Rightarrow> (arun, arun) ares" where
  "put_envs w [] st = Go st"
| "put_envs w (e # es) st =
     (if \<not> r_sys w ''putenv'' then rdies ''Can't set the environment'' st
      else put_envs w es (st\<lparr>r_env := env_store (r_env st) e\<rparr>))"

definition setup_env :: "runsys \<Rightarrow> nat \<Rightarrow> arun \<Rightarrow> (arun, arun) ares" where
  "setup_env w k st = put_envs w (take (a_prev_env (r_jobs st ! k)) (rs_envs w)) st"

definition header_text :: "runsys \<Rightarrow> string \<Rightarrow> string \<Rightarrow> string \<Rightarrow> string" where
  "header_text w user mailto idn =
     ''From: Anacron <'' @ user @ ''>'' @ [NL] @ ''To: '' @ mailto @ [NL] @
     ''Content-Type: text/plain; charset='' @ CHR 0x22 # rs_codeset w @ CHR 0x22 # [NL] @
     ''Subject: Anacron job '' @ CHR 0x27 # idn @ CHR 0x27 # '' on '' @
     (case rs_hostname w of None \<Rightarrow> ''unknown machine'' | Some h \<Rightarrow> h) @ [NL, NL]"

text \<open>The child of \<open>launch_job\<close> becomes the shell (\<open>run_job\<close>).\<close>

definition run_job :: "nat \<Rightarrow> arun \<Rightarrow> arun" where
  "run_job k st = st\<lparr>r_execs := r_execs st @ [(a_command (r_jobs st ! k), r_env st)]\<rparr>"

definition job_msg :: "string \<Rightarrow> string \<Rightarrow> string \<Rightarrow> string" where
  "job_msg a idn b = a @ CHR 0x60 # idn @ CHR 0x27 # b"

definition xfork :: "runsys \<Rightarrow> arun \<Rightarrow> (arun, int \<times> arun) ares" where
  "xfork w st =
     (if \<not> r_sys w ''fork'' then rdies ''Can't fork'' st
      else Go (r_next_pid st, st\<lparr>r_next_pid := r_next_pid st + 1\<rparr>))"

definition launch_job :: "runsys \<Rightarrow> nat \<Rightarrow> arun \<Rightarrow> (arun, arun) ares" where
  "launch_job w k st =
     go_on (setup_env w k st) (\<lambda>st1.
     go_on (case env_get ''MAILTO'' (r_env st1) of Some m \<Rightarrow> Go m | None \<Rightarrow> username w st1) (\<lambda>mailto.
     go_on (temp_file w k (upd_job k (\<lambda>j. j\<lparr>a_mailto := mailto\<rparr>) st1)) (\<lambda>st2.
     if \<not> r_sys w ''write_tmp'' then rdies ''Can't write to temporary file'' st2
     else
       go_on (username w st2) (\<lambda>user.
       let idn = a_ident (r_jobs st2 ! k); header = header_text w user mailto idn in
       if \<not> r_sys w ''fstat'' then rdies ''Can't fstat temporary file'' st2
       else
         go_on (xfork w (upd_job k (\<lambda>j. j\<lparr>a_output := header, a_header := length header\<rparr>) st2)) (\<lambda>(pid, st3).
         let st4 = rlog (explain (job_msg ''Job '' idn '' started'')) (run_job k st3) in
         Go ((upd_job k (\<lambda>j. j\<lparr>a_job_pid := pid\<rparr>) st4)\<lparr>running_jobs := running_jobs st4 + 1\<rparr>))))))"

section \<open>Ending processes\<close>

definition launch_mailer :: "runsys \<Rightarrow> nat \<Rightarrow> arun \<Rightarrow> (arun, arun) ares" where
  "launch_mailer w k st =
     (if \<not> rs_sendmail w then Go (rlog (complain ''Can't find sendmail at /usr/sbin/sendmail, not mailing output'') st)
      else
        go_on (xfork w st) (\<lambda>(pid, st1).
        let j = r_jobs st1 ! k; st2 = st1\<lparr>r_mails := r_mails st1 @ [(a_mailto j, a_output j)]\<rparr> in
        Go ((upd_job k (\<lambda>j. j\<lparr>a_mailer_pid := pid\<rparr>) st2)\<lparr>running_mailers := running_mailers st2 + 1\<rparr>)))"

definition tend_mailer :: "nat \<Rightarrow> wstat \<Rightarrow> arun \<Rightarrow> arun" where
  "tend_mailer k status st =
     (let idn = a_ident (r_jobs st ! k);
          m = (\<lambda>t. complain (job_msg ''Tried to mail output of job '' idn ('', but mailer process (/usr/sbin/sendmail) '' @ t)));
          st1 = (case status of
                   Exited n \<Rightarrow> if n \<noteq> 0 then rlog (m (''exited with status '' @ dec (nat n))) st else st
                 | Signaled n \<Rightarrow> rlog (m (''got signal '' @ dec (nat n))) st
                 | OtherEnd \<Rightarrow> rlog (m ''terminated abnormally'') st)
      in (upd_job k (\<lambda>j. j\<lparr>a_mailer_pid := 0\<rparr>) st1)\<lparr>running_mailers := running_mailers st1 - 1\<rparr>)"

definition end_msg :: "string \<Rightarrow> wstat \<Rightarrow> string \<Rightarrow> alog \<Rightarrow> alog" where
  "end_msg idn status m =
     (case status of
        Exited n \<Rightarrow>
          if n = 0 then explain (job_msg ''Job '' idn ('' terminated'' @ m))
          else explain (job_msg ''Job '' idn ('' terminated (exit status: '' @ dec (nat n) @ '')'' @ m))
      | Signaled n \<Rightarrow> complain (job_msg ''Job '' idn ('' terminated due to signal '' @ dec (nat n) @ m))
      | OtherEnd \<Rightarrow> complain (job_msg ''Job '' idn ('' terminated abnormally'' @ m)))"

text \<open>The middle of \<open>tend_job\<close>: whether there is output to mail, the message, and the job is no longer running.\<close>

definition report_job :: "runsys \<Rightarrow> nat \<Rightarrow> wstat \<Rightarrow> arun \<Rightarrow> bool \<times> arun" where
  "report_job w k status st =
     (let idn = a_ident (r_jobs st ! k);
          st1 = upd_job k (\<lambda>j. j\<lparr>a_output := a_output j @ rs_out w idn\<rparr>) st;
          mail_output = (length (a_output (r_jobs st1 ! k)) > a_header (r_jobs st1 ! k));
          st2 = rlog (end_msg idn status (if mail_output then '' (mailing output)'' else [])) st1
      in (mail_output, (upd_job k (\<lambda>j. j\<lparr>a_job_pid := 0\<rparr>) st2)\<lparr>running_jobs := running_jobs st2 - 1\<rparr>))"

definition tend_job :: "runsys \<Rightarrow> nat \<Rightarrow> wstat \<Rightarrow> arun \<Rightarrow> (arun, arun) ares" where
  "tend_job w k status st =
     go_on (in_spool (update_timestamp (rs_day w) (r_jobs st ! k) (r_spool st)) st) (\<lambda>st1.
     go_on (in_spool (xclose (rs_day w) (r_spool st1)) (upd_job k (\<lambda>j. j\<lparr>a_locked := False\<rparr>) st1)) (\<lambda>st2.
     if \<not> r_sys w ''fstat'' then rdies ''Can't fstat temporary file'' st2
     else case report_job w k status st2 of
       (mail_output, st3) \<Rightarrow>
         go_on (if mail_output then launch_mailer w k st3 else Go st3) (\<lambda>st4.
         if \<not> r_sys w ''close'' then rdies ''Can't close file descriptor'' st4 else Go st4)))"

text \<open>The body of the loop of \<open>tend_children\<close> for job \<open>k\<close>; \<open>wt\<close> gives the results of \<open>waitpid\<close>.\<close>

definition tend_one :: "runsys \<Rightarrow> (int \<Rightarrow> wres) \<Rightarrow> nat \<Rightarrow> arun \<Rightarrow> (arun, arun) ares" where
  "tend_one w wt k st =
     go_on (if a_mailer_pid (r_jobs st ! k) \<noteq> 0 then
              (case wt (a_mailer_pid (r_jobs st ! k)) of
                 WaitErr \<Rightarrow> rdies ''waitpid() error'' st
               | WaitNone \<Rightarrow> Go st
               | WaitDone status \<Rightarrow> Go (tend_mailer k status st))
            else Go st) (\<lambda>st1.
     if a_job_pid (r_jobs st1 ! k) \<noteq> 0 then
       (case wt (a_job_pid (r_jobs st1 ! k)) of
          WaitErr \<Rightarrow> rdies ''waitpid() error'' st1
        | WaitNone \<Rightarrow> Go st1
        | WaitDone status \<Rightarrow> tend_job w k status st1)
     else Go st1)"

fun tend_loop :: "runsys \<Rightarrow> (int \<Rightarrow> wres) \<Rightarrow> nat list \<Rightarrow> arun \<Rightarrow> (arun, arun) ares" where
  "tend_loop w wt [] st = Go st"
| "tend_loop w wt (k # ks) st = go_on (tend_one w wt k st) (tend_loop w wt ks)"

definition tend_children :: "runsys \<Rightarrow> (int \<Rightarrow> wres) \<Rightarrow> arun \<Rightarrow> (arun, arun) ares" where
  "tend_children w wt st = tend_loop w wt [0..<length (r_jobs st)] st"

end
