(* ===== verification/AnaMain.thy ===== *)
theory AnaMain
  imports AnaRun
begin

text \<open>
  \<open>cronie-1.4.6/anacron/main.c\<close>: the options, the waiting loops and the whole program. A signal that
  interrupts \<open>sigsuspend\<close> is an element of a list, with the results \<open>waitpid\<close> gives then; \<^const>\<open>None\<close> is a
  process that waits for ever because no further signal comes.
\<close>

section \<open>Options\<close>

record aopts =
  serialize :: bool
  o_force :: bool
  o_update_only :: bool
  o_now :: bool
  no_daemon :: bool
  o_quiet :: bool
  o_testing_only :: bool
  anacrontab :: "string option"
  spooldir :: "string option"
  a_args :: "string list"

fun opt_loop :: "(char \<times> string) list \<Rightarrow> aopts \<Rightarrow> (int, aopts) ares" where
  "opt_loop [] r = Go r"
| "opt_loop ((c, optarg) # os) r =
     (if c = CHR ''s'' then opt_loop os (r\<lparr>serialize := True\<rparr>)
      else if c = CHR ''f'' then opt_loop os (r\<lparr>o_force := True\<rparr>)
      else if c = CHR ''u'' then opt_loop os (r\<lparr>o_update_only := True\<rparr>)
      else if c = CHR ''n'' then opt_loop os (r\<lparr>o_now := True, serialize := True\<rparr>)
      else if c = CHR ''d'' then opt_loop os (r\<lparr>no_daemon := True\<rparr>)
      else if c = CHR ''q'' then opt_loop os (r\<lparr>o_quiet := True\<rparr>)
      else if c = CHR ''t'' then opt_loop os (r\<lparr>anacrontab := Some optarg\<rparr>)
      else if c = CHR ''T'' then opt_loop os (r\<lparr>o_testing_only := True\<rparr>)
      else if c = CHR ''S'' then opt_loop os (r\<lparr>spooldir := Some optarg\<rparr>)
      else if c = CHR ''V'' \<or> c = CHR ''h'' then Exit 0 0
      else Exit 1 1)"

definition parse_opts :: "(char \<times> string) list \<Rightarrow> string list \<Rightarrow> (int, aopts) ares" where
  "parse_opts os operands =
     go_on (opt_loop os \<lparr>serialize = False, o_force = False, o_update_only = False, o_now = False, no_daemon = False, o_quiet = False,
              o_testing_only = False, anacrontab = None, spooldir = None, a_args = []\<rparr>)
       (\<lambda>r. Go (r\<lparr>a_args := (if operands = [] then [''*''] else operands)\<rparr>))"

section \<open>Waiting\<close>

record sigev =
  ev_alrm :: bool
  ev_chld :: bool
  ev_usr1 :: bool
  ev_wait :: "int \<Rightarrow> wres"

text \<open>One return of \<open>wait_signal\<close>, and the children tended when \<open>SIGCHLD\<close> was among the signals.\<close>

definition on_signal :: "runsys \<Rightarrow> sigev \<Rightarrow> arun \<Rightarrow> (arun, arun) ares" where
  "on_signal w e st =
     (let st1 = st\<lparr>got_sigalrm := got_sigalrm st \<or> ev_alrm e\<rparr> in
      if ev_chld e then tend_children w (ev_wait e) st1 else Go st1)"

fun wait_children :: "runsys \<Rightarrow> sigev list \<Rightarrow> arun \<Rightarrow> (arun, arun \<times> sigev list) ares option" where
  "wait_children w [] st = (if running_jobs st > 0 \<or> running_mailers st > 0 then None else Some (Go (st, [])))"
| "wait_children w (e # es) st =
     (if running_jobs st > 0 \<or> running_mailers st > 0 then
        (case on_signal w e st of
           Exit n st1 \<Rightarrow> Some (Exit n st1)
         | Go st1 \<Rightarrow> wait_children w es (if ev_usr1 e then rlog (explain ''Received SIGUSR1'') st1 else st1))
      else Some (Go (st, e # es)))"

definition orderly_termination :: "runsys \<Rightarrow> sigev list \<Rightarrow> arun \<Rightarrow> (arun, 'a) ares option" where
  "orderly_termination w es st =
     (case wait_children w es (rlog (explain ''Received SIGUSR1'') st) of
        None \<Rightarrow> None
      | Some (Exit n st1) \<Rightarrow> Some (Exit n st1)
      | Some (Go (st1, _)) \<Rightarrow> Some (Exit 0 (rlog (explain ''Exited'') st1)))"

fun sleep_loop_a :: "runsys \<Rightarrow> sigev list \<Rightarrow> arun \<Rightarrow> (arun, arun \<times> sigev list) ares option" where
  "sleep_loop_a w [] st = None"
| "sleep_loop_a w (e # es) st =
     (case on_signal w e st of
        Exit n st1 \<Rightarrow> Some (Exit n st1)
      | Go st1 \<Rightarrow>
          if ev_usr1 e then orderly_termination w es st1
          else if \<not> got_sigalrm st1 then sleep_loop_a w es st1
          else Some (Go (st1\<lparr>got_sigalrm := False\<rparr>, es)))"

definition xsleep :: "runsys \<Rightarrow> int \<Rightarrow> sigev list \<Rightarrow> arun \<Rightarrow> (arun, arun \<times> sigev list) ares option" where
  "xsleep w n es st = (if n = 0 then Some (Go (st, es)) else sleep_loop_a w es st)"

fun wait_jobs :: "runsys \<Rightarrow> sigev list \<Rightarrow> arun \<Rightarrow> (arun, arun \<times> sigev list) ares option" where
  "wait_jobs w [] st = (if running_jobs st > 0 then None else Some (Go (st, [])))"
| "wait_jobs w (e # es) st =
     (if running_jobs st > 0 then
        (case on_signal w e st of
           Exit n st1 \<Rightarrow> Some (Exit n st1)
         | Go st1 \<Rightarrow> if ev_usr1 e then orderly_termination w es st1 else wait_jobs w es st1)
      else Some (Go (st, e # es)))"

section \<open>The program\<close>

text \<open>\<open>unsigned int\<close> arithmetic on the seconds; \<open>delay * 60\<close> is an \<open>int\<close>.\<close>

definition u32 :: "int \<Rightarrow> int" where
  "u32 x = x mod 2 ^ 32"

definition time_till :: "bool \<Rightarrow> int \<Rightarrow> int \<Rightarrow> job_rec \<Rightarrow> int" where
  "time_till nw start_sec t jr =
     (if nw then 0
      else
        let tn = u32 t; tj = u32 (start_sec + s32 (a_delay jr * 60)) in
        if tj < tn then 0 else s32 (tj - tn))"

definition record_start_time :: "daycfg \<Rightarrow> tm \<Rightarrow> alog \<Rightarrow> (alog, daycfg \<times> alog) ares" where
  "record_start_time d t l =
     (let y = tm_year t + 1900; m = tm_mon t + 1; dom = tm_mday t;
          d1 = d\<lparr>year := y, month := m, day_of_month := dom, day_now := day_num y m dom, tm_now := t\<rparr> in
      if day_now d1 = -1 then Exit 1 (ana_die ''Invalid date (this is really embarrassing)'' l)
      else Go (d1, if \<not> update_only d \<and> \<not> testing_only d
                   then explain (''Anacron started on '' @ pad_dec 4 y @ ''-'' @ pad_dec 2 m @ ''-'' @ pad_dec 2 dom) l else l))"

fun fake_jobs :: "daycfg \<Rightarrow> job_rec list \<Rightarrow> spool \<Rightarrow> (spool, spool) ares" where
  "fake_jobs d [] s = Go s"
| "fake_jobs d (j # js) s =
     go_on (fake_job d j s) (\<lambda>s1.
       fake_jobs d js (s1\<lparr>sp_log := explain (job_msg ''Updated timestamp for job '' (a_ident j)
         ('' to '' @ pad_dec 4 (year d) @ ''-'' @ pad_dec 2 (month d) @ ''-'' @ pad_dec 2 (day_of_month d))) (sp_log s1)\<rparr>))"

text \<open>A job whose time falls out of the hours of \<open>START_HOURS_RANGE\<close> is dropped; \<open>hour\<close> is \<open>tm_hour\<close> of \<open>localtime\<close>.\<close>

definition out_of_range :: "(int \<Rightarrow> int) \<Rightarrow> int \<Rightarrow> int \<Rightarrow> int \<Rightarrow> job_rec \<Rightarrow> bool" where
  "out_of_range hour start_sec from to j \<longleftrightarrow>
     (let h = hour (start_sec + s32 (a_delay j * 60)) in from \<noteq> -1 \<and> to \<noteq> -1 \<and> (h < from \<or> h \<ge> to))"

fun intentions :: "bool \<Rightarrow> (int \<Rightarrow> int) \<Rightarrow> int \<Rightarrow> int \<Rightarrow> int \<Rightarrow> job_rec list \<Rightarrow> alog \<Rightarrow> job_rec list \<times> alog" where
  "intentions nw hour start_sec from to [] l = ([], l)"
| "intentions nw hour start_sec from to (j # js) l =
     (let drop = (\<not> nw \<and> out_of_range hour start_sec from to j);
          l1 = (if nw then explain (''Will run job `'' @ a_ident j @ [CHR 0x27]) l
                else if drop then l
                else explain (''Will run job `'' @ a_ident j @ CHR 0x27 # '' in '' @ dec (nat (a_delay j)) @ '' min.'') l)
      in case intentions nw hour start_sec from to js l1 of
           (js1, l2) \<Rightarrow> ((if drop then j\<lparr>a_drop_job := 1\<rparr> else j) # js1, l2))"

definition explain_intentions :: "bool \<Rightarrow> bool \<Rightarrow> (int \<Rightarrow> int) \<Rightarrow> int \<Rightarrow> int \<Rightarrow> int \<Rightarrow> job_rec list \<Rightarrow> alog \<Rightarrow> job_rec list \<times> alog" where
  "explain_intentions nw ser hour start_sec from to js l =
     (case intentions nw hour start_sec from to js l of
        (js1, l1) \<Rightarrow> (js1, if ser \<and> js \<noteq> [] then explain ''Jobs will be executed sequentially'' l1 else l1))"

text \<open>One job of the array: its time is waited for, with \<open>-s\<close> also the end of the running jobs, and it is started.\<close>

definition start_one ::
  "runsys \<Rightarrow> bool \<Rightarrow> bool \<Rightarrow> int \<Rightarrow> int \<Rightarrow> nat \<Rightarrow> sigev list \<Rightarrow> arun \<Rightarrow> (arun, arun \<times> sigev list) ares option" where
  "start_one w nw ser start_sec t k es st =
     (case xsleep w (time_till nw start_sec t (r_jobs st ! k)) es st of
        None \<Rightarrow> None
      | Some (Exit n st1) \<Rightarrow> Some (Exit n st1)
      | Some (Go (st1, es1)) \<Rightarrow>
          (case (if ser then wait_jobs w es1 st1 else Some (Go (st1, es1))) of
             None \<Rightarrow> None
           | Some (Exit n st2) \<Rightarrow> Some (Exit n st2)
           | Some (Go (st2, es2)) \<Rightarrow> Some (go_on (launch_job w k st2) (\<lambda>st3. Go (st3, es2)))))"

text \<open>The loop over the array; \<open>clock k\<close> is the time when job \<open>k\<close> is looked at. The counter of dropped jobs is the last argument.\<close>

fun main_loop ::
  "runsys \<Rightarrow> bool \<Rightarrow> bool \<Rightarrow> int \<Rightarrow> (nat \<Rightarrow> int) \<Rightarrow> nat list \<Rightarrow> sigev list \<Rightarrow> arun \<Rightarrow> nat \<Rightarrow> (arun, arun \<times> sigev list \<times> nat) ares option" where
  "main_loop w nw ser start_sec clock [] es st dropped = Some (Go (st, es, dropped))"
| "main_loop w nw ser start_sec clock (k # ks) es st dropped =
     (if a_drop_job (r_jobs st ! k) = 1 then main_loop w nw ser start_sec clock ks es st (dropped + 1)
      else case start_one w nw ser start_sec (clock k) k es st of
        None \<Rightarrow> None
      | Some (Exit n st1) \<Rightarrow> Some (Exit n st1)
      | Some (Go (st1, es1)) \<Rightarrow> main_loop w nw ser start_sec clock ks es1 st1 dropped)"

text \<open>From the start of the first job to the exit.\<close>

definition run_all ::
  "runsys \<Rightarrow> bool \<Rightarrow> bool \<Rightarrow> int \<Rightarrow> (nat \<Rightarrow> int) \<Rightarrow> sigev list \<Rightarrow> arun \<Rightarrow> (arun, arun) ares option" where
  "run_all w nw ser start_sec clock es st =
     (case main_loop w nw ser start_sec clock [0..<length (r_jobs st)] es st 0 of
        None \<Rightarrow> None
      | Some (Exit n st1) \<Rightarrow> Some (Exit n st1)
      | Some (Go (st1, es1, dropped)) \<Rightarrow>
          (case wait_children w es1 st1 of
             None \<Rightarrow> None
           | Some (Exit n st2) \<Rightarrow> Some (Exit n st2)
           | Some (Go (st2, _)) \<Rightarrow>
               let n = length (r_jobs st2) - dropped in
               Some (Go (rlog (explain (''Normal exit ('' @ dec n @ '' job'' @ (if n = 1 then [] else ''s'') @ '' run)'')) st2))))"

record aworld =
  aw_default_tab :: string
  aw_default_spool :: string
  aw_tab :: "string \<Rightarrow> string option"
  aw_sys :: "string \<Rightarrow> bool"
  aw_tm :: tm
  aw_start :: int
  aw_clock :: "nat \<Rightarrow> int"
  aw_hour :: "int \<Rightarrow> int"
  aw_tw :: tabworld
  aw_rs :: runsys
  aw_events :: "sigev list"

definition log_of :: "arun \<Rightarrow> alog \<Rightarrow> arun" where
  "log_of st l = st\<lparr>r_spool := (r_spool st)\<lparr>sp_log := l\<rparr>\<rparr>"

text \<open>Calls the program does not go on without: each with the message it dies with. \<open>ok\<close> says which succeed.\<close>

fun must_do :: "(string \<Rightarrow> bool) \<Rightarrow> (string \<times> string) list \<Rightarrow> alog \<Rightarrow> (alog, alog) ares" where
  "must_do ok [] l = Go l"
| "must_do ok ((call, msg) # cs) l = (if ok call then must_do ok cs l else Exit 1 (ana_die_e msg [] l))"

text \<open>The child goes on, as the primary process; its parent exits with status 0.\<close>

definition go_background :: "(string \<Rightarrow> bool) \<Rightarrow> alog \<Rightarrow> (alog, alog) ares" where
  "go_background ok l0 =
     go_on (must_do ok
         [(''fclose stdout'', ''Can't close stdout''), (''open 1'', ''Can't open /dev/null on file-descriptor 1''),
          (''fclose stderr'', ''Can't close stderr''), (''open 2'', ''Can't open /dev/null on file-descriptor 2''),
          (''fork'', ''Can't fork'')] l0)
       (\<lambda>l1. go_on (must_do ok [(''setsid'', ''setsid() error'')] (l1\<lparr>is_primary := True\<rparr>))
         (\<lambda>l2. Go (l2\<lparr>in_background := True\<rparr>)))"

text \<open>What comes between the options and the date.\<close>

definition detach :: "(string \<Rightarrow> bool) \<Rightarrow> string \<Rightarrow> aopts \<Rightarrow> alog \<Rightarrow> (alog, alog) ares" where
  "detach ok spl op l0 =
     go_on (must_do ok
         [(''open .'', ''Can't save current directory''), (''chdir'', ''Can't chdir to '' @ spl), (''sigprocmask'', ''sigset error''),
          (''fclose stdin'', ''Can't close stdin''), (''open 0'', ''Can't open /dev/null on file-descriptor 0'')]
         (l0\<lparr>in_background := False\<rparr>))
       (\<lambda>l1. if \<not> no_daemon op \<and> \<not> o_testing_only op then go_background ok l1 else Go (l1\<lparr>is_primary := True\<rparr>))"

text \<open>The first half of \<open>main\<close>: the options, the table and the choice of the jobs. \<open>st0\<close> is the state before.\<close>

definition anacron_prepare ::
  "aworld \<Rightarrow> aopts \<Rightarrow> arun \<Rightarrow> (arun, daycfg \<times> tabstate \<times> arun) ares" where
  "anacron_prepare w op st0 =
     (let spl = (case spooldir op of None \<Rightarrow> aw_default_spool w | Some d \<Rightarrow> d);
          tabname = (case anacrontab op of None \<Rightarrow> aw_default_tab w | Some t \<Rightarrow> t);
          tw = (aw_tw w)\<lparr>tw_name := tabname, tw_args := a_args op\<rparr>;
          day0 = (rs_day (aw_rs w))\<lparr>force := o_force op, update_only := o_update_only op, testing_only := o_testing_only op, now_opt := o_now op\<rparr>
      in
      case detach (aw_sys w) spl op (sp_log (r_spool st0)) of
        Exit n l1 \<Rightarrow> Exit n (log_of st0 l1)
      | Go l1 \<Rightarrow>
          (case record_start_time day0 (aw_tm w) l1 of
             Exit n l2 \<Rightarrow> Exit n (log_of st0 l2)
           | Go (day, l2) \<Rightarrow>
               (case read_tab tw spl (aw_sys w ''chdir back'') (aw_sys w ''read'') (aw_tab w tabname)
                       \<lparr>ts_jobs = [], ts_envs = [], jobs_read = 0, line_num = 0, random_number = 0, range_start = -1, range_stop = -1,
                        ts_log = l2\<rparr> of
                  Exit n l3 \<Rightarrow> Exit n (log_of st0 l3)
                | Go tab \<Rightarrow>
                    (case arrange_jobs day (ts_jobs tab) ((r_spool st0)\<lparr>sp_log := ts_log tab\<rparr>) of
                       Exit n sp \<Rightarrow> Exit n (st0\<lparr>r_spool := sp\<rparr>)
                     | Go (arr, sp) \<Rightarrow> Go (day, tab, st0\<lparr>r_jobs := arr, r_spool := sp\<rparr>)))))"

text \<open>The second half: what the options ask for. The result is the exit status and the state at the exit.\<close>

definition anacron_finish :: "aworld \<Rightarrow> aopts \<Rightarrow> daycfg \<Rightarrow> tabstate \<Rightarrow> arun \<Rightarrow> (int \<times> arun) option" where
  "anacron_finish w op day tab st1 =
     (if o_testing_only op then Some (if complaints (sp_log (r_spool st1)) \<noteq> 0 then 1 else 0, st1)
      else if o_update_only op then
        (case fake_jobs day (r_jobs st1) (r_spool st1) of
           Exit n sp \<Rightarrow> Some (n, st1\<lparr>r_spool := sp\<rparr>)
         | Go sp \<Rightarrow> Some (0, st1\<lparr>r_spool := sp\<rparr>))
      else
        (case explain_intentions (o_now op) (serialize op) (aw_hour w) (aw_start w) (range_start tab) (range_stop tab)
                (r_jobs st1) (sp_log (r_spool st1)) of
           (arr, l) \<Rightarrow>
             (case run_all ((aw_rs w)\<lparr>rs_day := day, rs_envs := ts_envs tab\<rparr>) (o_now op) (serialize op) (aw_start w) (aw_clock w)
                     (aw_events w)
                     ((log_of st1 l)\<lparr>r_jobs := arr, running_jobs := 0, running_mailers := 0, got_sigalrm := False\<rparr>) of
                None \<Rightarrow> None
              | Some (Exit n st2) \<Rightarrow> Some (n, st2)
              | Some (Go st2) \<Rightarrow> Some (0, st2))))"

text \<open>\<open>main\<close>.\<close>

definition anacron_main :: "aworld \<Rightarrow> (char \<times> string) list \<Rightarrow> string list \<Rightarrow> arun \<Rightarrow> (int \<times> arun) option" where
  "anacron_main w os operands st0 =
     (let l0 = (sp_log (r_spool st0))\<lparr>is_primary := False, in_background := False, quiet := False\<rparr>;
          l1 = (if aw_sys w ''gettimeofday'' then l0 else explain ''Can't get exact time, failure.'' l0) in
      case parse_opts os operands of
        Exit n _ \<Rightarrow> Some (n, log_of st0 l1)
      | Go op \<Rightarrow>
          (case anacron_prepare w op (log_of st0 (l1\<lparr>quiet := o_quiet op\<rparr>)) of
             Exit n st1 \<Rightarrow> Some (n, st1)
           | Go (day, tab, st1) \<Rightarrow> anacron_finish w op day tab st1))"

end
