(* ===== verification/AnaLockProps.thy ===== *)
theory AnaLockProps
  imports AnaLock "HOL-Library.Multiset"
begin

text \<open>
  Time stamps: what \<open>update_timestamp\<close> writes is what \<open>consider_job\<close> reads, when a job is due, and which jobs
  \<open>arrange_jobs\<close> chooses in which order.
\<close>

section \<open>Reading back a time stamp\<close>

lemma pad_dec_props:
  assumes "0 \<le> x" and "x < 10 ^ n" and "0 < n"
  shows "list_all c_isdigit (pad_dec n x)" "length (pad_dec n x) = n" "digits_val 0 (pad_dec n x) = x"
proof -
  have z: "c_isdigit (CHR ''0'')" "digit_val (CHR ''0'') = 0" by (simp_all add: ctype_simps digit_val_def ord_char_def)
  have "nat x < 10 ^ n" using assms(1,2) by (simp add: nat_less_iff)
  then have l: "length (dec (nat x)) \<le> n" using assms(3) by (rule dec_length)
  have rep: "digits_val 0 (replicate k (CHR ''0'') @ s) = digits_val 0 s" for k s by (induction k) (simp_all add: z)
  show "list_all c_isdigit (pad_dec n x)" using assms(1) z(1) dec_digits[of "nat x"] by (auto simp: pad_dec_def Let_def list_all_iff)
  show "length (pad_dec n x) = n" using assms(1) l by (simp add: pad_dec_def Let_def)
  show "digits_val 0 (pad_dec n x) = x" using assms(1) by (simp add: pad_dec_def Let_def rep digits_val_dec)
qed

lemma scan_d_digits:
  assumes "list_all c_isdigit ds" and "ds \<noteq> []"
  shows "scan_d (length ds) (ds @ t) = Some (digits_val 0 ds, t)"
proof -
  obtain c cs where d: "ds = c # cs" "c_isdigit c" using assms by (cases ds) auto
  have "takeWhile c_isdigit ds = ds" using assms(1) by (rule takeWhile_all)
  then show ?thesis using c_isdigit_not_special[OF d(2)] d(1) by (simp add: scan_d_def Let_def)
qed

definition date_of :: "daycfg \<Rightarrow> int \<times> int \<times> int" where
  "date_of w = (year w, month w, day_of_month w)"

lemma date_small: "valid_date (y, m, d) \<Longrightarrow> 0 \<le> m \<and> m < 10 ^ 2 \<and> 0 \<le> d \<and> d < 10 ^ 2"
  by (auto simp: valid_date_def month_days_def days_in_month_def elim!: month_cases[of m] split: if_splits)

lemma stamp_parts:
  assumes "valid_date (date_of w)" and "year w \<le> 9999"
  shows "stamp_text w = pad_dec 4 (year w) @ pad_dec 2 (month w) @ pad_dec 2 (day_of_month w) @ [NL]"
    "scan_date (cstr (take 8 (stamp_text w))) = Some (date_of w)" "length (stamp_text w) = 9"
proof -
  have v: "0 \<le> month w" "month w < 10 ^ 2" "0 \<le> day_of_month w" "day_of_month w < 10 ^ 2" "0 \<le> year w" "year w < 10 ^ 4"
    using assms date_small[of "year w" "month w" "day_of_month w"] by (auto simp: date_of_def valid_date_def)
  note y = pad_dec_props[OF v(5,6), simplified] and m = pad_dec_props[OF v(1,2), simplified] and d = pad_dec_props[OF v(3,4), simplified]
  show s: "stamp_text w = pad_dec 4 (year w) @ pad_dec 2 (month w) @ pad_dec 2 (day_of_month w) @ [NL]"
    using y(2) m(2) d(2) by (simp add: stamp_text_def)
  then show "length (stamp_text w) = 9" using y(2) m(2) d(2) by simp
  have t: "take 8 (stamp_text w) = pad_dec 4 (year w) @ pad_dec 2 (month w) @ pad_dec 2 (day_of_month w)"
    using y(2) m(2) d(2) by (simp add: s)
  have "no_nul (take 8 (stamp_text w))"
    using y(1) m(1) d(1) by (auto simp: t no_nul_def list_all_iff dest: c_isdigit_not_special(4))
  then have c: "cstr (take 8 (stamp_text w)) = pad_dec 4 (year w) @ pad_dec 2 (month w) @ pad_dec 2 (day_of_month w)"
    by (simp add: cstr_id t)
  have ne: "pad_dec 4 (year w) \<noteq> []" "pad_dec 2 (month w) \<noteq> []" "pad_dec 2 (day_of_month w) \<noteq> []"
    using y(2) m(2) d(2) by auto
  show "scan_date (cstr (take 8 (stamp_text w))) = Some (date_of w)"
    using scan_d_digits[OF y(1) ne(1)] scan_d_digits[OF m(1) ne(2)] scan_d_digits[OF d(1) ne(3), of "[]"]
    unfolding c by (simp add: scan_date_def y m d date_of_def)
qed

text \<open>The days between the date of a time stamp and today.\<close>

definition days_since :: "daycfg \<Rightarrow> daycfg \<Rightarrow> int" where
  "days_since w0 w = day_num (year w) (month w) (day_of_month w) - day_num (year w0) (month w0) (day_of_month w0)"

definition today :: "daycfg \<Rightarrow> bool" where
  "today w \<longleftrightarrow> valid_date (date_of w) \<and> day_now w = day_num (year w) (month w) (day_of_month w)"

lemma day_delta_stamp:
  assumes "valid_date (date_of w0)" and "year w0 \<le> 9999" and "today w"
  shows "day_delta w (stamp_text w0) = days_since w0 w"
proof -
  have "1 \<le> day_num (year w0) (month w0) (day_of_month w0)" "day_num (year w0) (month w0) (day_of_month w0) \<le> INT_MAX"
    "1 \<le> day_now w" "day_now w \<le> INT_MAX"
    using assms day_num_pos day_num_upper by (simp_all add: date_of_def today_def)
  then show ?thesis
    using stamp_parts(2)[OF assms(1,2)] assms(3)
    by (simp add: day_delta_def Let_def date_of_def days_since_def today_def) (simp add: s32_id macro_defs)
qed

section \<open>When a job is due\<close>

definition all_calls :: "daycfg \<Rightarrow> bool" where
  "all_calls w \<longleftrightarrow> (\<forall>f. sys w f)"

definition stamp_of :: "spool \<Rightarrow> job_rec \<Rightarrow> string" where
  "stamp_of s j = (case sp_files s (a_ident j) of None \<Rightarrow> [] | Some t \<Rightarrow> t)"

definition due_now :: "daycfg \<Rightarrow> spool \<Rightarrow> job_rec \<Rightarrow> bool" where
  "due_now w s j \<longleftrightarrow> too_early w j (stamp_of s j) = Some False \<and> \<not> others w (a_ident j)"

text \<open>The time stamps as they look once every file has been opened.\<close>

lemma open_tsfile_ok:
  assumes "all_calls w"
  obtains s1 where "open_tsfile w j s = Go s1" and "the (sp_files s1 (a_ident j)) = stamp_of s j" and "stamp_of s1 = stamp_of s"
proof
  let ?s = "if sp_files s (a_ident j) = None then s\<lparr>sp_files := (sp_files s)(a_ident j \<mapsto> [])\<rparr> else s"
  show "open_tsfile w j s = Go ?s" using assms by (simp add: open_tsfile_def all_calls_def Let_def)
  show "the (sp_files ?s (a_ident j)) = stamp_of s j" by (auto simp: stamp_of_def split: option.splits)
  show "stamp_of ?s = stamp_of s" by (auto simp: stamp_of_def fun_eq_iff split: option.splits)
qed

lemma stamp_of_log [simp]: "stamp_of (s\<lparr>sp_log := l\<rparr>) = stamp_of s"
  by (simp add: stamp_of_def fun_eq_iff)

lemma consider_job_result:
  assumes "all_calls w" and "too_early w j (stamp_of s j) \<noteq> None"
  shows "\<exists>s'. consider_job w j s = Go (due_now w s j, s') \<and> stamp_of s' = stamp_of s"
proof -
  obtain s1 where s1: "open_tsfile w j s = Go s1" "the (sp_files s1 (a_ident j)) = stamp_of s j" "stamp_of s1 = stamp_of s"
    using open_tsfile_ok[OF assms(1)] .
  show ?thesis
    using assms unfolding consider_job_def s1(1) go_on.simps s1(2)
    by (auto simp: all_calls_def due_now_def s1(3) xclose_def lock_file_def split: option.splits bool.splits)
qed


definition sample_day :: daycfg where
  "sample_day = \<lparr>force = False, update_only = False, testing_only = False, now_opt = False, year = 2012, month = 3, day_of_month = 1,
     day_now = day_num 2012 3 1, tm_now = \<lparr>tm_sec = 0, tm_min = 0, tm_hour = 12, tm_mday = 1, tm_mon = 2, tm_year = 112, tm_wday = 4,
       tm_yday = 60, tm_isdst = 0\<rparr>, sys = (\<lambda>_. True), others = (\<lambda>_. False)\<rparr>"

definition sample_ajob :: job_rec where
  "sample_ajob = \<lparr>a_period = 0, a_named_period = 1, a_delay = 5, a_ident = ''cron.monthly'', a_command = ''true'', a_mailto = [],
     a_tab_line = 1, a_arg_num = 0, a_locked = False, a_output = [], a_header = 0, a_job_pid = 0, a_mailer_pid = 0, a_drop_job = 0,
     a_prev_env = 0\<rparr>"

lemma sample_dates:
  "today sample_day" "valid_date (date_of (sample_day\<lparr>month := 2\<rparr>))" "all_calls sample_day"
  "days_since (sample_day\<lparr>month := 2\<rparr>) sample_day = 29"
  by (simp_all add: today_def valid_date_def date_of_def sample_day_def month_days_def days_in_month_def macro_defs all_calls_def
      days_since_def day_num_def leap_def eval_nat_numeral)


section \<open>The jobs of a run\<close>

definition runs_before :: "bool \<Rightarrow> job_rec \<Rightarrow> job_rec \<Rightarrow> bool" where
  "runs_before nw a b \<longleftrightarrow>
     nw \<and> a_arg_num a < a_arg_num b \<or>
     (nw \<longrightarrow> a_arg_num a = a_arg_num b) \<and> (a_delay a < a_delay b \<or> a_delay a = a_delay b \<and> a_tab_line a \<le> a_tab_line b)"

definition in_int :: "job_rec \<Rightarrow> bool" where
  "in_int j \<longleftrightarrow> 0 \<le> a_arg_num j \<and> a_arg_num j < 2 ^ 31 \<and> 0 \<le> a_delay j \<and> a_delay j < 2 ^ 31 \<and> 0 \<le> a_tab_line j \<and> a_tab_line j < 2 ^ 31"

lemma execution_order_before:
  assumes "in_int a" and "in_int b"
  shows "execution_order nw a b \<le> 0 \<longleftrightarrow> runs_before nw a b"
proof -
  have s: "s32 (x - y) = x - y" if "0 \<le> x" "x < 2 ^ 31" "0 \<le> y" "y < 2 ^ 31" for x y using that by (simp add: s32_id)
  show ?thesis using assms by (auto simp: execution_order_def runs_before_def in_int_def Let_def s)
qed

lemma runs_before_order:
  "runs_before nw a b \<or> runs_before nw b a" "runs_before nw a b \<Longrightarrow> runs_before nw b c \<Longrightarrow> runs_before nw a c"
  by (auto simp: runs_before_def)

text \<open>What \<open>qsort\<close> needs of the function it is given: on the elements of the array its sign is that of a total order.\<close>

locale comparison =
  fixes cmp :: "'a \<Rightarrow> 'a \<Rightarrow> int" and elem :: "'a \<Rightarrow> bool" and before :: "'a \<Rightarrow> 'a \<Rightarrow> bool"
  assumes cmp_sign: "elem a \<Longrightarrow> elem b \<Longrightarrow> cmp a b \<le> 0 \<longleftrightarrow> before a b"
    and before_total: "elem a \<Longrightarrow> elem b \<Longrightarrow> before a b \<or> before b a"
    and before_trans: "before a b \<Longrightarrow> before b c \<Longrightarrow> before a c"
begin

lemma mset_insert: "mset (qs_insert cmp x xs) = add_mset x (mset xs)"
  by (induction xs) auto

lemma mset_sort: "mset (qsort cmp xs) = mset xs"
  by (induction xs) (simp_all add: qsort_def mset_insert)

lemma set_sort: "set (qsort cmp xs) = set xs"
  by (metis mset_sort set_mset_mset)

lemma sorted_insert:
  assumes "\<forall>y \<in> set (x # xs). elem y" and "sorted_wrt before xs"
  shows "sorted_wrt before (qs_insert cmp x xs)"
  using assms
proof (induction xs)
  case (Cons y ys)
  have "set (qs_insert cmp x ys) = insert x (set ys)" by (metis mset_insert set_mset_add_mset_insert set_mset_mset)
  moreover have "before x y \<Longrightarrow> \<forall>z \<in> set ys. before x z" using Cons.prems(2) before_trans by auto
  ultimately show ?case using Cons cmp_sign[of x y] before_total[of x y] by auto
qed simp

lemma sorted_sort: "\<forall>y \<in> set xs. elem y \<Longrightarrow> sorted_wrt before (qsort cmp xs)"
proof (induction xs)
  case (Cons x xs)
  have "qsort cmp (x # xs) = qs_insert cmp x (qsort cmp xs)" by (simp add: qsort_def)
  then show ?case using sorted_insert[of x "qsort cmp xs"] Cons by (simp add: set_sort)
qed (simp add: qsort_def)

text \<open>Two sorted arrangements of the same elements are the same array when no two elements come before each other: which
  algorithm \<open>qsort\<close> uses does not matter.\<close>

lemma sort_unique:
  assumes "mset ys = mset xs" and "sorted_wrt before ys" and "\<forall>y \<in> set xs. elem y" and "distinct xs"
    and "\<forall>a \<in> set xs. \<forall>b \<in> set xs. before a b \<and> before b a \<longrightarrow> a = b"
  shows "ys = qsort cmp xs"
proof -
  have "mset zs = mset ys \<Longrightarrow> sorted_wrt before zs \<Longrightarrow> sorted_wrt before ys \<Longrightarrow> set ys \<subseteq> set xs \<Longrightarrow> zs = ys" for zs ys
  proof (induction zs arbitrary: ys)
    case (Cons z zs)
    then obtain y ys' where y: "ys = y # ys'" by (cases ys) auto
    have m: "z \<in> set ys" "y \<in> set (z # zs)" using Cons.prems(1) y by (metis list.set_intros(1) set_mset_mset)+
    have "z = y"
    proof (rule ccontr)
      assume "z \<noteq> y"
      then have "before y z" "before z y" using m y Cons.prems(2,3) by auto
      then show False using \<open>z \<noteq> y\<close> assms(5) m(1) y Cons.prems(4) by auto
    qed
    then show ?case using Cons.IH[of ys'] Cons.prems y by auto
  qed simp
  from this[of ys "qsort cmp xs"] show ?thesis using assms(1-3) sorted_sort mset_sort set_sort by (metis subset_refl)
qed

end

interpretation eo: comparison "execution_order nw" in_int "runs_before nw"
  using runs_before_order by unfold_locales (simp add: execution_order_before, blast+)

text \<open>Jobs of different lines: every way to sort the array gives what \<^const>\<open>qsort\<close> gives.\<close>

lemma any_sort_arranges:
  assumes "mset arr = mset js" and "sorted_wrt (runs_before nw) arr" and "\<forall>j \<in> set js. in_int j"
    and "distinct (map a_tab_line js)"
  shows "arr = qsort (execution_order nw) js"
proof (rule eo.sort_unique[OF assms(1-3)])
  show "distinct js" using assms(4) by (simp add: distinct_map)
  show "\<forall>a \<in> set js. \<forall>b \<in> set js. runs_before nw a b \<and> runs_before nw b a \<longrightarrow> a = b"
    using assms(4) by (auto simp: runs_before_def distinct_map inj_on_def)
qed

definition chosen :: "daycfg \<Rightarrow> spool \<Rightarrow> job_rec list \<Rightarrow> job_rec list" where
  "chosen w s js =
     (if update_only w \<or> testing_only w then filter (\<lambda>j. a_arg_num j \<noteq> -1) js
      else map (\<lambda>j. j\<lparr>a_locked := True\<rparr>) (filter (\<lambda>j. a_arg_num j \<noteq> -1 \<and> due_now w s j) js))"

definition known_period :: "job_rec \<Rightarrow> bool" where
  "known_period j \<longleftrightarrow> a_named_period j \<in> {0, 1, 2, 3, 4}"

lemma too_early_known: "known_period j \<Longrightarrow> too_early w j t \<noteq> None"
  by (auto simp: known_period_def too_early_def Let_def period_bounds_def)

lemma arrange_loop_chosen:
  assumes "all_calls w" and "\<forall>j \<in> set js. known_period j"
  shows "\<exists>s'. arrange_loop w js s = Go (chosen w s js, s') \<and> stamp_of s' = stamp_of s"
  using assms(2)
proof (induction js arbitrary: s)
  case Nil
  then show ?case by (simp add: chosen_def)
next
  case (Cons j js)
  show ?case
  proof (cases "a_arg_num j = -1 \<or> update_only w \<or> testing_only w")
    case True
    then show ?thesis using Cons.IH[of s] Cons.prems by (auto simp: chosen_def)
  next
    case False
    obtain s1 where s1: "consider_job w j s = Go (due_now w s j, s1)" "stamp_of s1 = stamp_of s"
      using consider_job_result[OF assms(1) too_early_known] Cons.prems by force
    obtain s2 where s2: "arrange_loop w js s1 = Go (chosen w s1 js, s2)" "stamp_of s2 = stamp_of s1"
      using Cons.IH[of s1] Cons.prems by auto
    have "chosen w s1 js = chosen w s js" by (simp add: chosen_def due_now_def s1(2))
    then show ?thesis using False s1 s2 by (auto simp: chosen_def)
  qed
qed

text \<open>C39. The array of jobs holds exactly the selected jobs that are due, each once and locked, in the order of execution: by delay
  and line, with \<open>-n\<close> by the argument that selected them first; considering the jobs changes no time stamp.\<close>

theorem jobs_arranged:
  assumes "all_calls w" and "\<forall>j \<in> set js. known_period j \<and> (a_arg_num j \<noteq> -1 \<longrightarrow> in_int j)"
  shows "\<exists>arr s'. arrange_jobs w js s = Go (arr, s') \<and> mset arr = mset (chosen w s js) \<and> sorted_wrt (runs_before (now_opt w)) arr
    \<and> stamp_of s' = stamp_of s"
proof -
  obtain s' where s': "arrange_loop w js s = Go (chosen w s js, s')" "stamp_of s' = stamp_of s"
    using arrange_loop_chosen[OF assms(1), of js s] assms(2) by blast
  have "\<forall>y \<in> set (chosen w s js). in_int y" using assms(2) by (auto simp: chosen_def in_int_def)
  from eo.sorted_sort[OF this] s' show ?thesis by (simp add: arrange_jobs_def eo.mset_sort)
qed

theorem jobs_arranged_witness:
  "\<exists>arr s'. arrange_jobs sample_day [sample_ajob, sample_ajob\<lparr>a_ident := ''x'', a_delay := 3, a_tab_line := 2\<rparr>]
       \<lparr>sp_files = (\<lambda>_. None), sp_log = alog0\<rparr> = Go (arr, s') \<and> length arr = 2 \<and> sorted_wrt (runs_before False) arr"
proof -
  let ?js = "[sample_ajob, sample_ajob\<lparr>a_ident := ''x'', a_delay := 3, a_tab_line := 2\<rparr>]"
  have k: "\<forall>j \<in> set ?js. known_period j \<and> (a_arg_num j \<noteq> -1 \<longrightarrow> in_int j)"
    by (simp add: sample_ajob_def known_period_def in_int_def)
  have c: "length (chosen sample_day \<lparr>sp_files = (\<lambda>_. None), sp_log = alog0\<rparr> ?js) = 2"
    by (simp add: chosen_def sample_day_def due_now_def too_early_def stamp_of_def sample_ajob_def)
  have n: "now_opt sample_day = False" by (simp add: sample_day_def)
  from jobs_arranged[OF sample_dates(3) k, of "\<lparr>sp_files = (\<lambda>_. None), sp_log = alog0\<rparr>"] c show ?thesis
    unfolding n by (auto dest: mset_eq_length)
qed

end
