(* ===== verification/AnaRunProps.thy ===== *)
theory AnaRunProps
  imports AnaMain AnaLockProps
begin

text \<open>
  What \<open>anacron\<close> keeps while it runs: the counters of its children, the lock of every running job, the
  time stamp of every finished one, and the order in which jobs are started.
\<close>

section \<open>The processes of a state\<close>

abbreviation jpids :: "arun \<Rightarrow> int list" where "jpids st \<equiv> map a_job_pid (r_jobs st)"
abbreviation mpids :: "arun \<Rightarrow> int list" where "mpids st \<equiv> map a_mailer_pid (r_jobs st)"

definition jcore :: "job_rec \<Rightarrow> string \<times> string \<times> nat \<times> int \<times> int" where
  "jcore j = (a_ident j, a_command j, a_prev_env j, a_drop_job j, a_delay j)"

abbreviation cores :: "arun \<Rightarrow> (string \<times> string \<times> nat \<times> int \<times> int) list" where "cores st \<equiv> map jcore (r_jobs st)"

definition cnt :: "int list \<Rightarrow> int" where
  "cnt ps = int (length (filter (\<lambda>p. p \<noteq> 0) ps))"

definition stamped :: "runsys \<Rightarrow> arun \<Rightarrow> string \<Rightarrow> bool" where
  "stamped w st i \<longleftrightarrow> sp_files (r_spool st) i = Some (stamp_text (rs_day w))"

definition ainv :: "arun \<Rightarrow> bool" where
  "ainv st \<longleftrightarrow> running_jobs st = cnt (jpids st) \<and> running_mailers st = cnt (mpids st) \<and> 0 < r_next_pid st
     \<and> (\<forall>j \<in> set (r_jobs st). a_job_pid j \<noteq> 0 \<longrightarrow> a_locked j \<and> a_mailer_pid j = 0)"

lemma cnt_update:
  assumes "k < length ps"
  shows "cnt (ps[k := p]) = cnt ps - (if ps ! k = 0 then 0 else 1) + (if p = 0 then 0 else 1)"
proof -
  have "ps = take k ps @ ps ! k # drop (Suc k) ps" using assms by (rule id_take_nth_drop)
  then have "cnt ps = cnt (take k ps @ ps ! k # drop (Suc k) ps)" by simp
  then show ?thesis using assms by (simp add: upd_conv_take_nth_drop cnt_def)
qed

lemma cnt_nonneg: "0 \<le> cnt ps"
  by (simp add: cnt_def)

lemma cnt_zero: "cnt ps = 0 \<longleftrightarrow> (\<forall>p \<in> set ps. p = 0)"
  by (auto simp: cnt_def filter_empty_conv)

lemma map_upd_same: "f (xs ! k) = y \<Longrightarrow> (map f xs)[k := y] = map f xs"
  by (metis list_update_id list_update_beyond nth_map not_le_imp_less length_map)

lemma jcore_upd [simp]:
  "jcore (j\<lparr>a_mailto := a\<rparr>) = jcore j" "jcore (j\<lparr>a_locked := b\<rparr>) = jcore j" "jcore (j\<lparr>a_output := a\<rparr>) = jcore j"
  "jcore (j\<lparr>a_header := n\<rparr>) = jcore j" "jcore (j\<lparr>a_job_pid := p\<rparr>) = jcore j" "jcore (j\<lparr>a_mailer_pid := p\<rparr>) = jcore j"
  by (simp_all add: jcore_def)

lemma length_cores: "cores st' = cores st \<Longrightarrow> length (r_jobs st') = length (r_jobs st)"
  using map_eq_imp_length_eq by blast

lemma upd_job_simps [simp]:
  "r_spool (upd_job k f st) = r_spool st" "running_jobs (upd_job k f st) = running_jobs st" "running_mailers (upd_job k f st) = running_mailers st"
  "r_next_pid (upd_job k f st) = r_next_pid st" "r_execs (upd_job k f st) = r_execs st" "r_env (upd_job k f st) = r_env st"
  "r_mails (upd_job k f st) = r_mails st" "got_sigalrm (upd_job k f st) = got_sigalrm st" "length (r_jobs (upd_job k f st)) = length (r_jobs st)"
  "k < length (r_jobs st) \<Longrightarrow> r_jobs (upd_job k f st) ! k = f (r_jobs st ! k)" "i \<noteq> k \<Longrightarrow> r_jobs (upd_job k f st) ! i = r_jobs st ! i"
  "map g (r_jobs (upd_job k f st)) = (map g (r_jobs st))[k := g (f (r_jobs st ! k))]"
  by (simp_all add: upd_job_def map_update)

lemma rlog_simps [simp]:
  "r_jobs (rlog g st) = r_jobs st" "running_jobs (rlog g st) = running_jobs st" "running_mailers (rlog g st) = running_mailers st"
  "r_next_pid (rlog g st) = r_next_pid st" "r_execs (rlog g st) = r_execs st" "r_env (rlog g st) = r_env st"
  "sp_files (r_spool (rlog g st)) = sp_files (r_spool st)" "r_mails (rlog g st) = r_mails st" "got_sigalrm (rlog g st) = got_sigalrm st"
  "ainv (rlog g st) = ainv st" "stamped w (rlog g st) = stamped w st"
  by (simp_all add: rlog_def ainv_def stamped_def fun_eq_iff)

lemma rdies_Go [simp]: "rdies m st \<noteq> Go x"
  by (simp add: rdies_def)

text \<open>Changing the job at position \<open>k\<close> with the counters kept in step keeps the invariant.\<close>

lemma ainv_upd:
  assumes "ainv st" and "k < length (r_jobs st)" and "r_jobs st' = (r_jobs st)[k := j]" and "r_next_pid st \<le> r_next_pid st'"
    and "running_jobs st' = running_jobs st - (if a_job_pid (r_jobs st ! k) = 0 then 0 else 1) + (if a_job_pid j = 0 then 0 else 1)"
    and "running_mailers st' = running_mailers st - (if a_mailer_pid (r_jobs st ! k) = 0 then 0 else 1) + (if a_mailer_pid j = 0 then 0 else 1)"
    and "a_job_pid j \<noteq> 0 \<longrightarrow> a_locked j \<and> a_mailer_pid j = 0"
  shows "ainv st'"
  using assms cnt_update[of k "jpids st" "a_job_pid j"] cnt_update[of k "mpids st" "a_mailer_pid j"]
    set_update_subset_insert[of "r_jobs st" k j]
  by (auto simp: ainv_def map_update)

section \<open>Starting a job\<close>

lemma put_envs_Go: "put_envs w es st = Go st' \<Longrightarrow> st' = st\<lparr>r_env := foldl env_store (r_env st) es\<rparr>"
proof (induction es arbitrary: st)
  case (Cons e es)
  then show ?case using Cons.IH[of "st\<lparr>r_env := env_store (r_env st) e\<rparr>"] by (simp split: if_splits)
qed simp

lemma temp_file_Go: "temp_file w k st = Go st' \<Longrightarrow> st' = upd_job k (\<lambda>j. j\<lparr>a_output := []\<rparr>) st"
  by (auto simp: temp_file_def split: topen.splits if_splits)

lemma launch_job_Go:
  assumes "launch_job w k st = Go st'" and "k < length (r_jobs st)"
  shows "\<exists>ev j. r_jobs st' = (r_jobs st)[k := j] \<and> jcore j = jcore (r_jobs st ! k) \<and> a_job_pid j = r_next_pid st
    \<and> a_mailer_pid j = a_mailer_pid (r_jobs st ! k) \<and> a_locked j = a_locked (r_jobs st ! k)
    \<and> running_jobs st' = running_jobs st + 1 \<and> running_mailers st' = running_mailers st \<and> r_next_pid st' = r_next_pid st + 1
    \<and> sp_files (r_spool st') = sp_files (r_spool st) \<and> r_execs st' = r_execs st @ [(a_command (r_jobs st ! k), ev)]"
proof -
  obtain st1 mailto st2 user pid st3 where l: "setup_env w k st = Go st1" "temp_file w k (upd_job k (\<lambda>j. j\<lparr>a_mailto := mailto\<rparr>) st1) = Go st2"
      "xfork w (upd_job k (\<lambda>j. j\<lparr>a_output := header_text w user mailto (a_ident (r_jobs st2 ! k)),
         a_header := length (header_text w user mailto (a_ident (r_jobs st2 ! k)))\<rparr>) st2) = Go (pid, st3)"
      "st' = (upd_job k (\<lambda>j. j\<lparr>a_job_pid := pid\<rparr>) (rlog (explain (job_msg ''Job '' (a_ident (r_jobs st2 ! k)) '' started'')) (run_job k st3)))
         \<lparr>running_jobs := running_jobs st3 + 1\<rparr>"
    using assms(1) by (auto simp: launch_job_def go_on_Go Let_def run_job_def split: if_splits prod.splits)
  define ev where "ev = foldl env_store (r_env st) (take (a_prev_env (r_jobs st ! k)) (rs_envs w))"
  have st1: "st1 = st\<lparr>r_env := ev\<rparr>" using put_envs_Go[OF l(1)[unfolded setup_env_def]] by (simp add: ev_def)
  have st2: "st2 = upd_job k (\<lambda>j. j\<lparr>a_output := []\<rparr>) (upd_job k (\<lambda>j. j\<lparr>a_mailto := mailto\<rparr>) st1)" using temp_file_Go[OF l(2)] .
  show ?thesis
    using l(3,4) assms(2)
    by (auto simp: xfork_def st2 st1 run_job_def upd_job_def rlog_def split: if_splits
        intro!: exI[of _ ev] exI[of _ "(r_jobs st ! k)\<lparr>a_mailto := mailto, a_output := header_text w user mailto (a_ident (r_jobs st ! k)),
          a_header := length (header_text w user mailto (a_ident (r_jobs st ! k))), a_job_pid := r_next_pid st\<rparr>"])
qed

section \<open>Ending processes\<close>

lemma launch_mailer_Go:
  assumes "launch_mailer w k st = Go st'" and "k < length (r_jobs st)"
  shows "\<exists>p j. r_jobs st' = (r_jobs st)[k := (r_jobs st ! k)\<lparr>a_mailer_pid := p\<rparr>] \<and>
    (p = a_mailer_pid (r_jobs st ! k) \<and> running_mailers st' = running_mailers st \<or> p = r_next_pid st \<and> running_mailers st' = running_mailers st + 1)
    \<and> running_jobs st' = running_jobs st \<and> r_next_pid st \<le> r_next_pid st' \<and> sp_files (r_spool st') = sp_files (r_spool st)
    \<and> r_execs st' = r_execs st"
  using assms
  by (auto simp: launch_mailer_def go_on_Go xfork_def Let_def upd_job_def split: if_splits
      intro: exI[of _ "a_mailer_pid (r_jobs st ! k)"] exI[of _ "r_next_pid st"])

lemma tend_job_Go:
  assumes "tend_job w k status st = Go st'" and "k < length (r_jobs st)" and "a_mailer_pid (r_jobs st ! k) = 0"
  shows "\<exists>j. r_jobs st' = (r_jobs st)[k := j] \<and> jcore j = jcore (r_jobs st ! k) \<and> a_job_pid j = 0
    \<and> running_jobs st' = running_jobs st - 1
    \<and> (running_mailers st' = running_mailers st \<and> a_mailer_pid j = 0 \<or> running_mailers st' = running_mailers st + 1 \<and> a_mailer_pid j = r_next_pid st)
    \<and> r_next_pid st \<le> r_next_pid st' \<and> r_execs st' = r_execs st
    \<and> sp_files (r_spool st') = (sp_files (r_spool st))(a_ident (r_jobs st ! k) \<mapsto> stamp_text (rs_day w))"
proof -
  obtain st1 st2 mo st5 where t: "in_spool (update_timestamp (rs_day w) (r_jobs st ! k) (r_spool st)) st = Go st1"
      "in_spool (xclose (rs_day w) (r_spool st1)) (upd_job k (\<lambda>j. j\<lparr>a_locked := False\<rparr>) st1) = Go st2"
      "report_job w k status st2 = (mo, st5)" "st' = st5 \<or> launch_mailer w k st5 = Go st'"
    using assms(1) by (auto simp: tend_job_def go_on_Go split: if_splits prod.splits)
  have st1: "st1 = st\<lparr>r_spool := (r_spool st)\<lparr>sp_files := (sp_files (r_spool st))(a_ident (r_jobs st ! k) \<mapsto> stamp_text (rs_day w))\<rparr>\<rparr>"
    using t(1) by (auto simp: update_timestamp_def dies_def Let_def split: if_splits)
  have st2: "st2 = upd_job k (\<lambda>j. j\<lparr>a_locked := False\<rparr>) st1"
    using t(2) by (auto simp: xclose_def dies_def upd_job_def split: if_splits)
  define j5 where "j5 = (r_jobs st ! k)\<lparr>a_locked := False, a_output := a_output (r_jobs st ! k) @ rs_out w (a_ident (r_jobs st ! k)), a_job_pid := 0\<rparr>"
  have st5: "r_jobs st5 = (r_jobs st)[k := j5]" "running_jobs st5 = running_jobs st - 1" "running_mailers st5 = running_mailers st"
      "r_next_pid st5 = r_next_pid st" "r_execs st5 = r_execs st" "sp_files (r_spool st5) = sp_files (r_spool st1)"
    using t(3) assms(2) by (auto simp: st2 st1 j5_def upd_job_def rlog_def report_job_def Let_def)
  from t(4) show ?thesis
  proof
    assume "st' = st5"
    then show ?thesis using st5 assms(3) by (intro exI[of _ j5]) (simp add: j5_def st1 jcore_def)
  next
    assume m: "launch_mailer w k st5 = Go st'"
    obtain p where p: "r_jobs st' = (r_jobs st5)[k := (r_jobs st5 ! k)\<lparr>a_mailer_pid := p\<rparr>]"
        "p = a_mailer_pid (r_jobs st5 ! k) \<and> running_mailers st' = running_mailers st5 \<or> p = r_next_pid st5 \<and> running_mailers st' = running_mailers st5 + 1"
        "running_jobs st' = running_jobs st5" "r_next_pid st5 \<le> r_next_pid st'" "sp_files (r_spool st') = sp_files (r_spool st5)" "r_execs st' = r_execs st5"
      using launch_mailer_Go[OF m] assms(2) st5(1) by auto
    show ?thesis
      using p st5 assms(2,3) by (intro exI[of _ "j5\<lparr>a_mailer_pid := p\<rparr>"]) (auto simp: j5_def st1 jcore_def)
  qed
qed

lemma tend_mailer_props:
  assumes "k < length (r_jobs st)"
  shows "r_jobs (tend_mailer k status st) = (r_jobs st)[k := (r_jobs st ! k)\<lparr>a_mailer_pid := 0\<rparr>]"
    "running_jobs (tend_mailer k status st) = running_jobs st" "running_mailers (tend_mailer k status st) = running_mailers st - 1"
    "r_next_pid (tend_mailer k status st) = r_next_pid st" "r_execs (tend_mailer k status st) = r_execs st"
    "sp_files (r_spool (tend_mailer k status st)) = sp_files (r_spool st)"
  using assms by (auto simp: tend_mailer_def Let_def upd_job_def rlog_def split: wstat.splits)

text \<open>What tending children keeps: no job is started or changed otherwise, time stamps of today stay, a running job goes on
  running or gets its time stamp.\<close>

definition keeps :: "runsys \<Rightarrow> arun \<Rightarrow> arun \<Rightarrow> bool" where
  "keeps w st st' \<longleftrightarrow> cores st' = cores st \<and> r_execs st' = r_execs st \<and> (\<forall>i. stamped w st i \<longrightarrow> stamped w st' i)
     \<and> (\<forall>k < length (r_jobs st).
          (a_job_pid (r_jobs st ! k) = 0 \<longrightarrow> a_job_pid (r_jobs st' ! k) = 0)
        \<and> (a_job_pid (r_jobs st ! k) \<noteq> 0 \<longrightarrow> a_job_pid (r_jobs st' ! k) \<noteq> 0 \<or> stamped w st' (a_ident (r_jobs st ! k)))
        \<and> (a_job_pid (r_jobs st ! k) = 0 \<and> a_mailer_pid (r_jobs st ! k) = 0 \<longrightarrow> r_jobs st' ! k = r_jobs st ! k))"

lemma keeps_refl [simp]: "keeps w st st"
  by (auto simp: keeps_def)

lemma ident_core:
  assumes "cores st' = cores st" and "k < length (r_jobs st)"
  shows "a_ident (r_jobs st' ! k) = a_ident (r_jobs st ! k)" "a_drop_job (r_jobs st' ! k) = a_drop_job (r_jobs st ! k)"
    "a_command (r_jobs st' ! k) = a_command (r_jobs st ! k)"
proof -
  have "jcore (r_jobs st' ! k) = jcore (r_jobs st ! k)"
    using arg_cong[OF assms(1), of "\<lambda>xs. xs ! k"] assms(2) length_cores[OF assms(1)] by simp
  then show "a_ident (r_jobs st' ! k) = a_ident (r_jobs st ! k)" "a_drop_job (r_jobs st' ! k) = a_drop_job (r_jobs st ! k)"
    "a_command (r_jobs st' ! k) = a_command (r_jobs st ! k)" by (simp_all add: jcore_def)
qed

lemma keeps_trans: "keeps w st st1 \<Longrightarrow> keeps w st1 st2 \<Longrightarrow> keeps w st st2"
  using length_cores[of st1 st] ident_core[of st1 st] unfolding keeps_def by (auto; metis)

lemma ainv_pos: "ainv st \<Longrightarrow> 0 < r_next_pid st"
  by (simp add: ainv_def)

lemma ainv_nth: "ainv st \<Longrightarrow> k < length (r_jobs st) \<Longrightarrow> a_job_pid (r_jobs st ! k) \<noteq> 0 \<Longrightarrow>
    a_locked (r_jobs st ! k) \<and> a_mailer_pid (r_jobs st ! k) = 0"
  by (simp add: ainv_def)

lemma core_upd: "k < length (r_jobs st) \<Longrightarrow> jcore j = jcore (r_jobs st ! k) \<Longrightarrow> map jcore ((r_jobs st)[k := j]) = cores st"
  by (simp add: map_update map_upd_same)

lemma tend_mailer_keeps:
  assumes "ainv st" and "k < length (r_jobs st)" and "a_mailer_pid (r_jobs st ! k) \<noteq> 0"
  shows "ainv (tend_mailer k status st) \<and> keeps w st (tend_mailer k status st)"
proof -
  note p = tend_mailer_props[OF assms(2), of status]
  have "a_job_pid (r_jobs st ! k) = 0" using ainv_nth[OF assms(1,2)] assms(3) by auto
  then have "ainv (tend_mailer k status st)"
    using assms p by (intro ainv_upd[OF assms(1,2) p(1)]) simp_all
  moreover have "keeps w st (tend_mailer k status st)"
    using assms(2,3) p by (auto simp: keeps_def stamped_def core_upd nth_list_update)
  ultimately show ?thesis by simp
qed

lemma tend_job_keeps:
  assumes "ainv st" and "k < length (r_jobs st)" and "a_job_pid (r_jobs st ! k) \<noteq> 0" and "tend_job w k status st = Go st'"
  shows "ainv st' \<and> keeps w st st'"
proof -
  have m0: "a_mailer_pid (r_jobs st ! k) = 0" using ainv_nth[OF assms(1-3)] by simp
  obtain j where j: "r_jobs st' = (r_jobs st)[k := j]" "jcore j = jcore (r_jobs st ! k)" "a_job_pid j = 0" "running_jobs st' = running_jobs st - 1"
      "running_mailers st' = running_mailers st \<and> a_mailer_pid j = 0 \<or> running_mailers st' = running_mailers st + 1 \<and> a_mailer_pid j = r_next_pid st"
      "r_next_pid st \<le> r_next_pid st'" "r_execs st' = r_execs st"
      "sp_files (r_spool st') = (sp_files (r_spool st))(a_ident (r_jobs st ! k) \<mapsto> stamp_text (rs_day w))"
    using tend_job_Go[OF assms(4,2) m0] by blast
  have "ainv st'"
    using j assms(3) m0 ainv_pos[OF assms(1)] by (intro ainv_upd[OF assms(1,2) j(1)]) auto
  moreover have "keeps w st st'"
    using assms(2,3) j by (auto simp: keeps_def stamped_def core_upd nth_list_update)
  ultimately show ?thesis by simp
qed

lemma tend_one_keeps:
  assumes "ainv st" and "k < length (r_jobs st)" and "tend_one w wt k st = Go st'"
  shows "ainv st' \<and> keeps w st st'"
proof -
  obtain st1 where s1: "(if a_mailer_pid (r_jobs st ! k) \<noteq> 0 then
              (case wt (a_mailer_pid (r_jobs st ! k)) of
                 WaitErr \<Rightarrow> rdies ''waitpid() error'' st
               | WaitNone \<Rightarrow> Go st
               | WaitDone status \<Rightarrow> Go (tend_mailer k status st))
            else Go st) = Go st1"
      "(if a_job_pid (r_jobs st1 ! k) \<noteq> 0 then
       (case wt (a_job_pid (r_jobs st1 ! k)) of
          WaitErr \<Rightarrow> rdies ''waitpid() error'' st1
        | WaitNone \<Rightarrow> Go st1
        | WaitDone status \<Rightarrow> tend_job w k status st1)
     else Go st1) = Go st'"
    using assms(3) unfolding tend_one_def go_on_Go by blast
  have k1: "ainv st1 \<and> keeps w st st1"
    using s1(1) tend_mailer_keeps[OF assms(1,2)] assms(1) by (auto split: if_splits wres.splits)
  then have "k < length (r_jobs st1)" using assms(2) length_cores[of st1 st] by (simp add: keeps_def)
  then have "ainv st' \<and> keeps w st1 st'"
    using s1(2) k1 tend_job_keeps[of st1 k w _ st'] by (auto split: if_splits wres.splits)
  then show ?thesis using k1 keeps_trans by blast
qed

lemma tend_loop_keeps:
  assumes "ainv st" and "\<forall>k \<in> set ks. k < length (r_jobs st)" and "tend_loop w wt ks st = Go st'"
  shows "ainv st' \<and> keeps w st st'"
  using assms
proof (induction ks arbitrary: st)
  case (Cons k ks)
  then obtain st1 where s1: "tend_one w wt k st = Go st1" "tend_loop w wt ks st1 = Go st'" by (auto simp: go_on_Go)
  have k1: "ainv st1 \<and> keeps w st st1" using tend_one_keeps[OF Cons.prems(1) _ s1(1)] Cons.prems(2) by simp
  then have "length (r_jobs st1) = length (r_jobs st)" using length_cores[of st1 st] by (simp add: keeps_def)
  then show ?case using Cons.IH[of st1] k1 s1(2) Cons.prems(2) keeps_trans by auto
qed simp

lemma on_signal_keeps:
  assumes "ainv st" and "on_signal w e st = Go st'"
  shows "ainv st' \<and> keeps w st st'"
proof -
  let ?s = "st\<lparr>got_sigalrm := got_sigalrm st \<or> ev_alrm e\<rparr>"
  have a: "ainv ?s" "keeps w st ?s" using assms(1) by (auto simp: ainv_def keeps_def stamped_def)
  have "ainv st' \<and> keeps w ?s st'"
    using assms(2) a tend_loop_keeps[OF a(1), of "[0..<length (r_jobs ?s)]" w "ev_wait e" st']
    by (auto simp: on_signal_def tend_children_def Let_def split: if_splits)
  then show ?thesis using a(2) keeps_trans by blast
qed

section \<open>Reachable states\<close>

text \<open>
  The states \<open>anacron\<close> goes through from \<open>st0\<close>, with the positions of the jobs started so far: signals are handled, messages
  are logged, and a job that has not been started is started, with \<open>-s\<close> only when no job is running.
\<close>

inductive areach :: "runsys \<Rightarrow> bool \<Rightarrow> arun \<Rightarrow> nat list \<Rightarrow> arun \<Rightarrow> bool" for w ser st0 where
  a_start: "areach w ser st0 [] st0"
| a_signal: "areach w ser st0 ks st \<Longrightarrow> on_signal w e st = Go st' \<Longrightarrow> areach w ser st0 ks st'"
| a_log: "areach w ser st0 ks st \<Longrightarrow> areach w ser st0 ks (rlog g st)"
| a_awake: "areach w ser st0 ks st \<Longrightarrow> areach w ser st0 ks (st\<lparr>got_sigalrm := False\<rparr>)"
| a_launch: "areach w ser st0 ks st \<Longrightarrow> k < length (r_jobs st) \<Longrightarrow> k \<notin> set ks \<Longrightarrow> (ser \<longrightarrow> running_jobs st \<le> 0) \<Longrightarrow>
    launch_job w k st = Go st' \<Longrightarrow> areach w ser st0 (ks @ [k]) st'"

definition fresh_start :: "arun \<Rightarrow> bool" where
  "fresh_start st \<longleftrightarrow> (\<forall>j \<in> set (r_jobs st). a_job_pid j = 0 \<and> a_mailer_pid j = 0 \<and> a_locked j)
     \<and> running_jobs st = 0 \<and> running_mailers st = 0 \<and> 0 < r_next_pid st \<and> r_execs st = []"

definition started :: "runsys \<Rightarrow> arun \<Rightarrow> nat list \<Rightarrow> bool" where
  "started w st ks \<longleftrightarrow> map fst (r_execs st) = map (\<lambda>k. a_command (r_jobs st ! k)) ks
     \<and> (\<forall>k \<in> set ks. k < length (r_jobs st) \<and> (a_job_pid (r_jobs st ! k) \<noteq> 0 \<or> stamped w st (a_ident (r_jobs st ! k))))"

definition run_inv :: "runsys \<Rightarrow> bool \<Rightarrow> arun \<Rightarrow> nat list \<Rightarrow> arun \<Rightarrow> bool" where
  "run_inv w ser st0 ks st \<longleftrightarrow> ainv st \<and> cores st = cores st0 \<and> started w st ks
     \<and> (\<forall>k < length (r_jobs st0). k \<notin> set ks \<longrightarrow> r_jobs st ! k = r_jobs st0 ! k) \<and> (ser \<longrightarrow> running_jobs st \<le> 1)"

lemma started_keeps:
  assumes "keeps w st st'" and "started w st ks"
  shows "started w st' ks"
proof -
  have c: "cores st' = cores st" "length (r_jobs st') = length (r_jobs st)" "r_execs st' = r_execs st"
    using assms(1) length_cores[of st' st] by (auto simp: keeps_def)
  have k: "\<forall>k \<in> set ks. k < length (r_jobs st)" using assms(2) by (simp add: started_def)
  have "map (\<lambda>k. a_command (r_jobs st' ! k)) ks = map (\<lambda>k. a_command (r_jobs st ! k)) ks"
    using k ident_core(3)[OF c(1)] by simp
  moreover have "a_job_pid (r_jobs st' ! k) \<noteq> 0 \<or> stamped w st' (a_ident (r_jobs st' ! k))" if "k \<in> set ks" for k
    using assms that k ident_core(1)[OF c(1), of k] by (auto simp: keeps_def started_def)
  ultimately show ?thesis using assms(2) c by (simp add: started_def)
qed

lemma count_le: "list_all2 (\<lambda>p q. p = 0 \<longrightarrow> q = 0) ps qs \<Longrightarrow> cnt qs \<le> cnt ps"
  by (induction rule: list_all2_induct) (auto simp: cnt_def)

lemma keeps_running:
  assumes "keeps w st st'" and "ainv st" and "ainv st'"
  shows "running_jobs st' \<le> running_jobs st"
proof -
  have "length (r_jobs st') = length (r_jobs st)" using assms(1) length_cores[of st' st] by (simp add: keeps_def)
  then have "list_all2 (\<lambda>p q. p = 0 \<longrightarrow> q = 0) (jpids st) (jpids st')"
    using assms(1) by (auto simp: list_all2_conv_all_nth keeps_def)
  from count_le[OF this] assms(2,3) show ?thesis by (simp add: ainv_def)
qed

lemma run_inv_keeps:
  assumes "run_inv w ser st0 ks st" and "keeps w st st'" and "ainv st'" and "fresh_start st0"
  shows "run_inv w ser st0 ks st'"
proof -
  have l: "length (r_jobs st) = length (r_jobs st0)" using assms(1) length_cores[of st st0] by (simp add: run_inv_def)
  have "r_jobs st' ! k = r_jobs st0 ! k" if "k < length (r_jobs st0)" "k \<notin> set ks" for k
    using assms(1,2,4) that l nth_mem[OF that(1)] by (simp add: run_inv_def keeps_def fresh_start_def)
  moreover have "running_jobs st' \<le> running_jobs st" using keeps_running assms by (auto simp: run_inv_def)
  ultimately show ?thesis
    using assms(1,3) started_keeps[OF assms(2), of ks] assms(2) by (auto simp: run_inv_def keeps_def)
qed

lemma run_inv_launch:
  assumes "run_inv w ser st0 ks st" and "fresh_start st0" and "k < length (r_jobs st)" and "k \<notin> set ks" and "ser \<longrightarrow> running_jobs st \<le> 0"
    and "launch_job w k st = Go st'"
  shows "run_inv w ser st0 (ks @ [k]) st'"
proof -
  have l: "length (r_jobs st) = length (r_jobs st0)" using assms(1) length_cores[of st st0] by (simp add: run_inv_def)
  have f: "a_job_pid (r_jobs st ! k) = 0" "a_mailer_pid (r_jobs st ! k) = 0" "a_locked (r_jobs st ! k)"
    using assms(1-4) l by (auto simp: run_inv_def fresh_start_def)
  obtain ev j where j: "r_jobs st' = (r_jobs st)[k := j]" "jcore j = jcore (r_jobs st ! k)" "a_job_pid j = r_next_pid st"
      "a_mailer_pid j = a_mailer_pid (r_jobs st ! k)" "a_locked j = a_locked (r_jobs st ! k)" "running_jobs st' = running_jobs st + 1"
      "running_mailers st' = running_mailers st" "r_next_pid st' = r_next_pid st + 1" "sp_files (r_spool st') = sp_files (r_spool st)"
      "r_execs st' = r_execs st @ [(a_command (r_jobs st ! k), ev)]"
    using launch_job_Go[OF assms(6,3)] by blast
  have a: "ainv st" "0 < r_next_pid st" using assms(1) ainv_pos by (auto simp: run_inv_def)
  have "ainv st'" using j f a by (intro ainv_upd[OF a(1) assms(3) j(1)]) simp_all
  moreover have c: "cores st' = cores st" using assms(3) j(1,2) by (simp add: core_upd)
  moreover have "a_command j = a_command (r_jobs st ! k)" using j(2) by (simp add: jcore_def)
  then have "started w st' (ks @ [k])"
    using assms(1,3,4) j(1,3,9,10) a by (auto simp: run_inv_def started_def stamped_def nth_list_update)
  ultimately show ?thesis
    using assms(1,4,5) j by (auto simp: run_inv_def nth_list_update)
qed

lemma fresh_run_inv: "fresh_start st0 \<Longrightarrow> run_inv w ser st0 [] st0"
proof -
  assume f: "fresh_start st0"
  then have "cnt (jpids st0) = 0" "cnt (mpids st0) = 0" by (auto simp: cnt_zero fresh_start_def)
  with f show ?thesis by (auto simp: run_inv_def ainv_def fresh_start_def started_def)
qed

lemma areach_inv: "areach w ser st0 ks st \<Longrightarrow> fresh_start st0 \<Longrightarrow> run_inv w ser st0 ks st"
proof (induction rule: areach.induct)
  case a_start
  then show ?case by (rule fresh_run_inv)
next
  case (a_signal ks st e st')
  then have "ainv st' \<and> keeps w st st'" using on_signal_keeps[of st w e st'] by (simp add: run_inv_def)
  with a_signal show ?case using run_inv_keeps by blast
next
  case (a_log ks st g)
  then show ?case by (simp add: run_inv_def started_def)
next
  case (a_awake ks st)
  then show ?case by (auto simp: run_inv_def started_def ainv_def stamped_def)
next
  case (a_launch ks st k st')
  then show ?case using run_inv_launch by blast
qed

section \<open>The loops\<close>

lemma go_on_Exit: "go_on r f = Exit n s \<longleftrightarrow> r = Exit n s \<or> (\<exists>x. r = Go x \<and> f x = Exit n s)"
  by (cases r) auto

lemma in_spool_Exit: "in_spool r st = Exit n s \<Longrightarrow> \<exists>sp. r = Exit n sp"
  by (cases r) auto

text \<open>Operations end the process only through \<open>die\<close>, with status 1.\<close>

lemma op_exits:
  "launch_mailer w k st = Exit n s \<Longrightarrow> n = 1" "tend_job w k status st = Exit n s \<Longrightarrow> n = 1" "tend_one w wt k st = Exit n s \<Longrightarrow> n = 1"
proof -
  show m: "launch_mailer w k st = Exit n s \<Longrightarrow> n = 1" for st n s
    by (auto simp: launch_mailer_def go_on_Exit xfork_def rdies_def Let_def split: if_splits)
  show j: "tend_job w k status st = Exit n s \<Longrightarrow> n = 1" for status st n s
    by (auto simp: tend_job_def go_on_Exit update_timestamp_def xclose_def dies_def rdies_def Let_def dest!: in_spool_Exit m split: if_splits prod.splits)
  show "tend_one w wt k st = Exit n s \<Longrightarrow> n = 1"
    by (auto simp: tend_one_def go_on_Exit rdies_def dest: j split: if_splits wres.splits)
qed

lemma on_signal_exit: "on_signal w e st = Exit n s \<Longrightarrow> n = 1"
proof -
  have "tend_loop w wt ks st = Exit n s \<Longrightarrow> n = 1" for wt ks st
    by (induction ks arbitrary: st) (auto simp: go_on_Exit dest: op_exits(3))
  then show "on_signal w e st = Exit n s \<Longrightarrow> n = 1"
    by (auto simp: on_signal_def tend_children_def Let_def split: if_splits)
qed

lemma launch_job_exit: "launch_job w k st = Exit n s \<Longrightarrow> n = 1"
proof -
  have p: "put_envs w es st = Exit n s \<Longrightarrow> n = 1" for es st
    by (induction es arbitrary: st) (auto simp: rdies_def split: if_splits)
  have u: "username w st = Exit n s \<Longrightarrow> n = 1" for st by (auto simp: username_def rdies_def split: option.splits)
  have t: "temp_file w k st = Exit n s \<Longrightarrow> n = 1" for st
    by (auto simp: temp_file_def rdies_def split: topen.splits if_splits)
  have x: "xfork w st = Exit n s \<Longrightarrow> n = 1" for st by (auto simp: xfork_def rdies_def split: if_splits)
  have mt: "(case e of Some m \<Rightarrow> Go m | None \<Rightarrow> username w st) = Exit n s \<Longrightarrow> n = 1" for e st
    using u by (auto split: option.splits)
  show "launch_job w k st = Exit n s \<Longrightarrow> n = 1"
    unfolding launch_job_def go_on_Exit setup_env_def Let_def
    by (elim disjE exE conjE) (auto simp: go_on_Exit rdies_def dest: p u t x mt split: if_splits)
qed

text \<open>The states in which the process may end with status 0 or go on from a loop.\<close>

lemma wait_children_reach:
  assumes "wait_children w es st = Some r" and "areach w ser st0 ks st"
  shows "(\<forall>st' es'. r = Go (st', es') \<longrightarrow> areach w ser st0 ks st' \<and> running_jobs st' \<le> 0 \<and> running_mailers st' \<le> 0)
    \<and> (\<forall>n st'. r = Exit n st' \<longrightarrow> n = 1)"
  using assms
proof (induction es arbitrary: st)
  case (Cons e es)
  show ?case
  proof (cases "running_jobs st > 0 \<or> running_mailers st > 0")
    case True
    show ?thesis
    proof (cases "on_signal w e st")
      case (Go st1)
      have "areach w ser st0 ks (if ev_usr1 e then rlog (explain ''Received SIGUSR1'') st1 else st1)"
        using a_log a_signal[OF Cons.prems(2) Go] by auto
      then show ?thesis using Cons.IH Cons.prems(1) True Go by simp
    next
      case (Exit n s)
      then show ?thesis using Cons.prems(1) True on_signal_exit[of w e st n s] by auto
    qed
  qed (use Cons.prems in auto)
qed (auto split: if_splits)

lemma orderly_reach:
  assumes "orderly_termination w es st = Some r" and "areach w ser st0 ks st"
  shows "\<exists>n st'. r = Exit n st' \<and> (n = 0 \<longrightarrow> areach w ser st0 ks st' \<and> running_jobs st' \<le> 0 \<and> running_mailers st' \<le> 0)"
proof -
  obtain r1 where r1: "wait_children w es (rlog (explain ''Received SIGUSR1'') st) = Some r1"
    using assms(1) by (auto simp: orderly_termination_def split: option.splits)
  note k = wait_children_reach[OF r1 a_log[OF assms(2)]]
  show ?thesis
    using assms(1) r1 k by (cases r1) (auto simp: orderly_termination_def intro: a_log)
qed

lemma sleep_reach:
  "sleep_loop_a w es st = Some r \<Longrightarrow> areach w ser st0 ks st \<Longrightarrow>
      (\<forall>st' es'. r = Go (st', es') \<longrightarrow> areach w ser st0 ks st')
    \<and> (\<forall>st'. r = Exit 0 st' \<longrightarrow> areach w ser st0 ks st' \<and> running_jobs st' \<le> 0 \<and> running_mailers st' \<le> 0)"
proof (induction es arbitrary: st)
  case (Cons e es)
  show ?case
  proof (cases "on_signal w e st")
    case (Go st1)
    have g: "areach w ser st0 ks st1" using a_signal[OF Cons.prems(2) Go] .
    show ?thesis
    proof (cases "ev_usr1 e")
      case True
      then show ?thesis using orderly_reach[OF _ g, of es r] Cons.prems(1) Go by auto
    next
      case False
      then show ?thesis using Cons.IH[of st1] Cons.prems(1) Go g by (auto split: if_splits intro: a_awake)
    qed
  next
    case (Exit n s)
    then show ?thesis using Cons.prems(1) on_signal_exit[OF Exit] by auto
  qed
qed simp

lemma wait_jobs_reach:
  "wait_jobs w es st = Some r \<Longrightarrow> areach w ser st0 ks st \<Longrightarrow>
      (\<forall>st' es'. r = Go (st', es') \<longrightarrow> areach w ser st0 ks st' \<and> running_jobs st' \<le> 0)
    \<and> (\<forall>st'. r = Exit 0 st' \<longrightarrow> areach w ser st0 ks st' \<and> running_jobs st' \<le> 0 \<and> running_mailers st' \<le> 0)"
proof (induction es arbitrary: st)
  case (Cons e es)
  show ?case
  proof (cases "running_jobs st > 0")
    case True
    show ?thesis
    proof (cases "on_signal w e st")
      case (Go st1)
      have g: "areach w ser st0 ks st1" using a_signal[OF Cons.prems(2) Go] .
      show ?thesis
        using orderly_reach[OF _ g, of es r] Cons.IH[of st1] Cons.prems(1) Go g True by (cases "ev_usr1 e") auto
    next
      case (Exit n s)
      then show ?thesis using Cons.prems(1) True on_signal_exit[OF Exit] by auto
    qed
  qed (use Cons.prems in auto)
qed (auto split: if_splits)

text \<open>What an outcome of status 0 looks like.\<close>

definition quiet_exit :: "runsys \<Rightarrow> bool \<Rightarrow> arun \<Rightarrow> nat list \<Rightarrow> arun \<Rightarrow> bool" where
  "quiet_exit w ser st0 ks st \<longleftrightarrow> areach w ser st0 ks st \<and> running_jobs st \<le> 0 \<and> running_mailers st \<le> 0"

lemma start_one_reach:
  assumes "start_one w nw ser t0 t k es st = Some r" and "areach w ser st0 ks st" and "fresh_start st0" and "k \<notin> set ks"
    and "k < length (r_jobs st0)"
  shows "(\<forall>st' es'. r = Go (st', es') \<longrightarrow> areach w ser st0 (ks @ [k]) st') \<and> (\<forall>st'. r = Exit 0 st' \<longrightarrow> quiet_exit w ser st0 ks st')"
proof -
  obtain x where x: "xsleep w (time_till nw t0 t (r_jobs st ! k)) es st = Some x"
    using assms(1) by (auto simp: start_one_def split: option.splits)
  have rx: "(\<forall>st' es'. x = Go (st', es') \<longrightarrow> areach w ser st0 ks st') \<and> (\<forall>st'. x = Exit 0 st' \<longrightarrow> quiet_exit w ser st0 ks st')"
    using x sleep_reach[of w es st x ser st0 ks] assms(2) by (auto simp: xsleep_def quiet_exit_def split: if_splits)
  show ?thesis
  proof (cases x)
    case (Exit n s)
    then show ?thesis using assms(1) x rx by (auto simp: start_one_def)
  next
    case (Go p)
    then obtain st1 es1 where p: "x = Go (st1, es1)" by (cases p) auto
    obtain y where y: "(if ser then wait_jobs w es1 st1 else Some (Go (st1, es1))) = Some y"
      using assms(1) x p by (auto simp: start_one_def split: option.splits if_splits)
    have ry: "(\<forall>st' es'. y = Go (st', es') \<longrightarrow> areach w ser st0 ks st' \<and> (ser \<longrightarrow> running_jobs st' \<le> 0))
        \<and> (\<forall>st'. y = Exit 0 st' \<longrightarrow> quiet_exit w ser st0 ks st')"
      using y wait_jobs_reach[of w es1 st1 y ser st0 ks] rx p by (auto simp: quiet_exit_def split: if_splits)
    show ?thesis
    proof (cases y)
      case (Exit n s)
      then show ?thesis using assms(1) x p y ry by (auto simp: start_one_def)
    next
      case (Go q)
      then obtain st2 es2 where q: "y = Go (st2, es2)" by (cases q) auto
      have g2: "areach w ser st0 ks st2" "ser \<longrightarrow> running_jobs st2 \<le> 0" using ry q by auto
      have "k < length (r_jobs st2)"
        using areach_inv[OF g2(1) assms(3)] length_cores[of st2 st0] assms(5) by (simp add: run_inv_def)
      then show ?thesis
        using assms(1,4) x p y q g2 launch_job_exit[of w k st2]
        by (cases "launch_job w k st2") (auto simp: start_one_def intro: a_launch)
    qed
  qed
qed

text \<open>The main loop starts the jobs at the positions \<open>todo\<close> that are not dropped, in this order.\<close>

lemma main_loop_reach:
  assumes "main_loop w nw ser t0 clock todo es st d = Some r" and "areach w ser st0 ks st" and "fresh_start st0"
    and "distinct (ks @ todo)" and "\<forall>k \<in> set todo. k < length (r_jobs st0)"
  shows "(\<forall>st' es' d'. r = Go (st', es', d') \<longrightarrow> areach w ser st0 (ks @ filter (\<lambda>k. a_drop_job (r_jobs st0 ! k) \<noteq> 1) todo) st')
    \<and> (\<forall>st'. r = Exit 0 st' \<longrightarrow>
        (\<exists>ks'. prefix ks' (filter (\<lambda>k. a_drop_job (r_jobs st0 ! k) \<noteq> 1) todo) \<and> quiet_exit w ser st0 (ks @ ks') st'))"
  using assms(1,2,4,5)
proof (induction todo arbitrary: es st d ks)
  case (Cons k todo)
  have dr: "a_drop_job (r_jobs st ! k) = a_drop_job (r_jobs st0 ! k)"
    using ident_core(2)[of st st0 k] areach_inv[OF Cons.prems(2) assms(3)] Cons.prems(4) by (simp add: run_inv_def)
  show ?case
  proof (cases "a_drop_job (r_jobs st0 ! k) \<noteq> 1")
    case False
    then show ?thesis using Cons.IH[of es st "d + 1" ks] Cons.prems dr by simp
  next
    case True
    obtain x where x: "start_one w nw ser t0 (clock k) k es st = Some x"
      using Cons.prems(1) True dr by (auto split: option.splits)
    note rx = start_one_reach[OF x Cons.prems(2) assms(3)]
    show ?thesis
    proof (cases x)
      case (Exit n s)
      then show ?thesis using Cons.prems True dr x rx by (auto intro!: exI[of _ "[]"])
    next
      case (Go p)
      then obtain st1 es1 where p: "x = Go (st1, es1)" by (cases p) auto
      then have "areach w ser st0 (ks @ [k]) st1" "main_loop w nw ser t0 clock todo es1 st1 d = Some r"
        using rx Cons.prems True dr x by auto
      from Cons.IH[OF this(2,1)] Cons.prems(3,4) True show ?thesis by fastforce
    qed
  qed
qed auto

section \<open>Properties\<close>


definition sample_run :: runsys where
  "sample_run = \<lparr>rs_day = sample_day, rs_envs = [''SHELL=/bin/sh''], rs_hostname = Some ''host'', rs_user = Some ''root'', rs_codeset = ''UTF-8'',
     rs_temp = (\<lambda>_ i. if i < 3 then TExist else TOk), rs_sendmail = True, rs_out = (\<lambda>_. ''out'')\<rparr>"

definition sample_arun :: arun where
  "sample_arun = \<lparr>r_jobs = [sample_ajob\<lparr>a_locked := True\<rparr>, sample_ajob\<lparr>a_ident := ''x'', a_command := ''false'', a_delay := 10, a_locked := True\<rparr>],
     r_spool = \<lparr>sp_files = (\<lambda>_. None), sp_log = alog0\<rparr>, r_env = [], running_jobs = 0, running_mailers = 0, r_next_pid = 100,
     got_sigalrm = False, r_execs = [], r_mails = []\<rparr>"

lemma sample_fresh: "fresh_start sample_arun"
  by (simp add: fresh_start_def sample_arun_def sample_ajob_def)

lemma run_all_stamps:
  assumes "run_all w nw ser t0 clock es st0 = Some r" and "fresh_start st0" and "r = Go st \<or> r = Exit 0 st"
  shows "\<exists>ks. prefix ks (filter (\<lambda>k. a_drop_job (r_jobs st0 ! k) \<noteq> 1) [0..<length (r_jobs st0)])
    \<and> (r = Go st \<longrightarrow> ks = filter (\<lambda>k. a_drop_job (r_jobs st0 ! k) \<noteq> 1) [0..<length (r_jobs st0)])
    \<and> map fst (r_execs st) = map (\<lambda>k. a_command (r_jobs st ! k)) ks
    \<and> (\<forall>k \<in> set ks. sp_files (r_spool st) (a_ident (r_jobs st ! k)) = Some (stamp_text (rs_day w)))
    \<and> running_jobs st = 0 \<and> running_mailers st = 0 \<and> map a_ident (r_jobs st) = map a_ident (r_jobs st0)"
proof -
  let ?nd = "filter (\<lambda>k. a_drop_job (r_jobs st0 ! k) \<noteq> 1) [0..<length (r_jobs st0)]"
  have "\<exists>ks. prefix ks ?nd \<and> (r = Go st \<longrightarrow> ks = ?nd) \<and> quiet_exit w ser st0 ks st"
  proof -
    obtain x where x: "main_loop w nw ser t0 clock [0..<length (r_jobs st0)] es st0 0 = Some x"
      using assms(1) by (auto simp: run_all_def split: option.splits)
    note rx = main_loop_reach[OF x a_start assms(2)]
    show ?thesis
    proof (cases x)
      case (Exit n s)
      then show ?thesis using rx assms(1,3) x by (auto simp: run_all_def)
    next
      case (Go p)
      then obtain st1 es1 d where p: "x = Go (st1, es1, d)" by (cases p) auto
      then have g: "areach w ser st0 ?nd st1" using rx by simp
      obtain y where y: "wait_children w es1 st1 = Some y" using assms(1) x p by (auto simp: run_all_def split: option.splits)
      from wait_children_reach[OF y g] show ?thesis
        using assms(1,3) x p y by (cases y) (auto simp: run_all_def Let_def quiet_exit_def intro: a_log)
    qed
  qed
  then obtain ks where ks: "prefix ks ?nd" "r = Go st \<longrightarrow> ks = ?nd" "quiet_exit w ser st0 ks st" by blast
  have i: "ainv st" "started w st ks" "cores st = cores st0"
    using areach_inv[of w ser st0 ks st] assms(2) ks(3) by (auto simp: quiet_exit_def run_inv_def)
  have "map a_ident (r_jobs st) = map a_ident (r_jobs st0)"
    using arg_cong[OF i(3), of "map fst"] by (simp add: comp_def jcore_def)
  moreover have z: "running_jobs st = 0" "running_mailers st = 0" "cnt (jpids st) = 0"
    using i ks(3) cnt_nonneg[of "jpids st"] cnt_nonneg[of "mpids st"] by (auto simp: ainv_def quiet_exit_def)
  moreover have "\<forall>j \<in> set (r_jobs st). a_job_pid j = 0" using z(3) by (simp add: cnt_zero)
  ultimately show ?thesis
    using ks(1,2) i(2) by (intro exI[of _ ks]) (auto simp: started_def stamped_def)
qed

text \<open>C29. When \<open>anacron\<close> has started its jobs and ends with status 0, normally or after \<open>SIGUSR1\<close>, no child is left, and every
  job it started has got today's time stamp; without \<open>SIGUSR1\<close> it has started every job that was
  not dropped, each exactly once, in the order of the array.\<close>

theorem anacron_stamps_jobs:
  assumes "run_all w nw ser t0 clock es st0 = Some r" and "fresh_start st0" and "r = Go st \<or> r = Exit 0 st"
  shows "\<exists>ks. prefix ks (filter (\<lambda>k. a_drop_job (r_jobs st0 ! k) \<noteq> 1) [0..<length (r_jobs st0)])
    \<and> (r = Go st \<longrightarrow> ks = filter (\<lambda>k. a_drop_job (r_jobs st0 ! k) \<noteq> 1) [0..<length (r_jobs st0)])
    \<and> map fst (r_execs st) = map (\<lambda>k. a_command (r_jobs st ! k)) ks
    \<and> (\<forall>k \<in> set ks. sp_files (r_spool st) (a_ident (r_jobs st ! k)) = Some (stamp_text (rs_day w)))
    \<and> running_jobs st = 0 \<and> running_mailers st = 0 \<and> map a_ident (r_jobs st) = map a_ident (r_jobs st0)"
  using assms by (rule run_all_stamps)

section \<open>Waiting ends\<close>

text \<open>With every system call successful, a \<open>SIGCHLD\<close> that comes when every child has ended clears all the jobs that were
  running, and a second one the mailers started for their output.\<close>

definition calls_ok :: "runsys \<Rightarrow> bool" where
  "calls_ok w \<longleftrightarrow> (\<forall>f. sys (rs_day w) f)"

definition all_done :: "sigev \<Rightarrow> bool" where
  "all_done e \<longleftrightarrow> ev_chld e \<and> \<not> ev_usr1 e \<and> (\<forall>p. \<exists>s. ev_wait e p = WaitDone s)"

lemma tend_job_ok: "calls_ok w \<Longrightarrow> \<exists>st'. tend_job w k status st = Go st'"
proof -
  assume "calls_ok w"
  then have s: "r_sys w f" "sys (rs_day w) f" for f by (simp_all add: calls_ok_def r_sys_def)
  obtain mo st3 where r: "report_job w k status (upd_job k (\<lambda>j. j\<lparr>a_locked := False\<rparr>) (st\<lparr>r_spool := (r_spool st)\<lparr>sp_files :=
      (sp_files (r_spool st))(a_ident (r_jobs st ! k) \<mapsto> stamp_text (rs_day w))\<rparr>\<rparr>)) = (mo, st3)" by fastforce
  have "\<exists>x. launch_mailer w k st3 = Go x" by (simp add: launch_mailer_def xfork_def s Let_def)
  then show ?thesis using r by (auto simp: tend_job_def update_timestamp_def xclose_def s Let_def upd_job_def)
qed

lemma tend_one_done:
  assumes "calls_ok w" and "\<forall>p. \<exists>s. wt p = WaitDone s" and "ainv st" and "k < length (r_jobs st)"
  shows "\<exists>st'. tend_one w wt k st = Go st' \<and> a_job_pid (r_jobs st' ! k) = 0
    \<and> (a_job_pid (r_jobs st ! k) = 0 \<longrightarrow> a_mailer_pid (r_jobs st' ! k) = 0) \<and> (\<forall>i. i \<noteq> k \<longrightarrow> r_jobs st' ! i = r_jobs st ! i)"
proof (cases "a_job_pid (r_jobs st ! k) = 0")
  case True
  obtain s where "wt (a_mailer_pid (r_jobs st ! k)) = WaitDone s" using assms(2) by blast
  then show ?thesis using True assms(4) by (auto simp: tend_one_def tend_mailer_props)
next
  case False
  then have m: "a_mailer_pid (r_jobs st ! k) = 0" using ainv_nth[OF assms(3,4)] by simp
  obtain s where s: "wt (a_job_pid (r_jobs st ! k)) = WaitDone s" using assms(2) by blast
  obtain st' where st': "tend_job w k s st = Go st'" using tend_job_ok[OF assms(1)] by blast
  then show ?thesis using False m s tend_job_Go[OF st' assms(4) m] assms(4) by (auto simp: tend_one_def)
qed

lemma tend_loop_done:
  assumes "calls_ok w" and "\<forall>p. \<exists>s. wt p = WaitDone s" and "ainv st" and "distinct ks" and "\<forall>k \<in> set ks. k < length (r_jobs st)"
  shows "\<exists>st'. tend_loop w wt ks st = Go st' \<and> (\<forall>k \<in> set ks. a_job_pid (r_jobs st' ! k) = 0)
    \<and> (\<forall>k \<in> set ks. a_job_pid (r_jobs st ! k) = 0 \<longrightarrow> a_mailer_pid (r_jobs st' ! k) = 0) \<and> (\<forall>i. i \<notin> set ks \<longrightarrow> r_jobs st' ! i = r_jobs st ! i)"
  using assms(3-5)
proof (induction ks arbitrary: st)
  case (Cons k ks)
  obtain st1 where s1: "tend_one w wt k st = Go st1" "a_job_pid (r_jobs st1 ! k) = 0"
      "a_job_pid (r_jobs st ! k) = 0 \<longrightarrow> a_mailer_pid (r_jobs st1 ! k) = 0" "\<forall>i. i \<noteq> k \<longrightarrow> r_jobs st1 ! i = r_jobs st ! i"
    using tend_one_done[OF assms(1,2) Cons.prems(1), of k] Cons.prems(3) by auto
  have k1: "ainv st1 \<and> keeps w st st1" using tend_one_keeps[OF Cons.prems(1) _ s1(1)] Cons.prems(3) by simp
  then have "length (r_jobs st1) = length (r_jobs st)" using length_cores[of st1 st] by (simp add: keeps_def)
  then obtain st' where s2: "tend_loop w wt ks st1 = Go st'" "\<forall>k \<in> set ks. a_job_pid (r_jobs st' ! k) = 0"
      "\<forall>k \<in> set ks. a_job_pid (r_jobs st1 ! k) = 0 \<longrightarrow> a_mailer_pid (r_jobs st' ! k) = 0" "\<forall>i. i \<notin> set ks \<longrightarrow> r_jobs st' ! i = r_jobs st1 ! i"
    using Cons.IH[of st1] k1 Cons.prems(2,3) by auto
  have "\<forall>i \<in> set ks. r_jobs st1 ! i = r_jobs st ! i" using s1(4) Cons.prems(2) by auto
  then show ?case using s1 s2 Cons.prems(2) by (intro exI[of _ st']) auto
qed simp

lemma all_nth: "(\<forall>k \<in> set [0..<length xs]. P (xs ! k)) \<longleftrightarrow> (\<forall>x \<in> set xs. P x)"
  by (auto simp: all_set_conv_all_nth)

lemma on_signal_done:
  assumes "calls_ok w" and "all_done e" and "ainv st"
  shows "\<exists>st'. on_signal w e st = Go st' \<and> ainv st' \<and> running_jobs st' = 0 \<and> (running_jobs st = 0 \<longrightarrow> running_mailers st' = 0)"
proof -
  let ?s = "st\<lparr>got_sigalrm := got_sigalrm st \<or> ev_alrm e\<rparr>"
  have a: "ainv ?s" "\<forall>p. \<exists>s. ev_wait e p = WaitDone s" using assms(2,3) by (auto simp: ainv_def all_done_def)
  obtain st' where s: "tend_loop w (ev_wait e) [0..<length (r_jobs st)] ?s = Go st'" "\<forall>k \<in> set [0..<length (r_jobs st)]. a_job_pid (r_jobs st' ! k) = 0"
      "\<forall>k \<in> set [0..<length (r_jobs st)]. a_job_pid (r_jobs st ! k) = 0 \<longrightarrow> a_mailer_pid (r_jobs st' ! k) = 0"
    using tend_loop_done[OF assms(1) a(2,1), of "[0..<length (r_jobs st)]"] by auto
  have o': "on_signal w e st = Go st'" using s(1) assms(2) by (simp add: on_signal_def tend_children_def all_done_def Let_def)
  have i: "ainv st'" "length (r_jobs st') = length (r_jobs st)"
    using on_signal_keeps[OF assms(3) o'] length_cores[of st' st] by (auto simp: keeps_def)
  have "cnt (jpids st') = 0" using s(2) all_nth[of "r_jobs st'" "\<lambda>j. a_job_pid j = 0"] i(2) by (auto simp: cnt_zero)
  moreover have "cnt (mpids st') = 0" if "running_jobs st = 0"
  proof -
    have "\<forall>j \<in> set (r_jobs st). a_job_pid j = 0" using that assms(3) by (auto simp: ainv_def cnt_zero)
    then show ?thesis using s(3) all_nth[of "r_jobs st'" "\<lambda>j. a_mailer_pid j = 0"] i(2) by (auto simp: cnt_zero)
  qed
  ultimately show ?thesis using o' i(1) by (auto simp: ainv_def)
qed

lemma wait_children_done:
  assumes "calls_ok w" and "list_all all_done es" and "2 \<le> length es" and "ainv st"
  shows "\<exists>st' es'. wait_children w es st = Some (Go (st', es'))"
proof -
  obtain e1 e2 es2 where es: "es = e1 # e2 # es2" using assms(3) by (cases es; cases "tl es") auto
  obtain st1 where s1: "on_signal w e1 st = Go st1" "ainv st1" "running_jobs st1 = 0"
    using on_signal_done[OF assms(1) _ assms(4), of e1] assms(2) es by auto
  obtain st2 where s2: "on_signal w e2 st1 = Go st2" "running_jobs st2 = 0" "running_mailers st2 = 0"
    using on_signal_done[OF assms(1) _ s1(2), of e2] assms(2) es s1(3) by auto
  have "wait_children w es2 st2 = Some (Go (st2, es2))" using s2 by (cases es2) auto
  then show ?thesis using s1 s2 assms(2) es by (auto simp: all_done_def)
qed

lemma wait_jobs_done:
  assumes "calls_ok w" and "list_all all_done (e # es)" and "ainv st"
  shows "\<exists>st' es'. wait_jobs w (e # es) st = Some (Go (st', es')) \<and> (es' = e # es \<or> es' = es)"
proof -
  obtain st1 where s1: "on_signal w e st = Go st1" "running_jobs st1 = 0"
    using on_signal_done[OF assms(1) _ assms(3), of e] assms(2) by auto
  have "wait_jobs w es st1 = Some (Go (st1, es))" using s1(2) by (cases es) auto
  then show ?thesis using s1 assms(2) by (auto simp: all_done_def)
qed

definition temp_ok :: "runsys \<Rightarrow> bool" where
  "temp_ok w \<longleftrightarrow> (\<forall>i. temp_loop (rs_temp w i) 1 = TOk) \<and> rs_user w \<noteq> None"

lemma launch_job_ok: "calls_ok w \<Longrightarrow> temp_ok w \<Longrightarrow> \<exists>st'. launch_job w k st = Go st'"
proof -
  assume "calls_ok w" "temp_ok w"
  then obtain u where s: "r_sys w f" "temp_loop (rs_temp w i) (Suc 0) = TOk" "rs_user w = Some u" for f i
    by (auto simp: calls_ok_def r_sys_def temp_ok_def)
  have p: "\<exists>st'. put_envs w es st = Go st'" for es st by (induction es arbitrary: st) (simp_all add: s)
  obtain st1 where st1: "setup_env w k st = Go st1" using p by (auto simp: setup_env_def)
  show ?thesis by (auto simp: launch_job_def st1 username_def temp_file_def s xfork_def Let_def split: option.splits)
qed

lemma main_loop_done:
  assumes "calls_ok w" and "temp_ok w" and "areach w ser st0 ks st" and "fresh_start st0" and "distinct (ks @ todo)"
    and "\<forall>k \<in> set todo. k < length (r_jobs st0)" and "list_all all_done es" and "length todo + 2 \<le> length es"
  shows "\<exists>st' es' d'. main_loop w True ser t0 clock todo es st d = Some (Go (st', es', d')) \<and> list_all all_done es' \<and> 2 \<le> length es'"
  using assms(3,5-8)
proof (induction todo arbitrary: es st d ks)
  case (Cons k todo)
  have i: "ainv st" using areach_inv[OF Cons.prems(1) assms(4)] by (simp add: run_inv_def)
  obtain e es1 where es: "es = e # es1" using Cons.prems(5) by (cases es) auto
  obtain st1 es' where w: "(if ser then wait_jobs w es st else Some (Go (st, es))) = Some (Go (st1, es'))" "es' = es \<or> es' = es1"
    using wait_jobs_done[OF assms(1) _ i, of e es1] Cons.prems(4) es by (cases ser) auto
  obtain st2 where st2: "launch_job w k st1 = Go st2" using launch_job_ok[OF assms(1,2)] by blast
  have so: "start_one w True ser t0 (clock k) k es st = Some (Go (st2, es'))"
    using w(1) st2 by (cases ser) (auto simp: start_one_def xsleep_def time_till_def)
  have g: "areach w ser st0 (ks @ [k]) st2"
    using start_one_reach[OF so Cons.prems(1) assms(4)] Cons.prems(2,3) by auto
  have "\<exists>st' es'' d'. main_loop w True ser t0 clock todo es' st2 d = Some (Go (st', es'', d')) \<and> list_all all_done es'' \<and> 2 \<le> length es''"
    using Cons.prems(2-5) w(2) es by (intro Cons.IH[OF g]) auto
  moreover have "\<exists>st' es'' d'. main_loop w True ser t0 clock todo es st (d + 1) = Some (Go (st', es'', d')) \<and> list_all all_done es'' \<and> 2 \<le> length es''"
    using Cons.prems by (intro Cons.IH) auto
  ultimately show ?case by (simp add: so)
qed auto

text \<open>C40. \<open>anacron -n\<close> ends: when the system calls succeed and each \<open>SIGCHLD\<close> finds the children ended, two signals more than there
  are jobs are enough for it to start all jobs, one after the other, and to end normally.\<close>

theorem anacron_ends:
  assumes "calls_ok w" and "temp_ok w" and "fresh_start st0" and "list_all all_done es" and "length (r_jobs st0) + 2 \<le> length es"
  shows "\<exists>st. run_all w True ser t0 clock es st0 = Some (Go st)"
proof -
  obtain st1 es1 d where m: "main_loop w True ser t0 clock [0..<length (r_jobs st0)] es st0 0 = Some (Go (st1, es1, d))"
      "list_all all_done es1" "2 \<le> length es1"
    using main_loop_done[OF assms(1,2) a_start assms(3), of "[0..<length (r_jobs st0)]" es ser t0 clock 0] assms(4,5) by auto
  have "areach w ser st0 (filter (\<lambda>k. a_drop_job (r_jobs st0 ! k) \<noteq> 1) [0..<length (r_jobs st0)]) st1"
    using main_loop_reach[OF m(1) a_start assms(3)] by simp
  then have "ainv st1" using areach_inv[OF _ assms(3)] by (auto simp: run_inv_def)
  then obtain st2 es2 where "wait_children w es1 st1 = Some (Go (st2, es2))" using wait_children_done[OF assms(1) m(2,3)] by blast
  then show ?thesis using m(1) by (simp add: run_all_def Let_def)
qed

definition sample_events :: "sigev list" where
  "sample_events = replicate 4 \<lparr>ev_alrm = False, ev_chld = True, ev_usr1 = False, ev_wait = (\<lambda>_. WaitDone (Exited 0))\<rparr>"

lemma sample_calls: "calls_ok sample_run" "temp_ok sample_run" "list_all all_done sample_events" "length (r_jobs sample_arun) + 2 \<le> length sample_events"
proof -
  have "temp_loop (rs_temp sample_run i) 1 = TOk" for i
    by (simp add: sample_run_def temp_loop.simps[of _ "Suc 0"] temp_loop.simps[of _ "Suc (Suc 0)"] temp_loop.simps[of _ "Suc (Suc (Suc 0))"]
        macro_defs)
  then show "temp_ok sample_run" by (simp add: temp_ok_def sample_run_def)
qed (simp_all add: calls_ok_def sample_run_def sample_day_def all_done_def sample_events_def sample_arun_def eval_nat_numeral)


theorem anacron_ends_witness:
  "\<exists>st. run_all sample_run True True 0 (\<lambda>_. 0) sample_events sample_arun = Some (Go st)"
  using anacron_ends[OF sample_calls(1,2) sample_fresh sample_calls(3,4)] by blast

lemma sample_ends: "\<exists>st. run_all sample_run True True 0 (\<lambda>_. 0) sample_events sample_arun = Some (Go st)"
proof -
  obtain st1 es1 d where m: "main_loop sample_run True True 0 (\<lambda>_. 0) [0..<length (r_jobs sample_arun)] sample_events sample_arun 0 = Some (Go (st1, es1, d))"
      "list_all all_done es1" "2 \<le> length es1"
    using main_loop_done[OF sample_calls(1,2) a_start sample_fresh, of "[0..<length (r_jobs sample_arun)]" sample_events True 0 "\<lambda>_. 0" 0]
      sample_calls(3,4) by auto
  then have "ainv st1"
    using areach_inv[OF _ sample_fresh] main_loop_reach[OF m(1) a_start sample_fresh] by (auto simp: run_inv_def)
  then show ?thesis using wait_children_done[OF sample_calls(1) m(2,3), of st1] m(1) by (auto simp: run_all_def Let_def)
qed

theorem anacron_stamps_jobs_witness:
  "\<exists>st. run_all sample_run True True 0 (\<lambda>_. 0) sample_events sample_arun = Some (Go st)
     \<and> map fst (r_execs st) = map (\<lambda>k. a_command (r_jobs st ! k)) [0, 1]
     \<and> sp_files (r_spool st) (a_ident (r_jobs st ! 1)) = Some (stamp_text sample_day) \<and> running_jobs st = 0"
proof -
  obtain st where st: "run_all sample_run True True 0 (\<lambda>_. 0) sample_events sample_arun = Some (Go st)" using sample_ends by blast
  have d: "filter (\<lambda>k. a_drop_job (r_jobs sample_arun ! k) \<noteq> 1) [0..<length (r_jobs sample_arun)] = [0, 1]"
    by (simp add: sample_arun_def sample_ajob_def upt_rec)
  from anacron_stamps_jobs[OF st sample_fresh] d st show ?thesis by (auto simp: sample_run_def)
qed

end
