(* ===== verification/AnaTabProps.thy ===== *)
theory AnaTabProps
  imports AnaTab
begin

text \<open>
  What the parser of the anacrontab reads: the lines of a table, and the text of settings and jobs.
\<close>

section \<open>Regular expressions\<close>

fun atom_ok :: "atom \<Rightarrow> string \<Rightarrow> bool" where
  "atom_ok (p, q) m \<longleftrightarrow> list_all p m \<and> (case q of Once \<Rightarrow> length m = 1 | Any \<Rightarrow> True | Some1 \<Rightarrow> m \<noteq> [])"

lemma first_some_SomeD: "first_some xs = Some y \<Longrightarrow> Some y \<in> set xs"
  by (induction xs) (auto split: option.splits)

lemma takeWhile_take: "k \<le> length (takeWhile p s) \<Longrightarrow> list_all p (take k s)"
  by (metis list_all_iff set_takeWhileD takeWhile_eq_take take_take in_set_takeD min.absorb1)

lemma atom_lens_ok: "k \<in> set (atom_lens a s) \<Longrightarrow> atom_ok a (take k s)"
proof (cases a)
  case (Pair p q)
  assume "k \<in> set (atom_lens a s)"
  then have "k \<le> length (takeWhile p s)" "q = Once \<Longrightarrow> k = 1" "q = Some1 \<Longrightarrow> k \<ge> 1"
    using Pair by (auto simp: atom_lens_def Let_def split: quant.splits if_splits)
  moreover have "length (takeWhile p s) \<le> length s" by (rule length_takeWhile_le)
  ultimately show ?thesis using takeWhile_take[of k p s] Pair by (auto split: quant.splits)
qed

text \<open>A match is a decomposition of the text into pieces the atoms accept.\<close>

lemma rx_atoms_sound: "rx_atoms as s = Some ms \<Longrightarrow> concat ms = s \<and> list_all2 atom_ok as ms"
proof (induction as arbitrary: s ms)
  case (Cons a as)
  from first_some_SomeD[OF Cons.prems[unfolded rx_atoms.simps]]
  obtain k ms' where k: "k \<in> set (atom_lens a s)" "rx_atoms as (drop k s) = Some ms'" "ms = take k s # ms'"
    by (auto simp: map_option_case split: option.splits)
  with Cons.IH[OF k(2)] atom_lens_ok[OF k(1)] show ?case by simp
qed (simp split: if_splits)

text \<open>A decomposition in which each piece is as long as possible is found.\<close>

lemma rx_atoms_greedy:
  assumes "list_all p x" and "t = [] \<or> \<not> p (hd t)" and "q = Some1 \<Longrightarrow> x \<noteq> []" and "q \<noteq> Once" and "rx_atoms as t = Some ms"
  shows "rx_atoms ((p, q) # as) (x @ t) = Some (x # ms)"
proof -
  have "takeWhile p t = []" using assms(2) by (cases t) auto
  then have tw: "takeWhile p (x @ t) = x" using assms(1) by (simp add: list_all_iff)
  have l: "atom_lens (p, q) (x @ t) = length x # tl (atom_lens (p, q) (x @ t))"
    using assms(3,4) tw by (cases q; cases x) (auto simp: atom_lens_def Let_def)
  show ?thesis unfolding rx_atoms.simps by (subst l) (simp add: assms(5))
qed

lemma rx_atoms_once:
  assumes "p c" and "rx_atoms as t = Some ms"
  shows "rx_atoms ((p, Once) # as) (c # t) = Some ([c] # ms)"
  using assms by (simp add: atom_lens_def)

lemma rx_atoms_all:
  "rx_atoms [(\<lambda>c. True, Any)] s = Some [s]"
  using rx_atoms_greedy[of "\<lambda>c. True" s "[]" Any "[]" "[]"] by (simp add: list_all_iff)

declare rx_atoms.simps [simp del]

section \<open>Settings\<close>

definition nm_char :: "char \<Rightarrow> bool" where
  "nm_char c \<longleftrightarrow> \<not> blank c \<and> c \<noteq> CHR ''=''"

lemma rx_env_atoms: "concat (map snd rx_env) = [(blank, Any), (nm_char, Some1), (blank, Any), (\<lambda>c. c = CHR ''='', Once), (\<lambda>c. True, Any)]"
  by (simp add: rx_env_def nm_char_def[abs_def])

lemma hd_all: "list_all p x \<Longrightarrow> x \<noteq> [] \<Longrightarrow> p (hd (x @ t))"
  by (cases x) auto

lemma match_env:
  assumes "list_all blank b" and "list_all nm_char n" and "n \<noteq> []" and "list_all blank b'"
  shows "match_rx True rx_env (b @ n @ b' @ CHR ''='' # v) 2 = (1, [n, v], b @ n)"
proof -
  have h: "\<not> blank (hd (n @ b' @ CHR ''='' # v))" "\<not> nm_char (hd (b' @ CHR ''='' # v))" "\<not> blank (CHR ''='')"
    using hd_all[OF assms(2,3)] hd_all[OF assms(4), of "CHR ''='' # v"] by (cases b'; auto simp: nm_char_def blank_def)+
  have "rx_atoms [(\<lambda>c. c = CHR ''='', Once), (\<lambda>c. True, Any)] (CHR ''='' # v) = Some [''='', v]"
    by (rule rx_atoms_once[OF _ rx_atoms_all]) simp
  then have "rx_atoms [(blank, Any), (\<lambda>c. c = CHR ''='', Once), (\<lambda>c. True, Any)] (b' @ CHR ''='' # v) = Some [b', ''='', v]"
    using assms(4) h(3) by - (rule rx_atoms_greedy; simp)
  then have "rx_atoms [(nm_char, Some1), (blank, Any), (\<lambda>c. c = CHR ''='', Once), (\<lambda>c. True, Any)] (n @ b' @ CHR ''='' # v) = Some [n, b', ''='', v]"
    using assms(2,3) h(2) by - (rule rx_atoms_greedy; simp)
  then have "rx_atoms (concat (map snd rx_env)) (b @ n @ b' @ CHR ''='' # v) = Some [b, n, b', ''='', v]"
    unfolding rx_env_atoms using assms(1) h(1) by - (rule rx_atoms_greedy; simp)
  then show ?thesis by (simp add: match_rx_def) (simp add: rx_env_def Let_def)
qed

lemma match_env_dest:
  assumes "rx_atoms (concat (map snd rx_env)) s = Some ms"
  shows "\<exists>v. dropWhile blank (dropWhile nm_char (dropWhile blank s)) = CHR ''='' # v"
proof -
  obtain b n b' e v where m: "ms = [b, n, b', e, v]" "list_all blank b" "list_all nm_char n" "n \<noteq> []" "list_all blank b'"
      "length e = 1" "list_all (\<lambda>c. c = CHR ''='') e" "s = b @ n @ b' @ e @ v"
    using rx_atoms_sound[OF assms] unfolding rx_env_atoms by (auto simp: list_all2_Cons1)
  have e: "e = ''=''" using m(6,7) by (cases e) auto
  have "dropWhile blank s = n @ b' @ e @ v"
    using m(2,3,4) by (cases n) (auto simp: m(8) list_all_iff nm_char_def dropWhile_append)
  moreover have "dropWhile nm_char (n @ b' @ e @ v) = b' @ e @ v"
    using m(3,5) e by (cases b') (auto simp: list_all_iff nm_char_def dropWhile_append)
  moreover have "dropWhile blank (b' @ e @ v) = e @ v"
    using m(5) e by (auto simp: list_all_iff dropWhile_append blank_def)
  ultimately show ?thesis using e by simp
qed

section \<open>Jobs\<close>

definition id_char :: "char \<Rightarrow> bool" where
  "id_char c \<longleftrightarrow> \<not> blank c \<and> c \<noteq> CHR ''/''"

lemma rx_tail_atoms: "concat (map snd rx_tail) =
    [(blank, Some1), (c_isdigit, Some1), (blank, Some1), (id_char, Some1), (blank, Some1), (\<lambda>c. \<not> blank c, Once), (\<lambda>c. True, Any)]"
  by (simp add: rx_tail_def id_char_def[abs_def])

definition job_tail_ok :: "string \<Rightarrow> string \<Rightarrow> string \<Rightarrow> string \<Rightarrow> string \<Rightarrow> string \<Rightarrow> bool" where
  "job_tail_ok b1 ds b2 idn b3 com \<longleftrightarrow>
     list_all blank b1 \<and> b1 \<noteq> [] \<and> list_all c_isdigit ds \<and> ds \<noteq> [] \<and> list_all blank b2 \<and> b2 \<noteq> []
     \<and> list_all id_char idn \<and> idn \<noteq> [] \<and> list_all blank b3 \<and> b3 \<noteq> [] \<and> com \<noteq> [] \<and> \<not> blank (hd com)"

lemma digit_not_blank: "c_isdigit c \<Longrightarrow> \<not> blank c"
  by (auto simp: blank_def ctype_simps ord_char_def)

lemma rx_tail_match:
  assumes "job_tail_ok b1 ds b2 idn b3 com"
  shows "rx_atoms (concat (map snd rx_tail)) (b1 @ ds @ b2 @ idn @ b3 @ com) = Some [b1, ds, b2, idn, b3, [hd com], tl com]"
proof -
  note a = assms[unfolded job_tail_ok_def]
  have h: "\<not> blank (hd (ds @ b2 @ idn @ b3 @ com))" "\<not> c_isdigit (hd (b2 @ idn @ b3 @ com))" "\<not> blank (hd (idn @ b3 @ com))"
      "\<not> id_char (hd (b3 @ com))" "\<not> blank (hd com)"
    using a hd_all[of c_isdigit ds] hd_all[of blank b2] hd_all[of id_char idn] hd_all[of blank b3]
    by (auto dest: digit_not_blank simp: id_char_def)
  let ?r = "[(\<lambda>c. \<not> blank c, Once), (\<lambda>c. True, Any)]"
  have "rx_atoms ?r (hd com # tl com) = Some [[hd com], tl com]" using h(5) by (rule rx_atoms_once[OF _ rx_atoms_all])
  then have "rx_atoms ?r com = Some [[hd com], tl com]" using a by simp
  then have "rx_atoms ((blank, Some1) # ?r) (b3 @ com) = Some [b3, [hd com], tl com]"
    using a h(5) by - (rule rx_atoms_greedy; simp)
  then have "rx_atoms ((id_char, Some1) # (blank, Some1) # ?r) (idn @ b3 @ com) = Some [idn, b3, [hd com], tl com]"
    using a h(4) by - (rule rx_atoms_greedy; simp)
  then have "rx_atoms ((blank, Some1) # (id_char, Some1) # (blank, Some1) # ?r) (b2 @ idn @ b3 @ com) = Some [b2, idn, b3, [hd com], tl com]"
    using a h(3) by - (rule rx_atoms_greedy; simp)
  then have "rx_atoms ((c_isdigit, Some1) # (blank, Some1) # (id_char, Some1) # (blank, Some1) # ?r) (ds @ b2 @ idn @ b3 @ com)
      = Some [ds, b2, idn, b3, [hd com], tl com]"
    using a h(2) by - (rule rx_atoms_greedy; simp)
  then show ?thesis
    unfolding rx_tail_atoms using a h(1) by - (rule rx_atoms_greedy; simp)
qed

lemma match_job:
  assumes "job_tail_ok b1 ds b2 idn b3 com" and "list_all blank b0" and "list_all c_isdigit ps" and "ps \<noteq> []"
  shows "\<exists>r. match_rx True rx_job (b0 @ ps @ b1 @ ds @ b2 @ idn @ b3 @ com) 4 = (1, [ps, ds, idn, com], r)"
proof -
  note a = assms(1)[unfolded job_tail_ok_def]
  let ?t = "ds @ b2 @ idn @ b3 @ com"
  have h: "\<not> blank (hd (ps @ b1 @ ?t))" "\<not> c_isdigit (hd (b1 @ ?t))"
    using a assms(3,4) hd_all[of c_isdigit ps] hd_all[of blank b1] by (auto dest: digit_not_blank)
  have "rx_atoms ((c_isdigit, Some1) # concat (map snd rx_tail)) (ps @ b1 @ ?t) = Some [ps, b1, ds, b2, idn, b3, [hd com], tl com]"
    using assms(3,4) h(2) rx_tail_match[OF assms(1)] by - (rule rx_atoms_greedy; simp)
  then have "rx_atoms ((blank, Any) # (c_isdigit, Some1) # concat (map snd rx_tail)) (b0 @ ps @ b1 @ ?t) =
      Some [b0, ps, b1, ds, b2, idn, b3, [hd com], tl com]"
    using assms(2) h(1) by - (rule rx_atoms_greedy; simp)
  then have m: "rx_atoms (concat (map snd rx_job)) (b0 @ ps @ b1 @ ?t) = Some [b0, ps, b1, ds, b2, idn, b3, [hd com], tl com]"
    by (simp add: rx_job_def)
  have "com \<noteq> []" using a by simp
  then show ?thesis unfolding match_rx_def by (simp add: m) (simp add: rx_job_def rx_tail_def Let_def eval_nat_numeral)
qed

lemma match_period:
  assumes "job_tail_ok b1 ds b2 idn b3 com" and "list_all blank b0" and "list_all (\<lambda>c. \<not> blank c) ps" and "ps \<noteq> []"
  shows "\<exists>r. match_rx True rx_period (b0 @ CHR ''@'' # ps @ b1 @ ds @ b2 @ idn @ b3 @ com) 4 = (1, [CHR ''@'' # ps, ds, idn, com], r)"
proof -
  note a = assms(1)[unfolded job_tail_ok_def]
  let ?t = "ds @ b2 @ idn @ b3 @ com"
  have h: "blank (hd (b1 @ ?t))" "\<not> blank (CHR ''@'')" using a hd_all[of blank b1] by (auto simp: blank_def)
  have "rx_atoms ((\<lambda>c. \<not> blank c, Some1) # concat (map snd rx_tail)) (ps @ b1 @ ?t) = Some [ps, b1, ds, b2, idn, b3, [hd com], tl com]"
    using assms(3,4) h rx_tail_match[OF assms(1)] by - (rule rx_atoms_greedy; simp)
  then have "rx_atoms ((\<lambda>c. c = CHR ''@'', Once) # (\<lambda>c. \<not> blank c, Some1) # concat (map snd rx_tail)) (CHR ''@'' # ps @ b1 @ ?t) =
      Some [''@'', ps, b1, ds, b2, idn, b3, [hd com], tl com]"
    by - (rule rx_atoms_once; simp)
  then have "rx_atoms ((blank, Any) # (\<lambda>c. c = CHR ''@'', Once) # (\<lambda>c. \<not> blank c, Some1) # concat (map snd rx_tail)) (b0 @ CHR ''@'' # ps @ b1 @ ?t) =
      Some [b0, ''@'', ps, b1, ds, b2, idn, b3, [hd com], tl com]"
    using assms(2) h(2) by - (rule rx_atoms_greedy; simp)
  then have m: "rx_atoms (concat (map snd rx_period)) (b0 @ CHR ''@'' # ps @ b1 @ ?t) = Some [b0, ''@'', ps, b1, ds, b2, idn, b3, [hd com], tl com]"
    by (simp add: rx_period_def)
  have "com \<noteq> []" using a by simp
  then show ?thesis unfolding match_rx_def by (simp add: m) (simp add: rx_period_def rx_tail_def Let_def eval_nat_numeral)
qed

section \<open>The lines of a table\<close>

lemma dropWhile_all_hd: "list_all p x \<Longrightarrow> t \<noteq> [] \<Longrightarrow> \<not> p (hd t) \<Longrightarrow> dropWhile p (x @ t) = t"
  by (cases t) (auto simp: list_all_iff dropWhile_append)

lemma digit_props: "c_isdigit c \<Longrightarrow> nm_char c \<and> c \<noteq> CHR ''#'' \<and> c \<noteq> CHR ''='' \<and> c \<noteq> CHR ''@''"
  by (auto simp: nm_char_def blank_def ctype_simps ord_char_def)

text \<open>A line whose first word is followed by blanks and a digit is not a setting.\<close>

lemma not_env:
  assumes "list_all blank b0" and "list_all nm_char ps" and "ps \<noteq> []" and "list_all blank b1" and "b1 \<noteq> []"
    and "list_all c_isdigit ds" and "ds \<noteq> []"
  shows "fst (match_rx True rx_env (b0 @ ps @ b1 @ ds @ t) n) = 0"
proof -
  let ?l = "b0 @ ps @ b1 @ ds @ t"
  have h: "\<not> blank (hd (ps @ b1 @ ds @ t))" "\<not> nm_char (hd (b1 @ ds @ t))" "\<not> blank (hd (ds @ t))" "hd (ds @ t) \<noteq> CHR ''=''"
    using hd_all[OF assms(2,3), of "b1 @ ds @ t"] hd_all[OF assms(4,5), of "ds @ t"] hd_all[OF assms(6,7), of t]
    by (auto simp: nm_char_def dest: digit_not_blank digit_props)
  have "dropWhile blank ?l = ps @ b1 @ ds @ t" using assms(1,3) h(1) by (intro dropWhile_all_hd) simp_all
  moreover have "dropWhile nm_char (ps @ b1 @ ds @ t) = b1 @ ds @ t" using assms(2,5) h(2) by (intro dropWhile_all_hd) simp_all
  moreover have "dropWhile blank (b1 @ ds @ t) = ds @ t" using assms(4,7) h(3) by (intro dropWhile_all_hd) simp_all
  ultimately have "rx_atoms (concat (map snd rx_env)) ?l = None"
    using match_env_dest[of ?l] h(4) by (metis list.sel(1) option.exhaust)
  then show ?thesis by (simp add: match_rx_def)
qed

lemma not_empty:
  assumes "list_all blank b" and "t \<noteq> []" and "\<not> blank (hd t)" and "hd t \<noteq> CHR ''#''"
  shows "\<not> empty_line (b @ t)"
  using assms dropWhile_all_hd[OF assms(1-3)] by (simp add: empty_line_def)

lemma parse_job_line:
  assumes "tw_rx w" and "job_tail_ok b1 ds b2 idn b3 com" and "list_all blank b0" and "list_all c_isdigit ps" and "ps \<noteq> []"
  shows "parse_tab_line w (b0 @ ps @ b1 @ ds @ b2 @ idn @ b3 @ com) s = register_job w ps ds idn com s"
proof -
  note a = assms(2)[unfolded job_tail_ok_def]
  let ?l = "b0 @ ps @ b1 @ ds @ b2 @ idn @ b3 @ com"
  have nm: "list_all nm_char ps" using assms(4) digit_props by (auto simp: list_all_iff)
  have e: "\<not> empty_line ?l"
    using hd_all[OF assms(4,5)] assms(3,5) by (intro not_empty) (auto dest: digit_not_blank digit_props)
  have env: "fst (match_rx True rx_env ?l 2) = 0" using a assms(3,5) nm by (intro not_env) auto
  from match_job[OF assms(2-5)] obtain r where "match_rx True rx_job ?l 4 = (1, [ps, ds, idn, com], r)" by blast
  then show ?thesis using e env assms(1) by (auto simp: parse_tab_line_def split: prod.splits)
qed

lemma parse_period_line:
  assumes "tw_rx w" and "job_tail_ok b1 ds b2 idn b3 com" and "list_all blank b0" and "list_all nm_char ps" and "ps \<noteq> []"
  shows "parse_tab_line w (b0 @ CHR ''@'' # ps @ b1 @ ds @ b2 @ idn @ b3 @ com) s = register_period_job w (CHR ''@'' # ps) ds idn com s"
proof -
  note a = assms(2)[unfolded job_tail_ok_def]
  let ?l = "b0 @ CHR ''@'' # ps @ b1 @ ds @ b2 @ idn @ b3 @ com"
  have at: "\<not> blank (CHR ''@'')" "nm_char (CHR ''@'')" "\<not> c_isdigit (CHR ''@'')"
    by (simp_all add: blank_def nm_char_def ctype_simps ord_char_def)
  have e: "\<not> empty_line ?l" using assms(3) at by (intro not_empty) auto
  have "fst (match_rx True rx_env (b0 @ (CHR ''@'' # ps) @ b1 @ ds @ b2 @ idn @ b3 @ com) 2) = 0"
    using a assms(3,4) at(2) by (intro not_env) auto
  then have env: "fst (match_rx True rx_env ?l 2) = 0" by simp
  have "list_all (\<lambda>c. \<not> blank c) ps" using assms(4) by (auto simp: list_all_iff nm_char_def)
  from match_period[OF assms(2,3) this assms(5)] obtain r where p: "match_rx True rx_period ?l 4 = (1, [CHR ''@'' # ps, ds, idn, com], r)" by blast
  have "rx_atoms (concat (map snd rx_job)) ?l = None"
  proof (rule ccontr)
    assume "rx_atoms (concat (map snd rx_job)) ?l \<noteq> None"
    then obtain ms where "concat ms = ?l" "list_all2 atom_ok (concat (map snd rx_job)) ms" using rx_atoms_sound by blast
    then obtain m1 m2 ms' where m: "m1 @ m2 @ ms' = ?l" "list_all blank m1" "list_all c_isdigit m2" "m2 \<noteq> []"
      by (auto simp: rx_job_def list_all2_Cons1 split: quant.splits)
    then have "dropWhile blank ?l = m2 @ ms'"
      using dropWhile_all_hd[of blank m1 "m2 @ ms'"] hd_all[OF m(3,4), of ms'] by (auto dest: digit_not_blank)
    moreover have "dropWhile blank ?l = CHR ''@'' # ps @ b1 @ ds @ b2 @ idn @ b3 @ com"
      using assms(3) at by (intro dropWhile_all_hd) auto
    ultimately show False using hd_all[OF m(3,4), of ms'] at(3) by (metis list.sel(1))
  qed
  then have "fst (match_rx True rx_job ?l 4) = 0" by (simp add: match_rx_def)
  then show ?thesis using e env p assms(1) by (auto simp: parse_tab_line_def split: prod.splits)
qed

definition special_name :: "string \<Rightarrow> bool" where
  "special_name n \<longleftrightarrow> strncmp_eq n ''START_HOURS_RANGE'' 17 \<or> strncmp_eq n ''RANDOM_DELAY'' 12"

lemma parse_setting_line:
  assumes "tw_rx w" and "list_all blank b" and "list_all nm_char n" and "n \<noteq> []" and "hd n \<noteq> CHR ''#''" and "list_all blank b'"
  shows "parse_tab_line w (b @ n @ b' @ CHR ''='' # v) s = Go (env_assignment w n v s)"
proof -
  have "\<not> empty_line (b @ n @ b' @ CHR ''='' # v)"
    using hd_all[OF assms(3,4)] assms(2,4,5) by (intro not_empty) (auto simp: nm_char_def)
  with match_env[OF assms(2-4,6), of v] assms(1) show ?thesis by (simp add: parse_tab_line_def)
qed

section \<open>Reading a table\<close>

text \<open>The contents of a table, and its text.\<close>

datatype titem = TSet string string | TJob nat nat string string | TNamed string nat string string

fun item_text :: "titem \<Rightarrow> string" where
  "item_text (TSet n v) = n @ CHR ''='' # v"
| "item_text (TJob p d i c) = dec p @ TAB # dec d @ TAB # i @ TAB # c"
| "item_text (TNamed n d i c) = CHR ''@'' # n @ TAB # dec d @ TAB # i @ TAB # c"

definition table_text :: "titem list \<Rightarrow> string" where
  "table_text its = concat (map (\<lambda>it. item_text it @ [NL]) its)"

definition plain_line :: "string \<Rightarrow> bool" where
  "plain_line l \<longleftrightarrow> list_all (\<lambda>c. c \<noteq> NL \<and> c \<noteq> BSLASH \<and> c \<noteq> NUL) l"

definition job_ok :: "nat \<Rightarrow> string \<Rightarrow> string \<Rightarrow> bool" where
  "job_ok d i c \<longleftrightarrow> int d \<le> INT_MAX \<and> list_all id_char i \<and> i \<noteq> [] \<and> c \<noteq> [] \<and> \<not> blank (hd c)"

fun item_ok :: "titem \<Rightarrow> bool" where
  "item_ok (TSet n v) \<longleftrightarrow> plain_line (n @ v) \<and> list_all nm_char n \<and> n \<noteq> [] \<and> hd n \<noteq> CHR ''#'' \<and> \<not> special_name n"
| "item_ok (TJob p d i c) \<longleftrightarrow> plain_line (i @ c) \<and> int p \<le> INT_MAX \<and> job_ok d i c"
| "item_ok (TNamed n d i c) \<longleftrightarrow> plain_line (n @ i @ c) \<and> list_all nm_char n \<and> n \<noteq> [] \<and> named_period (CHR ''@'' # n) \<noteq> None \<and> job_ok d i c"

text \<open>What a table means: a job for each line of a job, with the number of its line, the argument that selects it and
  the number of settings above it.\<close>

definition table_job :: "tabworld \<Rightarrow> int \<Rightarrow> int \<Rightarrow> nat \<Rightarrow> string \<Rightarrow> string \<Rightarrow> int \<Rightarrow> nat \<Rightarrow> job_rec" where
  "table_job w per named d i c ln ne =
     \<lparr>a_period = per, a_named_period = named, a_delay = int d, a_ident = i, a_command = c, a_mailto = [], a_tab_line = ln,
      a_arg_num = the (job_arg_num w i), a_locked = False, a_output = [], a_header = 0, a_job_pid = 0, a_mailer_pid = 0,
      a_drop_job = jk_drop (tw_junk w) ln, a_prev_env = ne\<rparr>"

fun table_jobs :: "tabworld \<Rightarrow> int \<Rightarrow> nat \<Rightarrow> titem list \<Rightarrow> job_rec list" where
  "table_jobs w ln ne [] = []"
| "table_jobs w ln ne (TSet n v # its) = table_jobs w (ln + 1) (ne + 1) its"
| "table_jobs w ln ne (TJob p d i c # its) = table_job w (int p) 0 d i c ln ne # table_jobs w (ln + 1) ne its"
| "table_jobs w ln ne (TNamed n d i c # its) =
     table_job w 0 (the (named_period (CHR ''@'' # n))) d i c ln ne # table_jobs w (ln + 1) ne its"

fun table_envs :: "titem list \<Rightarrow> string list" where
  "table_envs [] = []"
| "table_envs (TSet n v # its) = (n @ CHR ''='' # v) # table_envs its"
| "table_envs (_ # its) = table_envs its"

lemma tab_line_plain:
  "plain_line l \<Longrightarrow> prev \<noteq> NL \<Longrightarrow> prev \<noteq> BSLASH \<Longrightarrow>
     tab_line prev acc (l @ NL # t) = (acc @ (if prev \<noteq> NUL then [prev] else []) @ l, t, False)"
  by (induction l arbitrary: prev acc) (auto simp: plain_line_def)

lemma digit_plain: "list_all c_isdigit s \<Longrightarrow> plain_line s"
  by (auto simp: plain_line_def list_all_iff ctype_simps ord_char_def)

lemma plain_line_app [simp]:
  "plain_line (a @ b) \<longleftrightarrow> plain_line a \<and> plain_line b"
  "plain_line (c # a) \<longleftrightarrow> c \<noteq> NL \<and> c \<noteq> BSLASH \<and> c \<noteq> NUL \<and> plain_line a"
  by (auto simp: plain_line_def)

lemma item_plain: "item_ok it \<Longrightarrow> plain_line (item_text it)"
  by (cases it) (auto intro!: digit_plain dec_digits)

lemma conv2int_dec: "int n \<le> INT_MAX \<Longrightarrow> conv2int (dec n) = int n"
proof -
  assume n: "int n \<le> INT_MAX"
  obtain c s where c: "dec n = c # s" "c_isdigit c" using dec_digits[of n] by (cases "dec n") auto
  have "takeWhile c_isdigit s = s" using dec_digits[of n] c(1) by (intro takeWhile_all) simp
  then have "strtol10 (dec n) = (int n, False)"
    using n c c_isdigit_not_special[OF c(2)] digits_val_dec[of n] by (simp add: strtol10_def Let_def macro_defs del: takeWhile_eq_all_conv)
  then show ?thesis using n by (simp add: conv2int_def)
qed

lemma job_tail: "job_ok d i c \<Longrightarrow> job_tail_ok [TAB] (dec d) [TAB] i [TAB] c"
  using dec_digits[of d] by (auto simp: job_tail_ok_def job_ok_def blank_def)

definition item_jobs_read :: "titem \<Rightarrow> int" where
  "item_jobs_read it = (case it of TSet _ _ \<Rightarrow> 0 | _ \<Rightarrow> 1)"

lemma parse_item:
  assumes "item_ok it" and "tw_rx w" and "\<And>i. job_arg_num w i \<noteq> None" and "random_number s = 0"
  shows "parse_tab_line w (item_text it) s =
    Go (s\<lparr>ts_jobs := ts_jobs s @ table_jobs w (line_num s) (length (ts_envs s)) [it], ts_envs := ts_envs s @ table_envs [it],
          jobs_read := jobs_read s + item_jobs_read it\<rparr>)"
proof -
  have arg: "\<exists>n. job_arg_num w i = Some n" for i using assms(3) by blast
  have s32d: "int d \<le> INT_MAX \<Longrightarrow> s32 (int d) = int d" for d by (simp add: s32_id macro_defs)
  show ?thesis
  proof (cases it)
    case (TSet n v)
    then show ?thesis
      using assms(1,2) parse_setting_line[of w "[]" n "[]" v s]
      by (simp add: special_name_def env_assignment_def register_env_def item_jobs_read_def)
  next
    case (TJob p d i c)
    then have k: "int p \<le> INT_MAX" "job_ok d i c" using assms(1) by auto
    then have "int d \<le> INT_MAX" by (simp add: job_ok_def)
    with k TJob show ?thesis
      using parse_job_line[OF assms(2) job_tail[OF k(2)], of "[]" "dec p" s] dec_digits[of p] arg[of i] assms(4)
      by (auto simp: register_job_def Let_def conv2int_dec add_job_def table_job_def item_jobs_read_def s32d)
  next
    case (TNamed n d i c)
    then have k: "list_all nm_char n" "n \<noteq> []" "job_ok d i c" "named_period (CHR ''@'' # n) \<noteq> None" using assms(1) by auto
    then have "int d \<le> INT_MAX" by (simp add: job_ok_def)
    with k TNamed show ?thesis
      using parse_period_line[OF assms(2) job_tail[OF k(3)], of "[]" n s] arg[of i] assms(4)
      by (auto simp: register_period_job_def Let_def conv2int_dec add_job_def table_job_def item_jobs_read_def s32d)
  qed
qed

lemma table_text_Cons: "table_text (it # its) = item_text it @ NL # table_text its"
  by (simp add: table_text_def)

definition table_state :: "tabworld \<Rightarrow> titem list \<Rightarrow> tabstate \<Rightarrow> tabstate" where
  "table_state w its s =
     s\<lparr>ts_jobs := ts_jobs s @ table_jobs w (line_num s + 1) (length (ts_envs s)) its, ts_envs := ts_envs s @ table_envs its,
       jobs_read := jobs_read s + sum_list (map item_jobs_read its), line_num := line_num s + int (length its) + 1\<rparr>"

lemma table_jobs_step: "table_jobs w ln ne (it # its) = table_jobs w ln ne [it] @ table_jobs w (ln + 1) (ne + length (table_envs [it])) its"
  by (cases it) simp_all

lemma table_envs_step: "table_envs (it # its) = table_envs [it] @ table_envs its"
  by (cases it) simp_all

lemma tab_loop_items:
  assumes "list_all item_ok its" and "tw_rx w" and "\<And>i. job_arg_num w i \<noteq> None" and "random_number s = 0"
  shows "tab_loop w (table_text its) False s = Go (table_state w its s)"
  using assms(1,4)
proof (induction its arbitrary: s)
  case Nil
  have "parse_tab_line w [] s' = Go s'" for s' using assms(2) by (simp add: parse_tab_line_def empty_line_def)
  then show ?case
    by (simp add: tab_loop.simps[of w "[]"] read_tab_line_def table_text_def table_state_def)
next
  case (Cons it its)
  let ?s = "s\<lparr>line_num := line_num s + 1\<rparr>"
  let ?s1 = "?s\<lparr>ts_jobs := ts_jobs s @ table_jobs w (line_num s + 1) (length (ts_envs s)) [it], ts_envs := ts_envs s @ table_envs [it],
          jobs_read := jobs_read s + item_jobs_read it\<rparr>"
  have "read_tab_line (table_text (it # its), False) = Some (item_text it, table_text its, False)"
    using tab_line_plain[OF item_plain, of it NUL "[]" "table_text its"] Cons.prems by (simp add: read_tab_line_def table_text_Cons)
  then have "tab_loop w (table_text (it # its)) False s = tab_loop w (table_text its) False ?s1"
    using parse_item[OF _ assms(2,3), of it ?s] Cons.prems by (simp add: tab_loop.simps[of w "table_text (it # its)"])
  also have "\<dots> = Go (table_state w its ?s1)" using Cons.prems by (intro Cons.IH) simp_all
  also have "table_state w its ?s1 = table_state w (it # its) s"
    by (subst (2) table_state_def) (simp add: table_state_def table_jobs_step[of w _ _ it its] table_envs_step[of it its])
  finally show ?case .
qed

text \<open>C32. Reading an anacrontab gives exactly its contents: for the text of any list of settings and jobs (numbered and
  named periods), the settings and the jobs are registered in order, each job with its period, delay,
  identifier, command, line number and the settings above it, and nothing is complained about.\<close>

theorem anacrontab_roundtrip:
  assumes "list_all item_ok its" and "tw_rx w" and "\<And>i. job_arg_num w i \<noteq> None" and "random_number s = 0"
  shows "\<exists>s'. read_tab w spool True True (Some (table_text its)) s = Go s' \<and> ts_jobs s' = table_jobs w 1 0 its
    \<and> ts_envs s' = table_envs its \<and> ts_log s' = ts_log s \<and> range_start s' = range_start s \<and> range_stop s' = range_stop s"
  using tab_loop_items[OF assms(1-3), of "s\<lparr>ts_jobs := [], ts_envs := [], jobs_read := 0, line_num := 0\<rparr>"] assms(4)
  by (simp add: read_tab_def table_state_def)

definition sample_junk :: junk where
  "sample_junk = \<lparr>jk_named = (\<lambda>_. 77), jk_drop = (\<lambda>_. 0), jk_from = None, jk_to = None\<rparr>"

definition sample_tab :: tabworld where
  "sample_tab = \<lparr>tw_name = ''/etc/anacrontab'', tw_args = [''*''], tw_fnmatch = (\<lambda>p s. if p = ''*'' then 0 else 1), tw_rx = True,
     tw_random = (\<lambda>n. 0), tw_junk = sample_junk\<rparr>"

definition tab0 :: tabstate where
  "tab0 = \<lparr>ts_jobs = [], ts_envs = [], jobs_read = 0, line_num = 0, random_number = 0, range_start = -1, range_stop = -1, ts_log = alog0\<rparr>"

definition sample_items :: "titem list" where
  "sample_items = [TSet ''SHELL'' ''/bin/sh'', TJob 1 5 ''cron.daily'' ''run-parts /etc/cron.daily'', TNamed ''monthly'' 45 ''cron.monthly'' ''run-parts /etc/cron.monthly'']"

lemma sample_items_ok: "list_all item_ok sample_items" "job_arg_num sample_tab i \<noteq> None"
  by (simp_all add: sample_items_def plain_line_def nm_char_def id_char_def blank_def special_name_def strncmp_eq_def job_ok_def macro_defs
      named_period_def job_arg_num_def sample_tab_def)

theorem anacrontab_roundtrip_witness:
  "\<exists>s'. read_tab sample_tab ''/var/spool/anacron'' True True (Some (table_text sample_items)) tab0 = Go s'
     \<and> map a_ident (ts_jobs s') = [''cron.daily'', ''cron.monthly''] \<and> map a_prev_env (ts_jobs s') = [1, 1]"
proof -
  from anacrontab_roundtrip[OF sample_items_ok(1) _ sample_items_ok(2), of tab0 "''/var/spool/anacron''"]
  show ?thesis by (auto simp: sample_tab_def tab0_def sample_items_def table_job_def)
qed

section \<open>Departures from the manual\<close>

text \<open>A line with an unknown named period is announced as skipped, but its job is registered all the same, with
  whatever the memory of the record held as its period.\<close>

theorem unknown_period_registered:
  assumes "tw_rx w" and "job_ok d i c" and "list_all nm_char n" and "n \<noteq> []" and "named_period (CHR ''@'' # n) = None"
    and "job_arg_num w i = Some k"
  shows "\<exists>s' j. parse_tab_line w (item_text (TNamed n d i c)) s = Go s' \<and> ts_jobs s' = ts_jobs s @ [j] \<and> a_ident j = i \<and> a_command j = c
    \<and> a_named_period j = jk_named (tw_junk w) (line_num s) \<and> complaints (ts_log s') = complaints (ts_log s) + 1"
proof -
  have "int d \<le> INT_MAX" using assms(2) by (simp add: job_ok_def)
  then show ?thesis
    using parse_period_line[OF assms(1) job_tail[OF assms(2)], of "[]" n s] assms(3-6)
    by (simp add: register_period_job_def Let_def conv2int_dec add_job_def line_msg_def)
qed

theorem unknown_period_registered_witness:
  "\<exists>s' j. parse_tab_line sample_tab (item_text (TNamed ''annually'' 5 ''x'' ''true'')) tab0 = Go s' \<and> ts_jobs s' = [j] \<and> a_named_period j = 77"
proof -
  have k: "tw_rx sample_tab" "job_ok 5 ''x'' ''true''" "list_all nm_char ''annually''" "''annually'' \<noteq> []"
      "named_period (CHR ''@'' # ''annually'') = None" "job_arg_num sample_tab ''x'' = Some 0"
    by (simp_all add: sample_tab_def job_ok_def macro_defs id_char_def nm_char_def blank_def named_period_def strncmp_eq_def job_arg_num_def)
  from unknown_period_registered[OF k, of tab0] show ?thesis by (auto simp: tab0_def sample_tab_def sample_junk_def)
qed

end
