(* ===== verification/AnaMainProps.thy ===== *)
theory AnaMainProps
  imports AnaRunProps AnaTabProps
begin

text \<open>
  The whole of \<open>anacron\<close>, from its options to its exit (\<open>main\<close> of \<open>anacron/main.c\<close>): the jobs the table gives are idle, those
  chosen are locked, every failure before the first job ends with status 1, and what a run with status 0 has done.
\<close>

section \<open>Up to the first job\<close>

text \<open>Jobs as they come from the table: nothing runs for them yet.\<close>

definition idle :: "job_rec \<Rightarrow> bool" where
  "idle j \<longleftrightarrow> a_job_pid j = 0 \<and> a_mailer_pid j = 0"

lemma parse_tab_line_idle:
  assumes "parse_tab_line w l s = Go s'" and "\<forall>j \<in> set (ts_jobs s). idle j"
  shows "\<forall>j \<in> set (ts_jobs s'). idle j"
proof -
  have j: "ts_jobs (env_assignment w n v t) = ts_jobs t" "ts_jobs (line_msg w a b c t) = ts_jobs t" for n v a b c t
    by (auto simp: env_assignment_def register_env_def bad_line_def line_msg_def Let_def split: option.splits prod.splits if_splits)
  have a: "\<forall>j \<in> set (ts_jobs s1). idle j"
    if "add_job w p nm d i c t = Go s1" "\<forall>j \<in> set (ts_jobs t). idle j" for p nm d i c t s1
    using that by (auto simp: add_job_def idle_def split: option.splits)
  have "\<forall>j \<in> set (ts_jobs s1). idle j" if "register_job w p d i c s = Go s1" for p d i c s1
    using that assms(2) j a by (fastforce simp: register_job_def Let_def split: if_splits)
  moreover have "\<forall>j \<in> set (ts_jobs s1). idle j" if "register_period_job w p d i c s = Go s1" for p d i c s1
    using that assms(2) j a by (fastforce simp: register_period_job_def Let_def split: if_splits option.splits)
  ultimately show ?thesis
    using assms j by (auto simp: parse_tab_line_def bad_line_def split: if_splits prod.splits)
qed

lemma tab_loop_idle:
  "tab_loop w x eof s = Go s' \<Longrightarrow> \<forall>j \<in> set (ts_jobs s). idle j \<Longrightarrow> \<forall>j \<in> set (ts_jobs s'). idle j"
proof (induction w x eof s rule: tab_loop.induct)
  case (1 w x eof s)
  show ?case
  proof (cases "read_tab_line (x, eof)")
    case None
    then show ?thesis using "1.prems" by (simp add: tab_loop.simps[of w x])
  next
    case (Some p)
    obtain l r eof1 where p: "p = (l, r, eof1)" by (metis prod_cases3)
    obtain s1 where s1: "parse_tab_line w l (s\<lparr>line_num := line_num s + 1\<rparr>) = Go s1" "tab_loop w r eof1 s1 = Go s'"
      using "1.prems"(1) Some p by (auto simp: tab_loop.simps[of w x] go_on_Go)
    then show ?thesis using "1.IH"[OF Some p[symmetric] refl] parse_tab_line_idle[OF s1(1)] "1.prems"(2) by auto
  qed
qed

lemma read_tab_idle: "read_tab w spl a b t s = Go s' \<Longrightarrow> \<forall>j \<in> set (ts_jobs s'). idle j"
  by (auto simp: read_tab_def Let_def split: if_splits option.splits dest!: tab_loop_idle)

lemma arrange_jobs_fresh:
  assumes "arrange_jobs d js s = Go (arr, s')" and "\<forall>j \<in> set js. idle j"
  shows "(\<forall>j \<in> set arr. idle j \<and> (\<not> update_only d \<and> \<not> testing_only d \<longrightarrow> a_locked j))
    \<and> (update_only d \<or> testing_only d \<longrightarrow> sp_files s' = sp_files s)"
proof -
  have "\<forall>sel s'. arrange_loop d js s = Go (sel, s') \<longrightarrow>
      (\<forall>j \<in> set sel. idle j \<and> (\<not> update_only d \<and> \<not> testing_only d \<longrightarrow> a_locked j))
      \<and> (update_only d \<or> testing_only d \<longrightarrow> sp_files s' = sp_files s)"
    using assms(2)
  proof (induction js arbitrary: s)
    case (Cons j js)
    show ?case
    proof (intro allI impI)
      fix sel s' assume r: "arrange_loop d (j # js) s = Go (sel, s')"
      have ih: "\<forall>j \<in> set sel. idle j \<and> (\<not> update_only d \<and> \<not> testing_only d \<longrightarrow> a_locked j)"
          "update_only d \<or> testing_only d \<Longrightarrow> sp_files s' = sp_files t" if "arrange_loop d js t = Go (sel, s')" for sel s' t
        using Cons.IH[of t] Cons.prems that by auto
      have i: "idle j" "idle (j\<lparr>a_locked := True\<rparr>)" using Cons.prems by (auto simp: idle_def)
      consider "a_arg_num j = -1" | "a_arg_num j \<noteq> -1" "update_only d \<or> testing_only d"
        | "a_arg_num j \<noteq> -1" "\<not> update_only d" "\<not> testing_only d" by blast
      then show "(\<forall>j \<in> set sel. idle j \<and> (\<not> update_only d \<and> \<not> testing_only d \<longrightarrow> a_locked j))
          \<and> (update_only d \<or> testing_only d \<longrightarrow> sp_files s' = sp_files s)"
      proof cases
        case 1
        then show ?thesis using r ih[of s sel s'] by simp
      next
        case 2
        then obtain sel1 where "arrange_loop d js s = Go (sel1, s')" "sel = j # sel1" using r by (auto simp: go_on_Go)
        then show ?thesis using ih[of s sel1 s'] 2 i(1) by auto
      next
        case 3
        then obtain run t sel1 where "arrange_loop d js t = Go (sel1, s')" "sel = (if run then j\<lparr>a_locked := True\<rparr> # sel1 else sel1)"
          using r by (auto simp: go_on_Go)
        then show ?thesis using ih(1)[of t sel1 s'] 3 i(2) by auto
      qed
    qed
  qed simp
  then show ?thesis using assms(1) by (auto simp: arrange_jobs_def go_on_Go eo.set_sort)
qed

lemma fake_job_stamps:
  assumes "fake_job d j s = Go s'"
  shows "sp_files s' = (sp_files s)(a_ident j \<mapsto> stamp_text d)"
  using assms
  by (auto simp: fake_job_def open_tsfile_def update_timestamp_def xclose_def dies_def Let_def go_on_Go split: if_splits)

lemma fake_jobs_stamps:
  "fake_jobs d js s = Go s' \<Longrightarrow>
     sp_files s' n = (if n \<in> a_ident ` set js then Some (stamp_text d) else sp_files s n)"
proof (induction js arbitrary: s)
  case (Cons j js)
  then show ?case by (auto simp: go_on_Go dest!: fake_job_stamps)
qed simp

lemma intentions_keep:
  "intentions nw hour t0 from to js l = (js', l') \<Longrightarrow>
     list_all2 (\<lambda>j j'. idle j' = idle j \<and> a_locked j' = a_locked j \<and> a_ident j' = a_ident j) js js'"
proof (induction js arbitrary: l js' l')
  case (Cons j js)
  obtain l1 js1 l2 where "intentions nw hour t0 from to js l1 = (js1, l2)" "js' = (if \<not> nw \<and> out_of_range hour t0 from to j then j\<lparr>a_drop_job := 1\<rparr> else j) # js1"
    using Cons.prems by (auto simp only: intentions.simps Let_def split: prod.splits)
  then show ?case using Cons.IH by (simp add: idle_def)
qed simp

lemma prepare_result:
  assumes "anacron_prepare w op st0 = Go (day, tab, st1)"
  shows "date_of day = (tm_year (aw_tm w) + 1900, tm_mon (aw_tm w) + 1, tm_mday (aw_tm w))
    \<and> update_only day = o_update_only op \<and> testing_only day = o_testing_only op
    \<and> (\<forall>j \<in> set (r_jobs st1). idle j \<and> (\<not> o_update_only op \<and> \<not> o_testing_only op \<longrightarrow> a_locked j))
    \<and> (o_update_only op \<or> o_testing_only op \<longrightarrow> sp_files (r_spool st1) = sp_files (r_spool st0))
    \<and> r_execs st1 = r_execs st0 \<and> r_next_pid st1 = r_next_pid st0"
proof -
  obtain d0 l1 l2 tw spl b1 b2 t ts arr sp where
      day: "record_start_time d0 (aw_tm w) l1 = Go (day, l2)" "update_only d0 = o_update_only op" "testing_only d0 = o_testing_only op"
    and tab: "read_tab tw spl b1 b2 t ts = Go tab"
    and arr: "arrange_jobs day (ts_jobs tab) ((r_spool st0)\<lparr>sp_log := ts_log tab\<rparr>) = Go (arr, sp)"
    and st1: "st1 = st0\<lparr>r_jobs := arr, r_spool := sp\<rparr>"
    using assms unfolding anacron_prepare_def Let_def by (force split: ares.splits prod.splits)
  have d: "date_of day = (tm_year (aw_tm w) + 1900, tm_mon (aw_tm w) + 1, tm_mday (aw_tm w))" "update_only day = o_update_only op"
      "testing_only day = o_testing_only op"
    using day by (auto simp: record_start_time_def date_of_def Let_def split: if_splits)
  then show ?thesis using arrange_jobs_fresh[OF arr read_tab_idle[OF tab]] st1 by auto
qed

lemma prefix_upt:
  assumes "prefix ks (filter P [0..<n])"
  shows "distinct ks \<and> sorted ks \<and> set ks \<subseteq> {..<n}"
proof -
  obtain ys where ys: "filter P [0..<n] = ks @ ys" using assms by (auto simp: prefix_def)
  have "distinct (ks @ ys)" "sorted (ks @ ys)" unfolding ys[symmetric] by (auto intro: sorted_filter[where f = id, simplified])
  moreover have "set ks \<subseteq> set (filter P [0..<n])" unfolding ys by simp
  ultimately show ?thesis by (auto simp: sorted_append)
qed

text \<open>Every way out before the jobs are started has status 1.\<close>

lemma must_do_exit: "must_do ok cs l = Exit n l' \<Longrightarrow> n = 1"
  by (induction ok cs l rule: must_do.induct) (auto split: if_splits)

lemma parse_tab_line_exit: "parse_tab_line w l s = Exit n s' \<Longrightarrow> n = 1"
  by (auto simp: parse_tab_line_def register_job_def register_period_job_def add_job_def Let_def
      split: if_splits prod.splits option.splits)

lemma tab_loop_exit: "tab_loop w x eof s = Exit n s' \<Longrightarrow> n = 1"
proof (induction w x eof s rule: tab_loop.induct)
  case (1 w x eof s)
  then show ?case
    by (auto simp: tab_loop.simps[of w x] go_on_Exit split: option.splits prod.splits dest: parse_tab_line_exit)
qed

lemma consider_job_exit: "consider_job d j s = Exit n s' \<Longrightarrow> n = 1"
  by (auto simp: consider_job_def open_tsfile_def lock_file_def xclose_def dies_def go_on_Exit Let_def
      split: if_splits option.splits bool.splits)

lemma arrange_loop_exit: "arrange_loop d js s = Exit n s' \<Longrightarrow> n = 1"
  by (induction d js s rule: arrange_loop.induct) (auto simp: go_on_Exit split: if_splits prod.splits dest: consider_job_exit)

lemma fake_job_exit: "fake_job d j s = Exit n s' \<Longrightarrow> n = 1"
  by (auto simp: go_on_Exit fake_job_def open_tsfile_def update_timestamp_def xclose_def dies_def Let_def split: if_splits)

lemma fake_jobs_exit: "fake_jobs d js s = Exit n s' \<Longrightarrow> n = 1"
  by (induction d js s rule: fake_jobs.induct) (auto simp: go_on_Exit dest: fake_job_exit)

lemma detach_exit: "detach ok spl op l = Exit n l' \<Longrightarrow> n = 1"
  by (auto simp: detach_def go_background_def go_on_Exit simp del: must_do.simps split: if_splits dest: must_do_exit)

lemma record_start_time_exit: "record_start_time d t l = Exit n l' \<Longrightarrow> n = 1"
  by (auto simp: record_start_time_def Let_def split: if_splits)

lemma read_tab_exit: "read_tab w spl a b t s = Exit n s' \<Longrightarrow> n = 1"
  by (auto simp: read_tab_def Let_def split: if_splits option.splits dest: tab_loop_exit)

lemma arrange_jobs_exit: "arrange_jobs d js s = Exit n s' \<Longrightarrow> n = 1"
  by (auto simp: arrange_jobs_def go_on_Exit dest: arrange_loop_exit)

lemma prepare_exit:
  assumes "anacron_prepare w op st0 = Exit n st"
  shows "n = 1"
  using assms unfolding anacron_prepare_def Let_def
  by (auto split: ares.splits prod.splits dest: detach_exit record_start_time_exit read_tab_exit arrange_jobs_exit)

text \<open>The real run: the jobs the array holds are idle and locked when it starts.\<close>

lemma finish_run:
  assumes "anacron_finish w op day tab st1 = Some (0, st)" and "\<not> o_testing_only op" "\<not> o_update_only op"
    and "\<forall>j \<in> set (r_jobs st1). idle j \<and> a_locked j" and "r_execs st1 = []" and "0 < r_next_pid st1"
  shows "\<exists>ks. distinct ks \<and> sorted ks \<and> set ks \<subseteq> {..<length (r_jobs st)}
    \<and> map fst (r_execs st) = map (\<lambda>k. a_command (r_jobs st ! k)) ks
    \<and> (\<forall>k \<in> set ks. sp_files (r_spool st) (a_ident (r_jobs st ! k)) = Some (stamp_text day))
    \<and> running_jobs st = 0 \<and> running_mailers st = 0"
proof -
  obtain arr l where arr: "explain_intentions (o_now op) (serialize op) (aw_hour w) (aw_start w) (range_start tab) (range_stop tab)
      (r_jobs st1) (sp_log (r_spool st1)) = (arr, l)" by fastforce
  define s0 where "s0 = (log_of st1 l)\<lparr>r_jobs := arr, running_jobs := 0, running_mailers := 0, got_sigalrm := False\<rparr>"
  obtain l1 where "intentions (o_now op) (aw_hour w) (aw_start w) (range_start tab) (range_stop tab) (r_jobs st1) (sp_log (r_spool st1)) = (arr, l1)"
    using arr by (auto simp: explain_intentions_def split: prod.splits)
  from intentions_keep[OF this] have "\<forall>j \<in> set arr. idle j \<and> a_locked j"
    using assms(4) by (fastforce simp: list_all2_conv_all_nth in_set_conv_nth)
  then have fr: "fresh_start s0" using assms(5,6) by (simp add: fresh_start_def idle_def s0_def log_of_def)
  obtain r where r: "run_all ((aw_rs w)\<lparr>rs_day := day, rs_envs := ts_envs tab\<rparr>) (o_now op) (serialize op) (aw_start w) (aw_clock w)
      (aw_events w) s0 = Some r" "r = Go st \<or> r = Exit 0 st"
    using assms(1-3) arr by (auto simp: anacron_finish_def s0_def split: option.splits ares.splits)
  obtain ks where ks: "prefix ks (filter (\<lambda>k. a_drop_job (r_jobs s0 ! k) \<noteq> 1) [0..<length (r_jobs s0)])"
      "map fst (r_execs st) = map (\<lambda>k. a_command (r_jobs st ! k)) ks"
      "\<forall>k \<in> set ks. sp_files (r_spool st) (a_ident (r_jobs st ! k)) = Some (stamp_text day)"
      "running_jobs st = 0" "running_mailers st = 0" "map a_ident (r_jobs st) = map a_ident (r_jobs s0)"
    using run_all_stamps[OF r(1) fr r(2)] by auto
  have "length (r_jobs st) = length (r_jobs s0)" using map_eq_imp_length_eq[OF ks(6)] .
  then show ?thesis using prefix_upt[OF ks(1)] ks(2-5) by metis
qed

text \<open>C27. A run of the program that ends with status 0, from the options to the exit. With \<open>-T\<close> it changes no time stamp and starts
  nothing. With \<open>-u\<close> it starts nothing and gives exactly the selected jobs the time stamp of the day. Otherwise the
  commands it executed are those of different jobs, in the order of the array; each of these jobs has the time stamp of the day,
  and no job and no mailer is still running.\<close>

theorem anacron_program:
  assumes "anacron_main w os operands st0 = Some (0, st)" and "parse_opts os operands = Go op" and "r_execs st0 = []"
    and "0 < r_next_pid st0"
  shows "\<exists>day. date_of day = (tm_year (aw_tm w) + 1900, tm_mon (aw_tm w) + 1, tm_mday (aw_tm w)) \<and>
    (if o_testing_only op then r_execs st = [] \<and> sp_files (r_spool st) = sp_files (r_spool st0)
     else if o_update_only op then r_execs st = [] \<and>
       (\<forall>n. sp_files (r_spool st) n = (if n \<in> a_ident ` set (r_jobs st) then Some (stamp_text day) else sp_files (r_spool st0) n))
     else \<exists>ks. distinct ks \<and> sorted ks \<and> set ks \<subseteq> {..<length (r_jobs st)}
       \<and> map fst (r_execs st) = map (\<lambda>k. a_command (r_jobs st ! k)) ks
       \<and> (\<forall>k \<in> set ks. sp_files (r_spool st) (a_ident (r_jobs st ! k)) = Some (stamp_text day))
       \<and> running_jobs st = 0 \<and> running_mailers st = 0)"
proof -
  obtain l where m: "(case anacron_prepare w op (log_of st0 l) of Exit n st1 \<Rightarrow> Some (n, st1)
      | Go (day, tab, st1) \<Rightarrow> anacron_finish w op day tab st1) = Some (0, st)"
    using assms(1,2) by (auto simp: anacron_main_def Let_def)
  then obtain day tab st1 where p: "anacron_prepare w op (log_of st0 l) = Go (day, tab, st1)" "anacron_finish w op day tab st1 = Some (0, st)"
    using prepare_exit[of w op "log_of st0 l"] by (fastforce split: ares.splits)
  note pr = prepare_result[OF p(1)]
  have l: "sp_files (r_spool (log_of st0 l)) = sp_files (r_spool st0)" "r_execs (log_of st0 l) = r_execs st0"
      "r_next_pid (log_of st0 l) = r_next_pid st0" by (simp_all add: log_of_def)
  consider "o_testing_only op" | "\<not> o_testing_only op" "o_update_only op" | "\<not> o_testing_only op" "\<not> o_update_only op" by blast
  then show ?thesis
  proof cases
    case 1
    then have "st = st1" using p(2) by (simp add: anacron_finish_def)
    then show ?thesis using pr l assms(3) 1 by auto
  next
    case 2
    then obtain sp where sp: "fake_jobs day (r_jobs st1) (r_spool st1) = Go sp" "st = st1\<lparr>r_spool := sp\<rparr>"
      using p(2) fake_jobs_exit by (fastforce simp: anacron_finish_def split: ares.splits)
    then show ?thesis using pr l assms(3) 2 fake_jobs_stamps[OF sp(1)] by (intro exI[of _ day]) simp
  next
    case 3
    then show ?thesis using pr l assms(3,4) finish_run[OF p(2) 3] by auto
  qed
qed

definition sample_aworld :: aworld where
  "sample_aworld = \<lparr>aw_default_tab = ''/etc/anacrontab'', aw_default_spool = ''/var/spool/anacron'',
     aw_tab = (\<lambda>_. Some (table_text sample_items)), aw_sys = (\<lambda>_. True), aw_tm = tm_now sample_day, aw_start = 0, aw_clock = (\<lambda>_. 0),
     aw_hour = (\<lambda>_. 12), aw_tw = sample_tab, aw_rs = sample_run, aw_events = []\<rparr>"

lemma fake_jobs_ok: "all_calls d \<Longrightarrow> \<exists>s'. fake_jobs d js s = Go s'"
proof (induction js arbitrary: s)
  case (Cons j js)
  have "\<exists>s1. fake_job d j s = Go s1"
    using Cons.prems by (simp add: all_calls_def fake_job_def open_tsfile_def update_timestamp_def xclose_def Let_def)
  with Cons show ?case by auto
qed simp

definition update_opts :: aopts where
  "update_opts = \<lparr>serialize = False, o_force = False, o_update_only = True, o_now = False, no_daemon = False, o_quiet = False,
     o_testing_only = False, anacrontab = None, spooldir = None, a_args = [''*'']\<rparr>"

text \<open>A run of \<open>anacron -u\<close> on a table with two jobs.\<close>

lemma log_of_log [simp]: "sp_log (r_spool (log_of st l)) = l"
  by (simp add: log_of_def)

lemma sample_prepare:
  obtains day tab st1 where "anacron_prepare sample_aworld update_opts (log_of sample_arun l) = Go (day, tab, st1)" "all_calls day"
    "a_ident ` set (r_jobs st1) = {''cron.daily'', ''cron.monthly''}"
proof -
  let ?d0 = "sample_day\<lparr>force := False, update_only := True, testing_only := False, now_opt := False\<rparr>"
  obtain l1 where l1: "detach (\<lambda>_. True) ''/var/spool/anacron'' update_opts l = Go l1" by (simp add: detach_def go_background_def update_opts_def)
  have "day_num 2012 3 1 \<noteq> -1" using sample_dates(1) day_num_pos[of 2012 3 1] by (simp add: today_def date_of_def sample_day_def)
  then obtain day where day: "record_start_time ?d0 (tm_now sample_day) l1 = Go (day, l1)" "update_only day" "all_calls day"
    by (simp add: record_start_time_def Let_def sample_day_def all_calls_def)
  have tw: "sample_tab\<lparr>tw_name := ''/etc/anacrontab'', tw_args := [''*'']\<rparr> = sample_tab" by (simp add: sample_tab_def)
  define ts where "ts = \<lparr>ts_jobs = [], ts_envs = [], jobs_read = 0, line_num = 0, random_number = 0, range_start = -1, range_stop = -1, ts_log = l1\<rparr>"
  obtain tab where tab: "read_tab sample_tab ''/var/spool/anacron'' True True (Some (table_text sample_items)) ts = Go tab"
      "ts_jobs tab = table_jobs sample_tab 1 0 sample_items"
    using tab_loop_items[OF sample_items_ok(1) _ sample_items_ok(2), of ts] by (simp add: read_tab_def table_state_def ts_def sample_tab_def)
  have js: "\<forall>j \<in> set (ts_jobs tab). a_arg_num j \<noteq> -1" "a_ident ` set (ts_jobs tab) = {''cron.daily'', ''cron.monthly''}"
      "\<forall>j \<in> set (ts_jobs tab). known_period j"
    unfolding tab(2) by (auto simp: sample_items_def table_job_def job_arg_num_def sample_tab_def known_period_def named_period_def strncmp_eq_def)
  obtain s' where s': "arrange_loop day (ts_jobs tab) ((r_spool (log_of sample_arun l))\<lparr>sp_log := ts_log tab\<rparr>) = Go (ts_jobs tab, s')"
    using arrange_loop_chosen[OF day(3) js(3)] js(1) day(2) by (auto simp: chosen_def filter_id_conv)
  let ?arr = "qsort (execution_order (now_opt day)) (ts_jobs tab)"
  have "anacron_prepare sample_aworld update_opts (log_of sample_arun l) = Go (day, tab, (log_of sample_arun l)\<lparr>r_jobs := ?arr, r_spool := s'\<rparr>)"
    using l1 day(1) tab(1) s' tw
    by (simp add: anacron_prepare_def sample_aworld_def update_opts_def Let_def arrange_jobs_def ts_def sample_run_def)
  then show thesis using that day(3) js(2) by (simp add: eo.set_sort)
qed

theorem anacron_program_witness:
  "\<exists>st. anacron_main sample_aworld [(CHR ''u'', [])] [] sample_arun = Some (0, st) \<and> r_execs st = []
     \<and> sp_files (r_spool st) ''cron.daily'' \<noteq> None \<and> sp_files (r_spool st) ''other'' = None"
proof -
  have op: "parse_opts [(CHR ''u'', [])] [] = Go update_opts" by (simp add: parse_opts_def update_opts_def)
  define l where "l = (sp_log (r_spool sample_arun))\<lparr>is_primary := False, in_background := False, quiet := False\<rparr>\<lparr>quiet := o_quiet update_opts\<rparr>"
  have "aw_sys sample_aworld = (\<lambda>_. True)" by (simp add: sample_aworld_def)
  then have l: "anacron_main sample_aworld [(CHR ''u'', [])] [] sample_arun =
      (case anacron_prepare sample_aworld update_opts (log_of sample_arun l) of
         Exit n st1 \<Rightarrow> Some (n, st1) | Go (day, tab, st1) \<Rightarrow> anacron_finish sample_aworld update_opts day tab st1)"
    unfolding anacron_main_def Let_def op l_def by simp
  obtain day tab st1 where p: "anacron_prepare sample_aworld update_opts (log_of sample_arun l) = Go (day, tab, st1)" "all_calls day"
      "a_ident ` set (r_jobs st1) = {''cron.daily'', ''cron.monthly''}" by (rule sample_prepare)
  have o: "\<not> o_testing_only update_opts" "o_update_only update_opts" by (simp_all add: update_opts_def)
  obtain sp where sp: "fake_jobs day (r_jobs st1) (r_spool st1) = Go sp" using fake_jobs_ok[OF p(2)] by blast
  define st where "st = st1\<lparr>r_spool := sp\<rparr>"
  have st: "anacron_main sample_aworld [(CHR ''u'', [])] [] sample_arun = Some (0, st)"
    unfolding l p(1) using sp o by (simp add: anacron_finish_def st_def)
  have jobs: "a_ident ` set (r_jobs st) = {''cron.daily'', ''cron.monthly''}" using p(3) by (simp add: st_def)
  have init: "r_execs sample_arun = []" "0 < r_next_pid sample_arun" "sp_files (r_spool sample_arun) = (\<lambda>_. None)"
    by (simp_all add: sample_arun_def)
  obtain d where "r_execs st = []"
      "\<forall>n. sp_files (r_spool st) n = (if n \<in> a_ident ` set (r_jobs st) then Some (stamp_text d) else sp_files (r_spool sample_arun) n)"
    using anacron_program[OF st op init(1,2)] o by auto
  then show ?thesis using st unfolding jobs init(3) by simp
qed

end
