(* ===== verification/Tinjac.thy ===== *)
theory Tinjac
  imports CronSched
begin

text \<open>
  \<open>src/src/crontabs.cpp\<close> and \<open>src/src/main.cpp\<close>: tinjac's own program, which reads the first entry of every file of
  \<open>/etc/cron.d\<close> and prints it with the next time it would run.

  The parser is a copy of the one of cronie. Its functions \<open>get_list\<close>, \<open>get_range\<close>, \<open>get_number\<close>, \<open>set_element\<close>, \<open>get_char\<close>,
  \<open>unget_char\<close>, \<open>get_string\<close>, \<open>skip_comments\<close>, \<open>pw_dup\<close>, \<open>env_init\<close>, \<open>env_copy\<close>, \<open>env_set\<close>, \<open>env_get\<close>, \<open>glue_strings\<close> and \<open>strcmp_until\<close> have
  the same bodies (log statements apart) and are the same definitions here, as are the parts of
  \<open>load_entry\<close> before and behind the five lists; \<open>load_entry\<close> itself differs in the flag \<open>MON_STAR\<close>. The lines written
  to the log are left out. What is printed is a list of lines; the clock, the file system, \<open>getpwnam\<close> and the
  conversions of boost are given by \<open>tinsys\<close>. An exception is \<^const>\<open>Inl\<close>; \<^const>\<open>None\<close> is a program that does not come back.
\<close>

definition MON_STAR :: "32 word" where [macro_defs]: "MON_STAR = 0x40"

section \<open>load_entry\<close>

definition tin_load_times ::
  "bytes \<Rightarrow> 32 word \<Rightarrow> chr \<Rightarrow> istream \<Rightarrow> (bytes \<times> 32 word \<times> chr \<times> istream) parsed" where
  "tin_load_times m0 fl0 ch0 f0 =
     (let fl1 = star ch0 MIN_STAR fl0 in
      case get_list m0 minute_at FIRST_MINUTE LAST_MINUTE None ch0 f0 of (ch1, m1, f1) \<Rightarrow>
      if ch1 = None then Inl (e_minute, ch1, f1) else
      let fl2 = star ch1 HR_STAR fl1 in
      case get_list m1 hour_at FIRST_HOUR LAST_HOUR None ch1 f1 of (ch2, m2, f2) \<Rightarrow>
      if ch2 = None then Inl (e_hour, ch2, f2) else
      let fl3 = star ch2 DOM_STAR fl2 in
      case get_list m2 dom_at FIRST_DOM LAST_DOM None ch2 f2 of (ch3, m3, f3) \<Rightarrow>
      if ch3 = None then Inl (e_dom, ch3, f3) else
      let fl4 = star ch3 MON_STAR fl3 in
      case get_list m3 month_at FIRST_MONTH LAST_MONTH (Some MonthNames) ch3 f3 of (ch4, m4, f4) \<Rightarrow>
      if ch4 = None then Inl (e_month, ch4, f4) else
      let fl5 = star ch4 DOW_STAR fl4 in
      case get_list m4 dow_at FIRST_DOW LAST_DOW (Some DowNames) ch4 f4 of (ch5, m5, f5) \<Rightarrow>
      if ch5 = None then Inl (e_dow, ch5, f5) else Inr (m5, fl5, ch5, f5))"

definition tin_load_body ::
  "(string \<Rightarrow> passwd option) \<Rightarrow> ctx \<Rightarrow> passwd option \<Rightarrow> env \<Rightarrow> 32 word \<Rightarrow> chr \<Rightarrow> istream \<Rightarrow>
     (entry \<times> istream) parsed \<times> ctx" where
  "tin_load_body getpwnam c pw envp0 fl ch f =
     (let m0 = replicate tbits_size 0 in
      case (if ch = Some CHR ''@'' then load_special m0 fl f else tin_load_times m0 fl ch f) of
        Inl err \<Rightarrow> (Inl err, c)
      | Inr (m1, fl1, ch1, f1) \<Rightarrow> load_rest getpwnam c pw envp0 (sundays m1) fl1 ch1 f1)"

definition tin_load_entry ::
  "(string \<Rightarrow> passwd option) \<Rightarrow> ctx \<Rightarrow> istream \<Rightarrow> passwd option \<Rightarrow> env \<Rightarrow> (ecode + entry) \<times> ctx \<times> istream"
where
  "tin_load_entry getpwnam c file pw envp0 =
     (let fin = (\<lambda>(r, c). case r of
                    Inr (e, f) \<Rightarrow> (Inr e, c, f)
                  | Inl (ec, ch, f) \<Rightarrow> (Inl ec, c, to_eol ch f)) in
      case get_char (skip_comments file) of
        (None, f) \<Rightarrow> (Inl e_none, c, f)
      | (Some ch, f) \<Rightarrow>
          if ch = CHR ''-'' then
            if pw = None \<or> pw_uid (the pw) = 0 then
              (case get_char f of
                 (None, g) \<Rightarrow> (Inl e_none, c, g)
               | (ch1, g) \<Rightarrow> fin (tin_load_body getpwnam c pw envp0 DONT_LOG ch1 g))
            else
              fin (Inl (e_option, Some ch, f),
                c\<lparr>logs := logs c @ [(''CRON'', ''ERROR'', ''Only privileged user can disable logging'')]\<rparr>)
          else fin (tin_load_body getpwnam c pw envp0 0 (Some ch) f))"

section \<open>printTime\<close>

text \<open>\<open>for (i = first; i < last; i++) cout << (bit_test(bits, i) ? '1' : '0');\<close>\<close>

definition bit_row :: "bytes \<Rightarrow> nat \<Rightarrow> int \<Rightarrow> int \<Rightarrow> string" where
  "bit_row m bits lo hi = map (\<lambda>i. if bit_test m bits (nat i) then CHR ''1'' else CHR ''0'') [lo..hi - 1]"

definition bit_rows :: "bytes \<Rightarrow> string list" where
  "bit_rows m =
     [''Minute:'' @ bit_row m minute_at FIRST_MINUTE LAST_MINUTE,
      ''Hour:'' @ bit_row m hour_at FIRST_HOUR LAST_HOUR,
      ''Day:'' @ bit_row m dom_at FIRST_DOM LAST_DOM,
      ''Month:'' @ bit_row m month_at FIRST_MONTH LAST_MONTH,
      ''DOW:'' @ bit_row m dow_at FIRST_DOW LAST_DOW]"

text \<open>The searching loops: the first set bit from \<open>i\<close> to \<open>last\<close>.\<close>

definition find_bit :: "bytes \<Rightarrow> nat \<Rightarrow> int \<Rightarrow> int \<Rightarrow> int option" where
  "find_bit m bits i hi = List.find (\<lambda>i. bit_test m bits (nat i)) [i..hi]"

text \<open>
  One pass: go on with a new \<open>tm_then\<close>, \<open>goto restartm\<close> with new \<open>tm_now\<close> and \<open>tm_then\<close>, or give up. The label \<open>restartm\<close> stands in the
  \<open>else\<close> branch of the test for \<open>MON_STAR\<close>, so the test is made in the first pass only (\<open>again\<close> is false).
\<close>

datatype pass = Then tm | Again tm tm | GiveUp string

definition month_pass :: "entry \<Rightarrow> bool \<Rightarrow> tm \<Rightarrow> tm \<Rightarrow> tm \<Rightarrow> pass" where
  "month_pass e again st now thn =
     (if \<not> again \<and> flags e AND MON_STAR \<noteq> 0 then Then (thn\<lparr>tm_mon := tm_mon now\<rparr>)
      else case find_bit (tbits e) month_at (tm_mon now) LAST_MONTH of
        Some i \<Rightarrow> Then (thn\<lparr>tm_mon := tm_mon now\<rparr>)
      | None \<Rightarrow>
          (let thn1 = thn\<lparr>tm_year := tm_year thn + 1\<rparr>;
               now1 = now\<lparr>tm_mon := FIRST_MONTH, tm_mday := FIRST_DOM, tm_hour := FIRST_HOUR, tm_min := FIRST_MINUTE\<rparr>
           in if tm_year st + 1 < tm_year now1 then GiveUp ''Didnt get a valid Month'' else Again now1 thn1))"

definition day_pass :: "entry \<Rightarrow> tm \<Rightarrow> tm \<Rightarrow> tm \<Rightarrow> pass" where
  "day_pass e st now thn =
     (if flags e AND DOM_STAR \<noteq> 0 then Then (thn\<lparr>tm_mday := tm_mday now\<rparr>)
      else case find_bit (tbits e) dom_at (tm_mday now) LAST_DOM of
        Some i \<Rightarrow> Then (thn\<lparr>tm_mday := i + 1\<rparr>)
      | None \<Rightarrow>
          (let now1 = now\<lparr>tm_mon := tm_mon now + 1, tm_mday := FIRST_DOM, tm_hour := FIRST_HOUR, tm_min := FIRST_MINUTE\<rparr>
           in if tm_mon st + 12 < tm_mon now1 then GiveUp ''Didn't get a valid Day of Month'' else Again now1 thn))"

definition hour_pass :: "entry \<Rightarrow> tm \<Rightarrow> tm \<Rightarrow> tm \<Rightarrow> pass" where
  "hour_pass e st now thn =
     (if flags e AND HR_STAR \<noteq> 0 then Then (thn\<lparr>tm_hour := tm_hour now\<rparr>)
      else case find_bit (tbits e) hour_at (tm_hour now) LAST_HOUR of
        Some i \<Rightarrow> Then (thn\<lparr>tm_hour := i\<rparr>)
      | None \<Rightarrow>
          (let now1 = now\<lparr>tm_mday := tm_mday now + 1, tm_hour := FIRST_HOUR, tm_min := FIRST_MINUTE\<rparr>
           in if tm_hour st + 24 < tm_hour now1 then GiveUp ''Didn't get a valid Hour'' else Again now1 thn))"

definition minute_pass :: "entry \<Rightarrow> tm \<Rightarrow> tm \<Rightarrow> tm \<Rightarrow> pass" where
  "minute_pass e st now thn =
     (if flags e AND MIN_STAR \<noteq> 0 then Then (thn\<lparr>tm_min := tm_min now\<rparr>)
      else case find_bit (tbits e) minute_at (tm_min now) LAST_MINUTE of
        Some i \<Rightarrow> Then (thn\<lparr>tm_min := i\<rparr>)
      | None \<Rightarrow>
          (let now1 = now\<lparr>tm_hour := tm_hour now + 1, tm_min := FIRST_MINUTE\<rparr>
           in if tm_min st + 60 < tm_min now1 then GiveUp ''Didn't get a valid Minute'' else Again now1 thn))"

text \<open>The four searches in sequence.\<close>

definition and_then :: "pass \<Rightarrow> (tm \<Rightarrow> pass) \<Rightarrow> pass" where
  "and_then p k = (case p of Then t \<Rightarrow> k t | Again n t \<Rightarrow> Again n t | GiveUp s \<Rightarrow> GiveUp s)"

definition time_pass :: "entry \<Rightarrow> bool \<Rightarrow> tm \<Rightarrow> tm \<Rightarrow> tm \<Rightarrow> pass" where
  "time_pass e again st now thn =
     and_then (month_pass e again st now thn) (\<lambda>t1.
       and_then (day_pass e st now t1) (\<lambda>t2.
         and_then (hour_pass e st now t2) (minute_pass e st now)))"

text \<open>The jumps to \<open>restartm\<close>; \<^const>\<open>None\<close> when they never end.\<close>

partial_function (option) time_loop :: "entry \<Rightarrow> bool \<Rightarrow> tm \<Rightarrow> tm \<Rightarrow> tm \<Rightarrow> (string + tm) option" where
  "time_loop e again st now thn =
     (case time_pass e again st now thn of
        Then t \<Rightarrow> Some (Inr t)
      | GiveUp s \<Rightarrow> Some (Inl s)
      | Again n t \<Rightarrow> time_loop e True st n t)"

declare time_loop.simps [code]

record tinsys =
  ts_exists :: bool
  ts_dir :: "(string \<times> bool) list"
  ts_open :: "string \<Rightarrow> string option"
  ts_pwnam :: "string \<Rightarrow> passwd option"
  ts_now :: "string \<Rightarrow> tm"
  ts_valid :: "tm \<Rightarrow> bool"
  ts_print :: "tm \<Rightarrow> string"

text \<open>\<open>ts_valid\<close> says whether \<open>ptime_from_tm\<close> accepts a time; it throws for a date that does not exist. \<open>ts_print\<close> is how boost
  prints a time.\<close>

type_synonym tin_result = "string list + string list"

definition printTime :: "tinsys \<Rightarrow> tm \<Rightarrow> entry \<Rightarrow> string list \<Rightarrow> tin_result option" where
  "printTime y now e out =
     (let out1 = out @ bit_rows (tbits e) @ [ts_print y now] in
      case time_loop e False now now now of
        None \<Rightarrow> None
      | Some (Inl _) \<Rightarrow> Some (Inr out1)
      | Some (Inr t) \<Rightarrow> Some (if ts_valid y t then Inr (out1 @ [ts_print y t]) else Inl out1))"

section \<open>Files and the program\<close>

text \<open>\<open>parseCrontab\<close>; \<open>env_init\<close> is not checked: without memory \<open>env_copy\<close> follows a null pointer.\<close>

definition parseCrontab :: "tinsys \<Rightarrow> string \<Rightarrow> ctx \<times> string list \<Rightarrow> (ctx \<times> tin_result) option" where
  "parseCrontab y fname s =
     (case s of (c, out) \<Rightarrow>
        (case ts_open y fname of
           None \<Rightarrow> Some (c, Inr out)
         | Some txt \<Rightarrow>
             (case env_init c of
                (None, c1) \<Rightarrow> None
              | (Some ev, c1) \<Rightarrow>
                  (case tin_load_entry (ts_pwnam y) c1 (open_stream txt) None ev of
                     (Inl ec, c2, f) \<Rightarrow> Some (c2, Inr out)
                   | (Inr e, c2, f) \<Rightarrow>
                       (case printTime y (ts_now y fname) e (out @ ['' Command: '' @ cmd e]) of
                          None \<Rightarrow> None
                        | Some (Inl out1) \<Rightarrow> Some (c2, Inl out1)
                        | Some (Inr out1) \<Rightarrow> Some (c2, Inr (out1 @ ['' User: '' @ pw_name (pwd e)])))))))"

fun dir_loop :: "tinsys \<Rightarrow> (string \<times> bool) list \<Rightarrow> ctx \<times> string list \<Rightarrow> (ctx \<times> tin_result) option" where
  "dir_loop y [] (c, out) = Some (c, Inr out)"
| "dir_loop y ((p, regular) # ds) (c, out) =
     (if regular then
        (case parseCrontab y p (c, out) of
           None \<Rightarrow> None
         | Some (c1, Inl out1) \<Rightarrow> Some (c1, Inl out1)
         | Some (c1, Inr out1) \<Rightarrow> dir_loop y ds (c1, out1))
      else dir_loop y ds (c, out))"

definition setPath :: "tinsys \<Rightarrow> ctx \<times> string list \<Rightarrow> (ctx \<times> tin_result) option" where
  "setPath y s = (if \<not> ts_exists y then (case s of (c, out) \<Rightarrow> Some (c, Inr out)) else dir_loop y (ts_dir y) s)"

text \<open>\<open>main\<close>: the exit status and what was printed. An exception is caught and reported on the error output.\<close>

definition tin_main :: "tinsys \<Rightarrow> ctx \<Rightarrow> (int \<times> string list) option" where
  "tin_main y c =
     map_option (\<lambda>(_, r). (1, case r of Inl out \<Rightarrow> out | Inr out \<Rightarrow> out)) (setPath y (c, []))"

end
