(* ===== verification/TinjacProps.thy ===== *)
theory TinjacProps
  imports Tinjac CrontabProps
begin

text \<open>
  What tinjac's own program does: its parser reads what cron's parser reads; the search for the next time of an entry, when it
  comes back, what it finds, and when it never comes back.
\<close>

section \<open>The same parser\<close>

lemma star_or: "star ch b (fl OR b') = star ch b fl OR b'" "star ch b fl = fl OR (if ch = Some CHR ''*'' then b else 0)"
  by (simp_all add: star_def or.assoc or.commute or.left_commute)

lemma tin_load_times_eq:
  "\<exists>b \<in> {0, MON_STAR}. tin_load_times m fl ch f =
     (case load_times m fl ch f of Inl err \<Rightarrow> Inl err | Inr (m', fl', ch', f') \<Rightarrow> Inr (m', fl' OR b, ch', f'))"
proof -
  obtain ch1 m1 f1 where g1: "get_list m minute_at FIRST_MINUTE LAST_MINUTE None ch f = (ch1, m1, f1)" by (metis prod_cases3)
  obtain ch2 m2 f2 where g2: "get_list m1 hour_at FIRST_HOUR LAST_HOUR None ch1 f1 = (ch2, m2, f2)" by (metis prod_cases3)
  obtain ch3 m3 f3 where g3: "get_list m2 dom_at FIRST_DOM LAST_DOM None ch2 f2 = (ch3, m3, f3)" by (metis prod_cases3)
  obtain ch4 m4 f4 where g4: "get_list m3 month_at FIRST_MONTH LAST_MONTH (Some MonthNames) ch3 f3 = (ch4, m4, f4)"
    by (metis prod_cases3)
  obtain ch5 m5 f5 where g5: "get_list m4 dow_at FIRST_DOW LAST_DOW (Some DowNames) ch4 f4 = (ch5, m5, f5)" by (metis prod_cases3)
  define b where "b = (if ch3 = Some CHR ''*'' then MON_STAR else 0)"
  have s: "star ch4 DOW_STAR (star ch3 MON_STAR x) = star ch4 DOW_STAR x OR b" for x
    unfolding b_def star_or(2)[of ch3] star_or(1) ..
  show ?thesis
    by (rule bexI[of _ b]) (simp_all add: tin_load_times_def load_times_def Let_def g1 g2 g3 g4 g5 s, simp add: b_def)
qed

lemma load_rest_flags:
  "load_rest getpwnam c pw e0 m fl' ch f =
     (case load_rest getpwnam c pw e0 m fl ch f of
        (Inl err, c') \<Rightarrow> (Inl err, c') | (Inr (e, g), c') \<Rightarrow> (Inr (e\<lparr>flags := fl'\<rparr>, g), c'))"
  by (auto simp: load_rest_def split: sum.splits prod.splits option.splits bool.splits)

lemma load_rest_keeps_flags:
  "load_rest getpwnam c pw e0 m fl ch f = (Inr (e, g), c') \<Longrightarrow> flags e = fl"
  by (auto simp: load_rest_def split: sum.splits prod.splits option.splits bool.splits if_splits)

text \<open>Two results that differ in the flag \<open>MON_STAR\<close> of the entry only.\<close>

definition same_body :: "(entry \<times> istream) parsed \<times> ctx \<Rightarrow> (entry \<times> istream) parsed \<times> ctx \<Rightarrow> bool" where
  "same_body r r' \<longleftrightarrow>
     (case r of
        (Inl err, c) \<Rightarrow> r' = (Inl err, c)
      | (Inr (e, g), c) \<Rightarrow> \<exists>b \<in> {0, MON_STAR}. r' = (Inr (e\<lparr>flags := flags e OR b\<rparr>, g), c))"

lemma tin_load_body_eq:
  "same_body (load_body getpwnam c pw e0 fl ch f) (tin_load_body getpwnam c pw e0 fl ch f)"
proof -
  let ?m0 = "replicate tbits_size 0"
  define r where "r = (if ch = Some CHR ''@'' then load_special ?m0 fl f else load_times ?m0 fl ch f)"
  define r' where "r' = (if ch = Some CHR ''@'' then load_special ?m0 fl f else tin_load_times ?m0 fl ch f)"
  have e: "\<exists>b \<in> {0, MON_STAR}. r' = (case r of Inl err \<Rightarrow> Inl err | Inr (m', fl', ch', f') \<Rightarrow> Inr (m', fl' OR b, ch', f'))"
  proof (cases "ch = Some CHR ''@''")
    case True
    then show ?thesis by (auto simp: r_def r'_def split: sum.splits intro!: bexI[of _ 0])
  next
    case False
    then show ?thesis using tin_load_times_eq by (simp add: r_def r'_def)
  qed
  show ?thesis
  proof (cases r)
    case (Inl err)
    with e show ?thesis
      by (simp add: same_body_def load_body_def tin_load_body_def r_def[symmetric] r'_def[symmetric])
  next
    case (Inr x)
    obtain m' fl' ch' f' where x: "x = (m', fl', ch', f')" by (metis prod_cases4)
    then obtain b where b: "b \<in> {0, MON_STAR}" "r' = Inr (m', fl' OR b, ch', f')" using bexE[OF e] Inr by (metis (no_types, lifting) case_prod_conv sum.case(2))
    have l: "load_body getpwnam c pw e0 fl ch f = load_rest getpwnam c pw e0 (sundays m') fl' ch' f'"
      "tin_load_body getpwnam c pw e0 fl ch f = load_rest getpwnam c pw e0 (sundays m') (fl' OR b) ch' f'"
      using Inr x b(2) by (simp_all add: load_body_def tin_load_body_def r_def[symmetric] r'_def[symmetric])
    show ?thesis
      using load_rest_flags[of getpwnam c pw e0 "sundays m'" "fl' OR b" ch' f' fl'] b(1) load_rest_keeps_flags
      unfolding l same_body_def by (fastforce split: prod.splits sum.splits)
  qed
qed

lemma tin_load_entry_same:
  "\<exists>b \<in> {0, MON_STAR}. tin_load_entry getpwnam c f pw e0 =
     (case load_entry getpwnam c f pw e0 of
        (Inl ec, c', g) \<Rightarrow> (Inl ec, c', g)
      | (Inr e, c', g) \<Rightarrow> (Inr (e\<lparr>flags := flags e OR b\<rparr>), c', g))"
proof -
  define fin :: "(entry \<times> istream) parsed \<times> ctx \<Rightarrow> (ecode + entry) \<times> ctx \<times> istream" where
    "fin = (\<lambda>(r, c). case r of Inr (e, f) \<Rightarrow> (Inr e, c, f) | Inl (ec, ch, f) \<Rightarrow> (Inl ec, c, to_eol ch f))"
  define same :: "(ecode + entry) \<times> ctx \<times> istream \<Rightarrow> (ecode + entry) \<times> ctx \<times> istream \<Rightarrow> bool" where
    "same r r' \<longleftrightarrow> (\<exists>b \<in> {0, MON_STAR}. r' = (case r of (Inl ec, c', g) \<Rightarrow> (Inl ec, c', g)
      | (Inr e, c', g) \<Rightarrow> (Inr (e\<lparr>flags := flags e OR b\<rparr>), c', g)))" for r r'
  have s: "same (fin r) (fin r')" if "same_body r r'" for r r'
    using that by (auto simp: same_body_def same_def fin_def split: prod.splits sum.splits)
  have err: "same (fin (Inl x, c')) (fin (Inl x, c'))" "same (Inl ec, c', g) (Inl ec, c', g)" for x c' ec g
    by (auto simp: same_def fin_def split: prod.splits)
  obtain ch g where g: "get_char (skip_comments f) = (ch, g)" by fastforce
  obtain ch1 h where h: "get_char g = (ch1, h)" by fastforce
  have "same (load_entry getpwnam c f pw e0) (tin_load_entry getpwnam c f pw e0)"
    unfolding load_entry_def tin_load_entry_def Let_def g h fin_def[symmetric]
    by (cases ch1) (simp_all add: h s[OF tin_load_body_eq] err split: option.splits)
  then show ?thesis by (simp add: same_def)
qed


section \<open>The next time of an entry\<close>

lemma find_bit_Some: "find_bit m bits lo hi = Some i \<Longrightarrow> lo \<le> i \<and> i \<le> hi \<and> bit_test m bits (nat i)"
  by (auto simp: find_bit_def find_Some_iff)

lemma find_bit_None: "find_bit m bits lo hi = None \<longleftrightarrow> (\<forall>i. lo \<le> i \<and> i \<le> hi \<longrightarrow> \<not> bit_test m bits (nat i))"
  by (auto simp: find_bit_def find_None_iff)

lemma time_pass_Then:
  assumes "time_pass e ag st now thn = Then t"
  shows "tm_mon t = tm_mon now
    \<and> (if flags e AND DOM_STAR \<noteq> 0 then tm_mday t = tm_mday now
       else tm_mday now < tm_mday t \<and> tm_mday t \<le> LAST_DOM + 1 \<and> bit_test (tbits e) dom_at (nat (tm_mday t - 1)))
    \<and> (if flags e AND HR_STAR \<noteq> 0 then tm_hour t = tm_hour now
       else tm_hour now \<le> tm_hour t \<and> tm_hour t \<le> LAST_HOUR \<and> bit_test (tbits e) hour_at (nat (tm_hour t)))
    \<and> (if flags e AND MIN_STAR \<noteq> 0 then tm_min t = tm_min now
       else tm_min now \<le> tm_min t \<and> tm_min t \<le> LAST_MINUTE \<and> bit_test (tbits e) minute_at (nat (tm_min t)))"
proof -
  obtain t1 t2 t3 where p: "month_pass e ag st now thn = Then t1" "day_pass e st now t1 = Then t2"
      "hour_pass e st now t2 = Then t3" "minute_pass e st now t3 = Then t"
    using assms by (auto simp: time_pass_def and_then_def split: pass.splits)
  have mo: "tm_mon t1 = tm_mon now" using p(1) by (auto simp: month_pass_def Let_def split: if_splits option.splits)
  have d: "tm_mon t2 = tm_mon t1" "if flags e AND DOM_STAR \<noteq> 0 then tm_mday t2 = tm_mday now
       else tm_mday now < tm_mday t2 \<and> tm_mday t2 \<le> LAST_DOM + 1 \<and> bit_test (tbits e) dom_at (nat (tm_mday t2 - 1))"
    using p(2) by (auto simp: day_pass_def Let_def split: if_splits option.splits dest!: find_bit_Some)
  have h: "tm_mon t3 = tm_mon t2" "tm_mday t3 = tm_mday t2" "if flags e AND HR_STAR \<noteq> 0 then tm_hour t3 = tm_hour now
       else tm_hour now \<le> tm_hour t3 \<and> tm_hour t3 \<le> LAST_HOUR \<and> bit_test (tbits e) hour_at (nat (tm_hour t3))"
    using p(3) by (auto simp: hour_pass_def Let_def split: if_splits option.splits dest!: find_bit_Some)
  have "tm_mon t = tm_mon t3" "tm_mday t = tm_mday t3" "tm_hour t = tm_hour t3" "if flags e AND MIN_STAR \<noteq> 0 then tm_min t = tm_min now
       else tm_min now \<le> tm_min t \<and> tm_min t \<le> LAST_MINUTE \<and> bit_test (tbits e) minute_at (nat (tm_min t))"
    using p(4) by (auto simp: minute_pass_def Let_def split: if_splits option.splits dest!: find_bit_Some)
  with mo d h show ?thesis by simp
qed

text \<open>The jumps backwards: to the second month, or to the next month, day or hour, always to its start.\<close>

lemma time_pass_Again:
  assumes "time_pass e ag st now thn = Again n t"
  shows "(n = now\<lparr>tm_mon := FIRST_MONTH, tm_mday := FIRST_DOM, tm_hour := FIRST_HOUR, tm_min := FIRST_MINUTE\<rparr>
        \<and> find_bit (tbits e) month_at (tm_mon now) LAST_MONTH = None)
    \<or> (n = now\<lparr>tm_mon := tm_mon now + 1, tm_mday := FIRST_DOM, tm_hour := FIRST_HOUR, tm_min := FIRST_MINUTE\<rparr>
        \<and> flags e AND DOM_STAR = 0 \<and> find_bit (tbits e) dom_at (tm_mday now) LAST_DOM = None)
    \<or> (n = now\<lparr>tm_mday := tm_mday now + 1, tm_hour := FIRST_HOUR, tm_min := FIRST_MINUTE\<rparr>
        \<and> flags e AND HR_STAR = 0 \<and> find_bit (tbits e) hour_at (tm_hour now) LAST_HOUR = None)
    \<or> (n = now\<lparr>tm_hour := tm_hour now + 1, tm_min := FIRST_MINUTE\<rparr>
        \<and> flags e AND MIN_STAR = 0 \<and> find_bit (tbits e) minute_at (tm_min now) LAST_MINUTE = None)"
proof -
  consider "month_pass e ag st now thn = Again n t"
    | t1 where "day_pass e st now t1 = Again n t"
    | t2 where "hour_pass e st now t2 = Again n t"
    | t3 where "minute_pass e st now t3 = Again n t"
    using assms by (auto simp: time_pass_def and_then_def split: pass.splits)
  then show ?thesis
    by cases (auto simp: month_pass_def day_pass_def hour_pass_def minute_pass_def Let_def split: if_splits option.splits)
qed

text \<open>The entries the search copes with: some month from February on, some day from the second on, some hour and minute.\<close>

definition searchable :: "entry \<Rightarrow> bool" where
  "searchable e \<longleftrightarrow> find_bit (tbits e) month_at FIRST_MONTH LAST_MONTH \<noteq> None
     \<and> (flags e AND DOM_STAR \<noteq> 0 \<or> find_bit (tbits e) dom_at FIRST_DOM LAST_DOM \<noteq> None)
     \<and> (flags e AND HR_STAR \<noteq> 0 \<or> find_bit (tbits e) hour_at FIRST_HOUR LAST_HOUR \<noteq> None)
     \<and> (flags e AND MIN_STAR \<noteq> 0 \<or> find_bit (tbits e) minute_at FIRST_MINUTE LAST_MINUTE \<noteq> None)"

text \<open>How many jumps are left: each field that is not at its start yet may fail once.\<close>

definition jumps :: "tm \<Rightarrow> nat" where
  "jumps now = (if tm_min now > 0 then 8 else 0) + (if tm_hour now > 0 then 4 else 0)
     + (if tm_mday now > 1 then 2 else 0) + (if tm_mon now > 1 then 1 else 0)"

definition tm_low :: "tm \<Rightarrow> bool" where
  "tm_low now \<longleftrightarrow> 0 \<le> tm_hour now \<and> 0 \<le> tm_min now \<and> 1 \<le> tm_mday now"

lemma time_pass_jumps:
  assumes "time_pass e ag st now thn = Again n t" and "searchable e" and "tm_low now"
  shows "jumps n < jumps now \<and> tm_low n"
  using time_pass_Again[OF assms(1)]
proof (elim disjE conjE)
  assume n: "n = now\<lparr>tm_mon := FIRST_MONTH, tm_mday := FIRST_DOM, tm_hour := FIRST_HOUR, tm_min := FIRST_MINUTE\<rparr>"
    and h: "find_bit (tbits e) month_at (tm_mon now) LAST_MONTH = None"
  have "\<not> tm_mon now \<le> FIRST_MONTH" using h assms(2) by (fastforce simp: searchable_def find_bit_None)
  then show ?thesis using n by (simp add: jumps_def tm_low_def macro_defs)
next
  assume n: "n = now\<lparr>tm_mon := tm_mon now + 1, tm_mday := FIRST_DOM, tm_hour := FIRST_HOUR, tm_min := FIRST_MINUTE\<rparr>"
    and h: "flags e AND DOM_STAR = 0" "find_bit (tbits e) dom_at (tm_mday now) LAST_DOM = None"
  have "tm_mday now \<noteq> FIRST_DOM" using h assms(2) by (auto simp: searchable_def)
  then show ?thesis using n assms(3) by (simp add: jumps_def tm_low_def macro_defs)
next
  assume n: "n = now\<lparr>tm_mday := tm_mday now + 1, tm_hour := FIRST_HOUR, tm_min := FIRST_MINUTE\<rparr>"
    and h: "flags e AND HR_STAR = 0" "find_bit (tbits e) hour_at (tm_hour now) LAST_HOUR = None"
  have "tm_hour now \<noteq> FIRST_HOUR" using h assms(2) by (auto simp: searchable_def)
  then show ?thesis using n assms(3) by (simp add: jumps_def tm_low_def macro_defs)
next
  assume n: "n = now\<lparr>tm_hour := tm_hour now + 1, tm_min := FIRST_MINUTE\<rparr>"
    and h: "flags e AND MIN_STAR = 0" "find_bit (tbits e) minute_at (tm_min now) LAST_MINUTE = None"
  have "tm_min now \<noteq> FIRST_MINUTE" using h assms(2) by (auto simp: searchable_def)
  then show ?thesis using n assms(3) by (simp add: jumps_def tm_low_def macro_defs)
qed

lemma time_loop_returns:
  assumes "searchable e" and "tm_low now"
  shows "\<exists>r. time_loop e ag st now thn = Some r
    \<and> (\<forall>t. r = Inr t \<longrightarrow> (\<exists>ag' now' thn'. time_pass e ag' st now' thn' = Then t \<and> tm_low now'))"
  using assms(2)
proof (induction "jumps now" arbitrary: ag now thn rule: less_induct)
  case less
  show ?case
  proof (cases "time_pass e ag st now thn")
    case (Again n t)
    note j = time_pass_jumps[OF Again assms(1) less.prems]
    obtain r where r: "time_loop e True st n t = Some r"
        "\<forall>t. r = Inr t \<longrightarrow> (\<exists>ag' now' thn'. time_pass e ag' st now' thn' = Then t \<and> tm_low now')"
      using less.hyps[of n True t] j by auto
    then show ?thesis using Again by (subst time_loop.simps) simp
  next
    case (Then t)
    with less.prems show ?thesis by (subst time_loop.simps) auto
  next
    case (GiveUp s)
    then show ?thesis by (subst time_loop.simps) simp
  qed
qed


text \<open>An entry for December, at 4:05 on the 15th, seen on the 20th of May at 10:30.\<close>

definition december_entry :: entry where
  "december_entry = \<lparr>pwd = sample_pw, envp = [], cmd = ''x'',
     tbits = bit_set (bit_set (bit_set (bit_set (replicate tbits_size 0) minute_at 5) hour_at 4) dom_at 14) month_at 11,
     flags = DOW_STAR\<rparr>"

definition may_20 :: tm where
  "may_20 = \<lparr>tm_sec = 0, tm_min = 30, tm_hour = 10, tm_mday = 20, tm_mon = 4, tm_year = 110, tm_wday = 4, tm_yday = 139, tm_isdst = 0\<rparr>"


text \<open>The month that is printed is the current one, or the one the days ran over to, not the one of the entry: here June for
  December.\<close>

lemma tin_wrong_month: "\<exists>t. time_loop december_entry False may_20 may_20 may_20 = Some (Inr t) \<and> tm_mon t = 5 \<and> tm_mday t = 15"
proof -
  let ?n = "may_20\<lparr>tm_mon := 5, tm_mday := 1, tm_hour := 0, tm_min := 0\<rparr>"
  have p: "time_pass december_entry False may_20 may_20 may_20 = Again ?n (may_20\<lparr>tm_mon := 4\<rparr>)" by code_simp
  have q: "time_pass december_entry True may_20 ?n (may_20\<lparr>tm_mon := 4\<rparr>) =
      Then (may_20\<lparr>tm_mon := 5, tm_mday := 15, tm_hour := 4, tm_min := 5\<rparr>)" by code_simp
  show ?thesis by (subst time_loop.simps, simp add: p, subst time_loop.simps) (simp add: q)
qed

section \<open>Searches that never end\<close>

lemma time_loop_never:
  assumes "\<And>ag n t. I ag n \<Longrightarrow> \<exists>n' t'. time_pass e ag st n t = Again n' t' \<and> I True n'" and "I ag n"
  shows "time_loop e ag st n t = None"
proof -
  have "\<not> I ag n" if "time_loop e ag st n t = Some r" for ag n t r
  proof (rule time_loop.raw_induct[of "\<lambda>e' ag st' n t r. e' = e \<and> st' = st \<longrightarrow> \<not> I ag n", THEN mp, OF _ that])
    fix rec e' ag st' n t r
    assume ih: "\<And>e' ag st' n t r. rec e' ag st' n t = Some r \<Longrightarrow> e' = e \<and> st' = st \<longrightarrow> \<not> I ag n"
      and r: "(case time_pass e' ag st' n t of Then t \<Rightarrow> Some (Inr t) | Again n x \<Rightarrow> rec e' True st' n x | GiveUp s \<Rightarrow> Some (Inl s)) = Some r"
    show "e' = e \<and> st' = st \<longrightarrow> \<not> I ag n"
    proof (intro impI notI)
      assume e: "e' = e \<and> st' = st" and n: "I ag n"
      obtain n' t' where "time_pass e ag st n t = Again n' t'" "I True n'" using assms(1)[OF n] by blast
      then show False using r ih[of e True st n' t' r] e by simp
    qed
  qed simp
  with assms(2) show ?thesis by (cases "time_loop e ag st n t") auto
qed

lemma find_bit_above:
  assumes "\<forall>i \<in> {1..nat hi}. \<not> bit_test m bits i" and "1 \<le> lo"
  shows "find_bit m bits lo hi = None"
  unfolding find_bit_None
proof (intro allI impI)
  fix i assume "lo \<le> i \<and> i \<le> hi"
  then have "nat i \<in> {1..nat hi}" using assms(2) by auto
  then show "\<not> bit_test m bits (nat i)" using assms(1) by blast
qed

lemma january_never:
  assumes "flags e AND MON_STAR = 0" and "\<forall>i \<in> {1..nat LAST_MONTH}. \<not> bit_test (tbits e) month_at i" and "1 \<le> tm_mon now"
  shows "time_loop e False now now now = None"
proof (rule time_loop_never[where I = "\<lambda>ag n. 1 \<le> tm_mon n \<and> tm_year n = tm_year now"])
  fix ag t and n :: tm assume n: "1 \<le> tm_mon n \<and> tm_year n = tm_year now"
  then show "\<exists>n' t'. time_pass e ag now n t = Again n' t' \<and> 1 \<le> tm_mon n' \<and> tm_year n' = tm_year now"
    using find_bit_above[OF assms(2)] assms(1) by (simp add: time_pass_def month_pass_def and_then_def Let_def macro_defs)
qed (use assms(3) in simp)

lemma first_day_never:
  assumes "flags e AND DOM_STAR = 0" and "\<forall>i \<in> {1..nat LAST_DOM}. \<not> bit_test (tbits e) dom_at i"
    and "bit_test (tbits e) month_at (nat LAST_MONTH) \<longrightarrow> 1 \<le> tm_mon now" and "tm_wf now"
  shows "time_loop e False now now now = None"
proof (rule time_loop_never[where I = "\<lambda>ag n. 1 \<le> tm_mday n \<and> tm_year n = tm_year now \<and> (ag \<or> tm_mon n = tm_mon now)"])
  have st: "0 \<le> tm_mon now" using assms(4) by (simp add: tm_wf_def)
  fix ag t and n :: tm assume n: "1 \<le> tm_mday n \<and> tm_year n = tm_year now \<and> (ag \<or> tm_mon n = tm_mon now)"
  have d: "find_bit (tbits e) dom_at (tm_mday n) LAST_DOM = None" using find_bit_above[OF assms(2)] n by blast
  have m: "tm_mon n + 1 \<le> tm_mon now + 12" if "find_bit (tbits e) month_at (tm_mon n) LAST_MONTH = Some i" for i
  proof -
    have "tm_mon n \<le> i" "i \<le> LAST_MONTH" "i = LAST_MONTH \<longrightarrow> 1 \<le> tm_mon now" using find_bit_Some[OF that] assms(3) by auto
    then show ?thesis using st by (auto simp: macro_defs)
  qed
  show "\<exists>n' t'. time_pass e ag now n t = Again n' t' \<and> 1 \<le> tm_mday n' \<and> tm_year n' = tm_year now \<and> (True \<or> tm_mon n' = tm_mon now)"
  proof (cases "\<not> ag \<and> flags e AND MON_STAR \<noteq> 0")
    case True
    then show ?thesis using n d assms(1) by (simp add: time_pass_def month_pass_def day_pass_def and_then_def Let_def macro_defs)
  next
    case False
    then show ?thesis
      using n d m assms(1)
      by (cases "find_bit (tbits e) month_at (tm_mon n) LAST_MONTH")
         (auto simp: time_pass_def month_pass_def day_pass_def and_then_def Let_def macro_defs)
  qed
qed (use assms(4) in \<open>simp add: tm_wf_def\<close>)

text \<open>C36. tinjac hangs on entries for the first day of the month only, at any time (for \<open>@monthly\<close>, whose range of months runs one
  bit past December: in every month but January), and on entries for January only, in any other month: the
  search starts again for ever, because the counters its exits look at are reset before they are looked at.\<close>

theorem tin_search_hangs:
  assumes "tm_wf now"
    and "(flags e AND DOM_STAR = 0 \<and> (\<forall>i \<in> {1..nat LAST_DOM}. \<not> bit_test (tbits e) dom_at i)
        \<and> (bit_test (tbits e) month_at (nat LAST_MONTH) \<longrightarrow> 1 \<le> tm_mon now))
      \<or> (flags e AND MON_STAR = 0 \<and> (\<forall>i \<in> {1..nat LAST_MONTH}. \<not> bit_test (tbits e) month_at i) \<and> 1 \<le> tm_mon now)"
  shows "printTime y now e out = None"
  using assms first_day_never[of e now] january_never[of e now] by (auto simp: printTime_def)

definition monthly_entry :: entry where
  "monthly_entry = december_entry\<lparr>tbits := fst (the (special_bits ''monthly'' (replicate tbits_size 0) 0)), flags := DOW_STAR\<rparr>"

theorem tin_search_hangs_witness:
  "printTime \<lparr>ts_exists = True, ts_dir = [], ts_open = (\<lambda>_. None), ts_pwnam = (\<lambda>_. None), ts_now = (\<lambda>_. may_20), ts_valid = (\<lambda>_. True), ts_print = (\<lambda>_. [])\<rparr>
     may_20 monthly_entry [] = None"
proof -
  have "tm_wf may_20" by code_simp
  moreover have "flags monthly_entry AND DOM_STAR = 0" by code_simp
  moreover have "\<forall>i \<in> {1..nat LAST_DOM}. \<not> bit_test (tbits monthly_entry) dom_at i" by code_simp
  moreover have "1 \<le> tm_mon may_20" by code_simp
  ultimately show ?thesis by (intro tin_search_hangs) auto
qed

section \<open>Files that start with a setting\<close>

lemma not_alpha: "\<not> c_isalpha CHR ''*''" "\<not> c_isalpha CHR ''-''" "\<not> c_isalpha CHR ''@''"
  by code_simp+

lemma get_list_letter:
  assumes "c_isalpha ch"
  shows "\<exists>m' g. get_list m bits lo hi None (Some ch) f = (None, m', g)"
proof -
  have d: "\<not> c_isdigit ch" "ch \<noteq> CHR ''*''"
    using assms not_alpha by (auto simp: c_isalpha_def c_isupper_def c_islower_def c_isdigit_def)
  have "get_number lo None (Some ch) f tm = (None, unget_char (Some ch) f)" for tm
    using d get_run_stop[of c_isdigit ch 0 f] by (simp add: get_number_def)
  then have "get_range m' bits lo hi None (Some ch) f = (None, m', unget_char (Some ch) f)" for m'
    using d(2) by (simp add: get_range_def)
  then show ?thesis by (simp add: get_list_def list_loop.simps)
qed

text \<open>tinjac prints nothing for a crontab whose first line that is neither empty nor a comment starts with a letter, as the
  settings (\<open>SHELL=/bin/sh\<close>) at the top of most files of \<open>/etc/cron.d\<close> do: it does not read settings, and whatever
  entries follow are not looked at.\<close>

theorem tin_setting_hides_file:
  assumes "ts_open y fname = Some txt" and "get_char (skip_comments (open_stream txt)) = (Some ch, f)" and "c_isalpha ch"
    and "allocs c = []"
  shows "parseCrontab y fname (c, out) = Some (c, Inr out)"
proof -
  have n: "ch \<noteq> CHR ''-''" "ch \<noteq> CHR ''@''" using assms(3) not_alpha by auto
  obtain m g where "get_list (replicate tbits_size 0) minute_at FIRST_MINUTE LAST_MINUTE None (Some ch) f = (None, m, g)"
    using get_list_letter[OF assms(3)] by blast
  then have "tin_load_body gp c None ev fl (Some ch) f = (Inl (e_minute, None, g), c)" for gp ev fl
    using n(2) by (simp add: tin_load_body_def tin_load_times_def Let_def)
  then show ?thesis
    using assms n(1) by (simp add: parseCrontab_def env_init_def alloc_def tin_load_entry_def Let_def)
qed

theorem tin_setting_hides_file_witness:
  "parseCrontab \<lparr>ts_exists = True, ts_dir = [], ts_open = (\<lambda>_. Some (''SHELL=/bin/sh'' @ NL # ''* * * * * root x'' @ [NL])), ts_pwnam = (\<lambda>_. Some sample_pw),
      ts_now = (\<lambda>_. may_20), ts_valid = (\<lambda>_. True), ts_print = (\<lambda>_. [])\<rparr> ''/etc/cron.d/x'' (ctx0, []) = Some (ctx0, Inr [])"
proof -
  let ?t = "''SHELL=/bin/sh'' @ NL # ''* * * * * root x'' @ [NL]"
  have "skip_comments (open_stream ?t) = (open_stream ?t)\<lparr>at_eof := False\<rparr>"
    by (rule skip_comments_entry[of _ "CHR ''S''"]) (simp_all add: open_stream_def)
  then obtain f where f: "get_char (skip_comments (open_stream ?t)) = (Some CHR ''S'', f)"
    using get_char_Cons[of "skip_comments (open_stream ?t)" "CHR ''S''"] by (auto simp: open_stream_def)
  have a: "c_isalpha CHR ''S''" by code_simp
  show ?thesis by (rule tin_setting_hides_file[OF _ f a]) (simp_all add: ctx0_def)
qed

section \<open>What is printed for a file\<close>

text \<open>C34. For a file that starts with a line of the form of a system crontab, tinjac prints the command, the search for the next
  time of an entry whose five sets are the ones the fields of the line denote, and the user of the line; the rest
  of the file plays no part.\<close>

theorem tin_prints_first_entry:
  assumes "times_ok tm" and "allocs c = []" and "username_ok n" and "ts_pwnam y n = Some p" and "pw_fits p"
    and "NL \<notin> set s" and "no_nul s" and "length s < MAX_COMMAND"
    and "ts_open y fname = Some (render_times tm @ n @ SP # s @ NL # t)"
  shows "\<exists>e. entry_times e tm \<and> flags e \<in> {time_flags tm 0, time_flags tm 0 OR MON_STAR} \<and>
    parseCrontab y fname (c, out) =
      (case printTime y (ts_now y fname) e (out @ ['' Command: '' @ s]) of
         None \<Rightarrow> None
       | Some (Inl out1) \<Rightarrow> Some (c, Inl out1)
       | Some (Inr out1) \<Rightarrow> Some (c, Inr (out1 @ ['' User: '' @ pw_name p])))"
proof -
  let ?f = "open_stream (render_times tm @ n @ SP # s @ NL # t)"
  have r: "rest ?f = render_times tm @ n @ SP # s @ NL # t" by (simp add: open_stream_def)
  obtain e g where e: "load_entry (ts_pwnam y) c ?f None [] = (Inr e, c, g)" "entry_times e tm" "flags e = time_flags tm 0"
      "cmd e = s" "pwd e = p\<lparr>pw_passwd := []\<rparr>"
    using load_entry_system[where getpwnam = "ts_pwnam y", OF assms(1-8) r] by blast
  obtain b where b: "b \<in> {0, MON_STAR}" "tin_load_entry (ts_pwnam y) c ?f None [] = (Inr (e\<lparr>flags := flags e OR b\<rparr>), c, g)"
    using tin_load_entry_same[of "ts_pwnam y" c ?f None "[]"] unfolding e(1) prod.case sum.case by (elim bexE)
  let ?e = "e\<lparr>flags := flags e OR b\<rparr>"
  have "entry_times ?e tm" "flags ?e \<in> {time_flags tm 0, time_flags tm 0 OR MON_STAR}"
    using e(2,3) b(1) by (auto simp: entry_times_def)
  moreover have "parseCrontab y fname (c, out) =
      (case printTime y (ts_now y fname) ?e (out @ ['' Command: '' @ s]) of
         None \<Rightarrow> None
       | Some (Inl out1) \<Rightarrow> Some (c, Inl out1)
       | Some (Inr out1) \<Rightarrow> Some (c, Inr (out1 @ ['' User: '' @ pw_name p])))"
    using assms(2,9) b(2) e(4,5) by (simp add: parseCrontab_def env_init_def alloc_def split: option.split sum.split)
  ultimately show ?thesis by blast
qed

definition sample_tin :: tinsys where
  "sample_tin = \<lparr>ts_exists = True, ts_dir = [], ts_open = (\<lambda>_. Some (render_times sample_times @ ''joe'' @ SP # ''run'' @ NL # [])),
     ts_pwnam = (\<lambda>_. Some sample_pw), ts_now = (\<lambda>_. may_20), ts_valid = (\<lambda>_. True), ts_print = (\<lambda>_. [])\<rparr>"

theorem tin_prints_first_entry_witness:
  "\<exists>e. entry_times e sample_times \<and> parseCrontab sample_tin ''/etc/cron.d/x'' (ctx0, []) =
      (case printTime sample_tin may_20 e ['' Command: '' @ ''run''] of
         None \<Rightarrow> None
       | Some (Inl out1) \<Rightarrow> Some (ctx0, Inl out1)
       | Some (Inr out1) \<Rightarrow> Some (ctx0, Inr (out1 @ ['' User: '' @ ''joe''])))"
proof -
  have u: "username_ok ''joe''" by (simp add: username_ok_def no_nul_def macro_defs)
  have c: "NL \<notin> set ''run''" "no_nul ''run''" "length ''run'' < MAX_COMMAND" by (simp_all add: no_nul_def macro_defs)
  have y: "ts_pwnam sample_tin ''joe'' = Some sample_pw" "ts_now sample_tin f = may_20" "pw_name sample_pw = ''joe''"
    "ts_open sample_tin ''/etc/cron.d/x'' = Some (render_times sample_times @ ''joe'' @ SP # ''run'' @ NL # [])" for f
    by (simp_all add: sample_tin_def sample_pw_def)
  show ?thesis
    using tin_prints_first_entry[where y = sample_tin, OF sample_times_ok sample_allocs u y(1) sample_pw_fits c y(4), of "[]",
        unfolded y(2,3) append_Nil]
    by blast
qed

section \<open>All files\<close>

text \<open>What was printed before stays in front.\<close>

lemma printTime_prefix:
  "printTime y now e (out @ out') = map_option (map_sum ((@) out) ((@) out)) (printTime y now e out')"
  by (simp add: printTime_def Let_def split: option.splits sum.splits)

lemma parseCrontab_prefix:
  "parseCrontab y p (c, out) = map_option (\<lambda>(c', r). (c', map_sum ((@) out) ((@) out) r)) (parseCrontab y p (c, []))"
  by (simp add: parseCrontab_def printTime_prefix[of y _ _ out] split: option.splits sum.splits prod.splits)

text \<open>The files, in the order of the directory, and what is printed for each; \<open>c\<close> is the context they share.\<close>

definition files_print :: "tinsys \<Rightarrow> ctx \<Rightarrow> (string \<times> bool) list \<Rightarrow> (string \<Rightarrow> string list) \<Rightarrow> bool" where
  "files_print y c ds outs \<longleftrightarrow> (\<forall>(p, regular) \<in> set ds. regular \<longrightarrow> parseCrontab y p (c, []) = Some (c, Inr (outs p)))"

lemma dir_loop_files:
  "files_print y c ds outs \<Longrightarrow>
     dir_loop y (ds @ ds') (c, out) = dir_loop y ds' (c, out @ concat (map (outs \<circ> fst) (filter snd ds)))"
proof (induction ds arbitrary: out)
  case (Cons d ds)
  obtain p regular where d: "d = (p, regular)" by fastforce
  have "regular \<Longrightarrow> parseCrontab y p (c, out) = Some (c, Inr (out @ outs p))"
    using Cons.prems d parseCrontab_prefix[of y p c out] by (simp add: files_print_def)
  then show ?case using Cons d by (simp add: files_print_def)
qed simp

text \<open>C37. The whole program: tinjac prints what the regular files of the directory give, one after the other, as long as none of them makes it
  throw or hang. At a file with an exception (an entry whose next time is a date that does not exist) it stops and
  exits normally, at one on which the search does not end it hangs: whatever files follow are never looked at.\<close>

theorem tin_files_in_order:
  assumes "ts_exists y" and "ts_dir y = ds @ (p, True) # ds'" and "files_print y c ds outs"
  shows "(parseCrontab y p (c, []) = Some (c', Inl out) \<longrightarrow>
      tin_main y c = Some (1, concat (map (outs \<circ> fst) (filter snd ds)) @ out))
    \<and> (parseCrontab y p (c, []) = None \<longrightarrow> tin_main y c = None)
    \<and> (files_print y c ((p, True) # ds') outs \<longrightarrow>
      tin_main y c = Some (1, concat (map (outs \<circ> fst) (filter snd (ts_dir y)))))"
proof -
  let ?o = "concat (map (outs \<circ> fst) (filter snd ds))"
  have l: "tin_main y c = map_option (\<lambda>(_, r). (1, case r of Inl out \<Rightarrow> out | Inr out \<Rightarrow> out)) (dir_loop y ((p, True) # ds') (c, ?o))"
    using assms dir_loop_files[OF assms(3), of "(p, True) # ds'" "[]"] by (simp add: tin_main_def setPath_def)
  show ?thesis
    using l parseCrontab_prefix[of y p c ?o] dir_loop_files[of y c "(p, True) # ds'" outs "[]" ?o] assms(2) by auto
qed

text \<open>A directory, a file that cannot be opened, and a file without an entry.\<close>

definition two_files :: tinsys where
  "two_files = sample_tin\<lparr>ts_dir := [(''/etc/cron.d/dir'', False), (''/etc/cron.d/a'', True), (''/etc/cron.d/b'', True)],
     ts_open := (\<lambda>p. if p = ''/etc/cron.d/a'' then None else Some (''SHELL=/bin/sh'' @ [NL]))\<rparr>"

theorem tin_files_in_order_witness:
  "tin_main two_files ctx0 = Some (1, [])"
proof -
  let ?ds = "[(''/etc/cron.d/dir'', False), (''/etc/cron.d/a'', True)]"
  have b: "parseCrontab two_files ''/etc/cron.d/b'' (ctx0, []) = Some (ctx0, Inr [])" by code_simp
  have d: "ts_dir two_files = ?ds @ (''/etc/cron.d/b'', True) # []" "ts_exists two_files" by (simp_all add: two_files_def sample_tin_def)
  have a: "files_print two_files ctx0 ?ds (\<lambda>_. [])" by (simp add: files_print_def parseCrontab_def two_files_def)
  have "files_print two_files ctx0 [(''/etc/cron.d/b'', True)] (\<lambda>_. [])" using b by (simp add: files_print_def)
  with tin_files_in_order[OF d(2,1) a] show ?thesis by simp
qed

end
