(* ===== verification/TinLog.thy ===== *)
theory TinLog
  imports CronEntryTimes
begin

text \<open>
  \<open>src/src/log.cpp\<close>: the log of tinjac, a class around an output file. A \<open>Log\<close> that was given a file name writes to that
  file if it could be opened; otherwise the lines go to the error output (\<open>clog\<close>). As for the log of \<open>anacron\<close>, a message is given
  with its format already filled in.
\<close>

record Log =
  m_stream :: "string option"

record streams =
  s_cout :: string
  s_clog :: string

definition Log_file :: "bool \<Rightarrow> Log" where
  "Log_file opened = \<lparr>m_stream = (if opened then Some [] else None)\<rparr>"

definition Log_default :: Log where
  "Log_default = \<lparr>m_stream = None\<rparr>"

definition log_text :: "string \<Rightarrow> int \<Rightarrow> string \<Rightarrow> string" where
  "log_text file LineNo m =
     file @ '':'' @ (if LineNo < 0 then CHR ''-'' # dec (nat (- LineNo)) else dec (nat LineNo)) @ '': '' @ m @ [NL]"

text \<open>The two branches both functions end with.\<close>

definition log_put :: "string \<Rightarrow> Log \<times> streams \<Rightarrow> Log \<times> streams" where
  "log_put txt s =
     (case s of (l, st) \<Rightarrow>
        (case m_stream l of
           Some old \<Rightarrow> (l\<lparr>m_stream := Some (old @ txt)\<rparr>, st)
         | None \<Rightarrow> (l, st\<lparr>s_clog := s_clog st @ txt\<rparr>)))"

text \<open>\<open>Write\<close> of a finished line, with its left-over test output, and \<open>Write\<close> of a format through a buffer of 1024 bytes; the
  text printed ends at the first terminator.\<close>

definition Write_line :: "string \<Rightarrow> int \<Rightarrow> string \<Rightarrow> Log \<times> streams \<Rightarrow> Log \<times> streams" where
  "Write_line file LineNo m s =
     (case s of (l, st) \<Rightarrow> log_put (log_text file LineNo (cstr m)) (l, st\<lparr>s_cout := s_cout st @ ''test'' @ [NL]\<rparr>))"

definition Write_format :: "string \<Rightarrow> int \<Rightarrow> string \<Rightarrow> Log \<times> streams \<Rightarrow> Log \<times> streams" where
  "Write_format file LineNo m s = log_put (log_text file LineNo (cstr (take 1023 m))) s"

definition Log_close :: "Log \<Rightarrow> Log" where
  "Log_close l = l\<lparr>m_stream := None\<rparr>"

section \<open>Properties\<close>

text \<open>All that was written, and where: a log with a file writes nothing to the error output, one without writes all of it
  there.\<close>

definition log_lines :: "Log \<times> streams \<Rightarrow> string" where
  "log_lines s = (case s of (l, st) \<Rightarrow> s_clog st @ (case m_stream l of None \<Rightarrow> [] | Some t \<Rightarrow> t))"

lemma log_put_target:
  "m_stream l = None \<Longrightarrow> log_put txt (l, st) = (l, st\<lparr>s_clog := s_clog st @ txt\<rparr>)"
  "m_stream l = Some t \<Longrightarrow> log_put txt (l, st) = (l\<lparr>m_stream := Some (t @ txt)\<rparr>, st)"
  by (simp_all add: log_put_def)

lemma log_put_lines: "log_lines (log_put txt s) = log_lines s @ txt \<and> s_cout (snd (log_put txt s)) = s_cout (snd s)"
  if "m_stream (fst s) = None \<or> s_clog (snd s) = []"
  using that by (cases s) (auto simp: log_put_def log_lines_def split: option.splits)

lemma cstr_take_whole: "no_nul m \<Longrightarrow> length m \<le> n \<Longrightarrow> cstr (take n m) = m"
  by (simp add: cstr_id)

lemma length_cstr: "length (cstr m) \<le> length m"
  by (simp add: cstr_def length_takeWhile_le)

text \<open>A formatted message goes to the log as one addition, whole if it fits and cut to 1023 characters otherwise; the standard
  output, where tinjac prints its results, is not touched.\<close>

lemma Write_format_bounded:
  assumes "m_stream (fst s) = None \<or> s_clog (snd s) = []"
  shows "\<exists>m'. log_lines (Write_format file n m s) = log_lines s @ log_text file n m' \<and> length m' \<le> 1023
    \<and> (no_nul m \<and> length m \<le> 1023 \<longrightarrow> m' = m) \<and> s_cout (snd (Write_format file n m s)) = s_cout (snd s)"
  using log_put_lines[OF assms] cstr_take_whole[of m 1023] length_cstr[of "take 1023 m"]
  by (intro exI[of _ "cstr (take 1023 m)"]) (auto simp: Write_format_def)

text \<open>The other \<open>Write\<close> mixes a line of its own into the results, once per message.\<close>

lemma Write_line_disturbs: "s_cout (snd (Write_line file n m s)) = s_cout (snd s) @ ''test'' @ [NL]"
  by (cases s) (simp add: Write_line_def log_put_def split: option.splits)

end
