(* ===== verification/Spec2Isabelle.thy ===== *)
theory Spec2Isabelle
  imports CrontabProps CronMainProps CrontabCmdProps CommandProps AnaMainProps TinjacProps TinLog
begin

text \<open>
  \<^bold>\<open>tinjac and the cron it carries.\<close>

  The repository holds tinjac, a rewrite of cron in its first steps (\<open>src/src\<close>, \<open>src/include\<close>), and the complete cron it starts
  from, \<open>src/cronie-1.4.6\<close>: the daemon and the \<open>crontab\<close> command (\<open>src/*.c\<close>) and \<open>anacron\<close> (\<open>anacron/*.c\<close>). This development models
  these programs in C and C++ function by function and proves what makes them right, or shows where they are not.

  \<^bold>\<open>How the parts work together.\<close> A user gives a crontab to the \<open>crontab\<close> command, which checks it and installs it in the spool
  directory. The daemon reads the tables of all users and of the system into a linked list, sleeps until the next minute,
  brings the list up to date, puts the entries that are due into a queue, and runs the queue: a process per job
  takes the identity of the owner, runs the command, feeds it its input and mails its output. \<open>anacron\<close> runs jobs by
  days: a time stamp per job says when it ran last. tinjac reads the first entry of each system crontab and prints
  when it would run next.

  \<^bold>\<open>Theories and sources\<close> (paths under \<open>src/cronie-1.4.6/src\<close> unless said otherwise).
  \<^item> \<open>CronPrelude\<close>: the collections of lemmas (\<open>macro_defs\<close>), C's integers (\<open>s32\<close>, \<open>c_div\<close>), C strings, and the context \<open>ctx\<close>
    of a process: the outcomes of its allocations and the messages it logs.
  \<^item> \<open>CronStrings\<close>, \<open>CronStream\<close>, \<open>CronAccess\<close>: \<open>misc.c\<close> (string helpers; reading with line counts and push-back; access lists, the lock of
    the daemon, logging, identities, the spool directory).
  \<^item> \<open>BitString\<close>: \<open>bitstring.h\<close>, on bytes; the locale \<open>bit_array\<close> is what the parser needs of it.
  \<^item> \<open>CronEnv\<close>, \<open>CronEnvParse\<close>: \<open>env.c\<close> (locale \<open>env_map\<close>: an environment is a map).
  \<^item> \<open>CronEntry\<close> (\<open>entry.c\<close>, \<open>pw_dup.c\<close>, \<open>structs.h\<close>) with \<open>CronEntryReads\<close>, \<open>CronEntryTimes\<close>, \<open>CronEntryFields\<close>, \<open>CronEntryLine\<close>: the parser of an
    entry, that it moves forward (locale \<open>reader\<close>), and what it makes of the text of numbers, ranges, lists and lines.
  \<^item> \<open>CronSecurity\<close> (\<open>security.c\<close>), \<open>CronUser\<close> (\<open>user.c\<close>), \<open>CronCrontab\<close> and \<open>CrontabProps\<close>: whole crontabs and their round trip.
  \<^item> \<open>CronJob\<close> (\<open>job.c\<close>; locale \<open>job_queue\<close>), \<open>CronSched\<close> and \<open>CronSchedProps\<close> (\<open>cron.c\<close>: clocks, \<open>find_jobs\<close>, the kinds of wake-up).
  \<^item> \<open>CronDatabase\<close> (\<open>database.c\<close>), \<open>CronDatabaseList\<close> (locale \<open>user_list\<close>: the doubly linked list), \<open>CronDatabaseSpec\<close> (the abstract
    reload and the refinement), \<open>DaemonProps\<close>.
  \<^item> \<open>CronMain\<close>, \<open>CronMainProps\<close>: \<open>main\<close> of \<open>cron.c\<close>: the start and the rounds of the loop, composed of all of the above; the
    relation \<open>cron_run\<close> holds of every state a run can reach (locale \<open>table_reload\<close>: what a round needs of the two reloads).
  \<^item> \<open>CrontabCmd\<close>, \<open>CrontabCmdProps\<close>: \<open>crontab.c\<close>. \<open>CronCommand\<close>, \<open>CommandProps\<close>: \<open>do_command.c\<close> and \<open>popen.c\<close>.
  \<^item> \<open>AnaLog\<close>, \<open>AnaGregor\<close>, \<open>AnaTab\<close>, \<open>AnaLock\<close>, \<open>AnaRun\<close>, \<open>AnaMain\<close> with \<open>AnaTabProps\<close>, \<open>AnaLockProps\<close>, \<open>AnaRunProps\<close>,
    \<open>AnaMainProps\<close> (the program from its options to its exit): \<open>log.c\<close>, \<open>gregor.c\<close>,
    \<open>readtab.c\<close> and \<open>matchrx.c\<close>, \<open>lock.c\<close>, \<open>runjob.c\<close>, \<open>main.c\<close> of \<open>anacron\<close>; \<open>areach\<close> are the states of a run (locale
    \<open>comparison\<close>: what \<open>qsort\<close> needs of the order of the jobs).
  \<^item> \<open>Tinjac\<close>, \<open>TinjacProps\<close>, \<open>TinLog\<close>: \<open>src/src/crontabs.cpp\<close>, \<open>src/src/main.cpp\<close> and \<open>src/src/log.cpp\<close>.
  \<^item> This theory: properties from the text of a line to the jobs that run, and from \<open>anacron\<close>'s stamps to its next run.

  \<^bold>\<open>State and operations.\<close> A C struct is a record with the names of its members, an enumeration a datatype, a handler one
  definition; a pointer structure is a heap (a map from addresses to nodes), where freed nodes are gone and a step
  through a missing node is \<^const>\<open>None\<close>. Errors are \<^const>\<open>Inl\<close>; a process that exits is \<^const>\<open>Inl\<close> with its status, or \<open>Exit\<close> in
  \<open>anacron\<close>. Files are maps from paths to contents; what a system call returns, and when it fails, is an argument.

  \<^bold>\<open>What is shown.\<close> Parsing: settings, entries and whole crontabs are read as what they mean, every input gives well-formed entries,
  the parser ends. Scheduling: an entry read from a line is due exactly at the times its fields match; each kind of wake-up
  asks for the right minutes; in every round of every run the jobs run are entries of live tables, exactly the due
  ones when one minute has passed; SIGHUP reads all tables again; one daemon at a time. Database: the pointer program
  refines a reload of lists. Safety: jobs only with the identity of their owner, mail headers and arguments that cannot
  be forged, crontab replacing a table completely or not at all and only the caller's own. \<open>anacron\<close>: the anacrontab is
  read back as written, which jobs are due, locks, stamps, counters of running jobs, the end of a run, and what the whole program leaves under each
  option. tinjac: the
  same parser, when the search for the next time ends and when it never does, and what that does to the files behind.

  \<^bold>\<open>Bounds and fuel.\<close> Numbers wrap at the width the code uses (\<open>s32\<close>, words for flags and modes). The loop of \<open>get_range\<close> has as
  fuel the width of the field plus two, which \<open>range_loop_returns\<close> shows to be enough; walks through a list have the number of
  addresses ever given out. Loops that wait take the list of what they see (clock readings, signals, ends of
  children), and \<^const>\<open>None\<close> means that the list ended first: theorems about them say which lists are long enough. The
  jumps of tinjac's search are a partial function, \<^const>\<open>None\<close> if they never end. Buffer sizes are the macros of the code. Day
  numbers are shown right for the years the calendar routine accepts.

  \<^bold>\<open>Parameters.\<close> PAM, SELinux, \<open>getpwnam\<close>, \<open>localtime\<close>, \<open>fnmatch\<close>, random delays, the editor, the mailer, inotify and boost are
  arguments, with the documented behaviour a theorem needs as its hypothesis.

  \<^bold>\<open>Not modelled.\<close> \<open>wt-3.1.7a\<close> is a vendored web toolkit (with sqlite). In tinjac: the trace messages inside
  the parser. In cronie: \<open>arpadate\<close> and the
  log file variant, which are not compiled; debug output; the installation of signal handlers and the redirection of the
  standard files of the daemon; what happens inside the processes of a command, the editor or a mailer, beyond
  their input, output and end. Tests, build files and documentation hold no code of the programs.
\<close>

section \<open>From the text of a crontab to the jobs that run\<close>

lemma time_flags_stars:
  "time_flags tm 0 AND DOM_STAR \<noteq> 0 \<longleftrightarrow> star_first (t_dom tm)"
  "time_flags tm 0 AND DOW_STAR \<noteq> 0 \<longleftrightarrow> star_first (t_dow tm)"
  "time_flags tm 0 AND (MIN_STAR OR HR_STAR) \<noteq> 0 \<longleftrightarrow> star_first (t_minute tm) \<or> star_first (t_hour tm)"
  by (simp_all add: time_flags_def Let_def macro_defs)

text \<open>The rule of the manual page: minute, hour and month have to match; the day matches if the day of the month and
  the day of the week both do, or, when neither field starts with a star, if one of them does.\<close>

definition line_matches :: "times \<Rightarrow> tm \<Rightarrow> bool" where
  "line_matches tm t \<longleftrightarrow>
     (let dom_ok = tm_mday t \<in> denotes FIRST_DOM LAST_DOM (t_dom tm);
          dow_ok = (tm_wday t \<in> denotes FIRST_DOW LAST_DOW (t_dow tm) \<or>
            tm_wday t = 0 \<and> 7 \<in> denotes FIRST_DOW LAST_DOW (t_dow tm))
      in tm_min t \<in> denotes FIRST_MINUTE LAST_MINUTE (t_minute tm) \<and> tm_hour t \<in> denotes FIRST_HOUR LAST_HOUR (t_hour tm)
       \<and> tm_mon t + 1 \<in> denotes FIRST_MONTH LAST_MONTH (t_month tm)
       \<and> (if star_first (t_dom tm) \<or> star_first (t_dow tm) then dow_ok \<and> dom_ok else dow_ok \<or> dom_ok))"

lemma entry_times_matches:
  assumes "entry_times e tm" and "flags e = time_flags tm 0" and "tm_wf t"
  shows "time_matches t e \<longleftrightarrow> line_matches tm t"
  using assms time_flags_stars(1,2)[of tm] unfolding time_matches_values[OF assms(3)]
  by (auto simp: entry_times_def line_matches_def sunday_closure_def Let_def tm_wf_def)

text \<open>C2. From text to schedule: an entry read from a crontab line is due at a time exactly if the local time, in the
  zone of its \<open>CRON_TZ\<close>, matches the five fields of the line by the rule of the manual page, provided the owner
  still exists and the kind of entry (with or without a star in minute or hour) is asked for.\<close>

theorem line_due:
  assumes "times_ok tm" and "allocs c = []" and "pw_fits p" and "command_ok s"
    and "rest f = render_times tm @ s @ NL # t" and "\<And>z. tm_wf (localtime w z start)"
  shows "\<exists>e g. load_entry getpwnam c f (Some p) e0 = (Inr e, c, g)
    \<and> (entry_due w start doWild doNonWild e \<longleftrightarrow>
        pwnam w (pw_name p) \<noteq> None
        \<and> line_matches tm (localtime w (maketime_tz (env_get ''CRON_TZ'' (envp e)) (orig_tz w)) start)
        \<and> (if star_first (t_minute tm) \<or> star_first (t_hour tm) then doWild else doNonWild))"
proof -
  obtain e g where e: "load_entry getpwnam c f (Some p) e0 = (Inr e, c, g)" "entry_times e tm" "flags e = time_flags tm 0"
      "pwd e = p\<lparr>pw_passwd := []\<rparr>"
    using load_entry_text[OF assms(1-5), of getpwnam e0] by blast
  have "wild e \<longleftrightarrow> star_first (t_minute tm) \<or> star_first (t_hour tm)"
    using e(3) time_flags_stars(3)[of tm] by (simp add: wild_def)
  then have "entry_due w start doWild doNonWild e \<longleftrightarrow>
        pwnam w (pw_name p) \<noteq> None
        \<and> line_matches tm (localtime w (maketime_tz (env_get ''CRON_TZ'' (envp e)) (orig_tz w)) start)
        \<and> (if star_first (t_minute tm) \<or> star_first (t_hour tm) then doWild else doNonWild)"
    using e(4) entry_times_matches[OF e(2,3) assms(6)] by (auto simp: entry_due_def)
  with e(1) show ?thesis by blast
qed

theorem line_due_witness:
  "\<exists>e g. load_entry (\<lambda>_. None) ctx0 (open_stream (''5,10-20/5 * 1 */3 0 run'' @ [NL])) (Some sample_pw) [] = (Inr e, ctx0, g)
     \<and> entry_due sample_world 0 True False e"
proof -
  have c: "command_ok ''run''" by (simp add: command_ok_def no_nul_def macro_defs)
  have i: "rest (open_stream (''5,10-20/5 * 1 */3 0 run'' @ [NL])) = render_times sample_times @ ''run'' @ NL # []"
    by (simp add: sample_render open_stream_def)
  have w: "tm_wf (localtime sample_world z 0)" for z by (simp add: sample_world_def sample_tm_def tm_wf_def)
  have "line_matches sample_times (localtime sample_world z 0)" for z
    by (auto simp: sample_world_def sample_tm_def line_matches_def sample_times_def denotes_def span_def macro_defs)
  then show ?thesis
    using line_due[OF sample_times_ok sample_allocs sample_pw_fits c i w, of "\<lambda>_. None" "[]" True False]
    by (auto simp: sample_world_def sample_times_def)
qed

section \<open>From one run of anacron to the next\<close>

text \<open>C30. No job runs twice on one day: once a run of \<open>anacron\<close> has ended normally, a job it was to start (with a period of at
  least a day or a named one) is not due any more in a later run on the same date without \<open>-f\<close>.\<close>

theorem anacron_once_a_day:
  assumes "run_all w nw ser t0 clock es st0 = Some (Go st)" and "fresh_start st0" and "k < length (r_jobs st0)"
    and "a_drop_job (r_jobs st0 ! k) \<noteq> 1" and "today (rs_day w)" and "year (rs_day w) \<le> 9999"
    and "all_calls w'" and "today w'" and "date_of w' = date_of (rs_day w)" and "\<not> force w'"
    and "a_ident j = a_ident (r_jobs st0 ! k)" and "0 < a_period j \<and> a_named_period j = 0 \<or> a_named_period j \<in> {1, 2, 3, 4}"
    and "0 \<le> tm_mon (tm_now w') \<and> tm_mon (tm_now w') \<le> 11"
  shows "\<exists>s'. consider_job w' j (r_spool st) = Go (False, s')"
proof -
  have id: "map a_ident (r_jobs st) = map a_ident (r_jobs st0)" and
    st: "sp_files (r_spool st) (a_ident (r_jobs st ! k)) = Some (stamp_text (rs_day w))"
    using run_all_stamps[OF assms(1,2), of st] assms(3,4) by auto
  have "a_ident (r_jobs st ! k) = a_ident j"
    using arg_cong[OF id, of "\<lambda>xs. xs ! k"] assms(3,11) map_eq_imp_length_eq[OF id] by simp
  then have f: "stamp_of (r_spool st) j = stamp_text (rs_day w)" using st by (simp add: stamp_of_def)
  have v: "valid_date (date_of (rs_day w))" using assms(5) by (simp add: today_def)
  have "days_since (rs_day w) w' = 0" using assms(9) by (simp add: days_since_def date_of_def)
  then have d: "day_delta w' (stamp_text (rs_day w)) = 0" using day_delta_stamp[OF v assms(6,8)] by simp
  have "too_early w' j (stamp_text (rs_day w)) = Some True"
    using assms(10,12,13) month_lengths_pos[of "tm_now w'"] stamp_parts(3)[OF v assms(6)]
    by (auto simp: too_early_def d Let_def period_bounds_def days_last_year_def days_this_year_def)
  then show ?thesis
    using consider_job_result[OF assms(7), of j "r_spool st"] f by (auto simp: due_now_def)
qed

theorem anacron_once_a_day_witness:
  "\<exists>st s'. run_all sample_run True True 0 (\<lambda>_. 0) sample_events sample_arun = Some (Go st)
     \<and> consider_job sample_day sample_ajob (r_spool st) = Go (False, s')"
proof -
  obtain st where st: "run_all sample_run True True 0 (\<lambda>_. 0) sample_events sample_arun = Some (Go st)" using sample_ends by blast
  have k: "0 < length (r_jobs sample_arun)" "a_drop_job (r_jobs sample_arun ! 0) \<noteq> 1" "rs_day sample_run = sample_day" "year sample_day \<le> 9999"
      "\<not> force sample_day" "a_ident sample_ajob = a_ident (r_jobs sample_arun ! 0)" "a_named_period sample_ajob = 1"
      "0 \<le> tm_mon (tm_now sample_day) \<and> tm_mon (tm_now sample_day) \<le> 11"
    by (simp_all add: sample_arun_def sample_ajob_def sample_run_def sample_day_def)
  from anacron_once_a_day[OF st sample_fresh k(1,2), of sample_day sample_ajob] sample_dates(1,3) k st show ?thesis by auto
qed

end
